(* ===== verification/Rust_Base.thy ===== *)
theory Rust_Base
  imports Main "HOL-Library.Sublist" "HOL-Library.Word"
begin

section \<open>Rust strings, slices and small numeric helpers\<close>

text \<open>
  Shared vocabulary of the development. A Rust \<open>String\<close> or \<open>&str\<close> is its UTF-8 byte
  sequence, a HOL \<open>string\<close> (every \<open>char\<close> is one byte), so \<open>length\<close> is \<open>str::len\<close>
  and all offsets are byte offsets as in the source. A slice at an offset that is not a
  character boundary panics; a model function that may panic returns an \<open>option\<close> whose
  \<open>None\<close> is the panic. Token ids and counters keep their width as words.
\<close>

type_synonym i32 = "32 word"
type_synonym u32 = "32 word"
type_synonym u64 = "64 word"

named_theorems str_simps \<open>facts on byte strings, slices and searches\<close>

subsection \<open>Character boundaries\<close>

definition is_cont :: "char \<Rightarrow> bool" where
  "is_cont c \<longleftrightarrow> 128 \<le> (of_char c :: nat) \<and> (of_char c :: nat) < 192"

definition is_char_boundary :: "string \<Rightarrow> nat \<Rightarrow> bool" where
  "is_char_boundary s i \<longleftrightarrow>
     i = 0 \<or> (if i \<ge> length s then i = length s else \<not> is_cont (s ! i))"

text \<open>No UTF-8 string starts with a continuation byte: all that is used of validity.\<close>

definition starts_char :: "string \<Rightarrow> bool" where
  "starts_char s \<longleftrightarrow> (case s of [] \<Rightarrow> True | c # _ \<Rightarrow> \<not> is_cont c)"

lemma boundary_0 [simp]: "is_char_boundary s 0"
  by (simp add: is_char_boundary_def)

lemma boundary_length [simp]: "is_char_boundary s (length s)"
  by (simp add: is_char_boundary_def)

lemma boundary_le: "is_char_boundary s i \<Longrightarrow> i \<le> length s"
  by (auto simp: is_char_boundary_def split: if_splits)

lemma boundary_drop:
  "0 < i \<Longrightarrow> i \<le> length s \<Longrightarrow> is_char_boundary s i \<longleftrightarrow> starts_char (drop i s)"
  by (cases "i = length s")
     (auto simp: is_char_boundary_def starts_char_def Cons_nth_drop_Suc [symmetric])

lemma boundary_append_length: "starts_char t \<Longrightarrow> is_char_boundary (s @ t) (length s)"
  by (cases "s = []") (simp_all add: boundary_drop)

lemma boundary_append: "starts_char t \<Longrightarrow> is_char_boundary s i \<Longrightarrow> is_char_boundary (s @ t) i"
  by (cases t) (auto simp: is_char_boundary_def nth_append starts_char_def split: if_splits)

lemma boundary_take:
  "is_char_boundary s i \<Longrightarrow> i \<le> n \<Longrightarrow> n \<le> length s \<Longrightarrow> is_char_boundary (take n s) i"
  by (auto simp: is_char_boundary_def split: if_splits)

text \<open>The loops \<open>while !s.is_char_boundary(i) { i -= 1 }\<close> of the source.\<close>

fun floor_char_boundary :: "string \<Rightarrow> nat \<Rightarrow> nat" where
  "floor_char_boundary s 0 = 0"
| "floor_char_boundary s (Suc i) =
     (if is_char_boundary s (Suc i) then Suc i else floor_char_boundary s i)"

lemma floor_le: "floor_char_boundary s i \<le> i"
  by (induction s i rule: floor_char_boundary.induct) auto

lemma floor_boundary: "is_char_boundary s (floor_char_boundary s i)"
  by (induction s i rule: floor_char_boundary.induct) auto

lemma floor_id: "is_char_boundary s i \<Longrightarrow> floor_char_boundary s i = i"
  by (cases i) auto

lemma floor_greatest: "is_char_boundary s j \<Longrightarrow> j \<le> i \<Longrightarrow> j \<le> floor_char_boundary s i"
proof (induction s i rule: floor_char_boundary.induct)
  case (2 s i)
  then show ?case by (cases "j = Suc i") auto
qed simp

lemma boundary_of_drop:
  "is_char_boundary s c \<Longrightarrow> is_char_boundary (drop c s) i \<longleftrightarrow> is_char_boundary s (c + i)"
  using boundary_le [of s c] by (cases "i = 0") (auto simp: is_char_boundary_def split: if_splits)

lemma floor_drop:
  "is_char_boundary s c \<Longrightarrow>
   floor_char_boundary s (c + k) = c + floor_char_boundary (drop c s) k"
  by (induction k) (simp_all add: floor_id boundary_of_drop)

subsection \<open>Slices\<close>

definition slice_from :: "string \<Rightarrow> nat \<Rightarrow> string option" where
  "slice_from s i = (if is_char_boundary s i then Some (drop i s) else None)"

definition slice_to :: "string \<Rightarrow> nat \<Rightarrow> string option" where
  "slice_to s i = (if is_char_boundary s i then Some (take i s) else None)"

definition slice :: "string \<Rightarrow> nat \<Rightarrow> nat \<Rightarrow> string option" where
  "slice s i j =
     (if i \<le> j \<and> is_char_boundary s i \<and> is_char_boundary s j
      then Some (drop i (take j s)) else None)"

subsection \<open>Substring search\<close>

text \<open>\<open>hay.find(pat)\<close>: the least offset at which \<open>pat\<close> occurs.\<close>

fun str_find :: "string \<Rightarrow> string \<Rightarrow> nat option" where
  "str_find pat [] = (if pat = [] then Some 0 else None)"
| "str_find pat (c # cs) =
     (if prefix pat (c # cs) then Some 0 else map_option Suc (str_find pat cs))"

definition occurs_at :: "string \<Rightarrow> string \<Rightarrow> nat \<Rightarrow> bool" where
  "occurs_at pat s i \<longleftrightarrow> i \<le> length s \<and> prefix pat (drop i s)"

lemma occurs_at_0 [simp]: "occurs_at pat s 0 \<longleftrightarrow> prefix pat s"
  by (simp add: occurs_at_def)

lemma occurs_at_Cons_Suc [simp]: "occurs_at pat (c # cs) (Suc i) \<longleftrightarrow> occurs_at pat cs i"
  by (simp add: occurs_at_def)

lemma occurs_at_drop: "n \<le> length s \<Longrightarrow> occurs_at pat (drop n s) i \<longleftrightarrow> occurs_at pat s (n + i)"
  by (auto simp: occurs_at_def add.commute)

lemma occurs_at_length: "occurs_at pat s i \<Longrightarrow> i + length pat \<le> length s"
  by (auto simp: occurs_at_def dest: prefix_length_le)

lemma occurs_at_append_left: "occurs_at pat s i \<Longrightarrow> occurs_at pat (s @ t) i"
  by (auto simp: occurs_at_def intro: prefix_prefix)

lemma occurs_at_append_cut:
  assumes "occurs_at pat (s @ t) i" and "i + length pat \<le> length s"
  shows "occurs_at pat s i"
proof -
  have "prefix pat (drop i s @ t)"
    using assms by (simp add: occurs_at_def)
  moreover have "length pat \<le> length (drop i s)"
    using assms(2) by simp
  ultimately have "prefix pat (drop i s)"
    by (metis prefix_length_prefix prefixI)
  then show ?thesis using assms(2) by (simp add: occurs_at_def)
qed

lemma str_find_None: "str_find pat s = None \<longleftrightarrow> (\<forall>i. \<not> occurs_at pat s i)"
proof (induction s)
  case Nil
  then show ?case by (auto simp: occurs_at_def)
next
  case (Cons c cs)
  show ?case
  proof
    assume *: "str_find pat (c # cs) = None"
    show "\<forall>i. \<not> occurs_at pat (c # cs) i"
    proof
      fix i show "\<not> occurs_at pat (c # cs) i"
        using * Cons.IH by (cases i) (auto split: if_splits)
    qed
  next
    assume "\<forall>i. \<not> occurs_at pat (c # cs) i"
    then have "\<not> occurs_at pat (c # cs) 0" "\<forall>i. \<not> occurs_at pat (c # cs) (Suc i)"
      by blast+
    then show "str_find pat (c # cs) = None" using Cons.IH by simp
  qed
qed

lemma str_find_SomeD:
  "str_find pat s = Some i \<Longrightarrow> occurs_at pat s i \<and> (\<forall>j < i. \<not> occurs_at pat s j)"
proof (induction s arbitrary: i)
  case Nil
  then show ?case by (auto simp: occurs_at_def split: if_splits)
next
  case (Cons c cs)
  show ?case
  proof (cases "prefix pat (c # cs)")
    case True
    with Cons.prems show ?thesis by simp
  next
    case False
    with Cons.prems obtain k where k: "i = Suc k" "str_find pat cs = Some k" by auto
    from Cons.IH [OF k(2)] have "occurs_at pat cs k" "\<forall>j<k. \<not> occurs_at pat cs j" by auto
    with False k(1) show ?thesis by (auto simp: less_Suc_eq_0_disj)
  qed
qed

lemma str_find_SomeI:
  assumes "occurs_at pat s i" and "\<And>j. j < i \<Longrightarrow> \<not> occurs_at pat s j"
  shows "str_find pat s = Some i"
proof (cases "str_find pat s")
  case None
  with assms(1) show ?thesis by (auto simp: str_find_None)
next
  case (Some k)
  with str_find_SomeD [OF Some] assms have "k = i"
    by (metis linorder_neqE_nat)
  with Some show ?thesis by simp
qed

lemma str_find_le: "str_find pat s = Some i \<Longrightarrow> i + length pat \<le> length s"
  using str_find_SomeD occurs_at_length by blast

text \<open>Text that arrives later never moves a match, and a single character splits the text.\<close>

lemma str_find_append: "str_find pat s = Some i \<Longrightarrow> str_find pat (s @ t) = Some i"
proof (rule str_find_SomeI)
  assume f: "str_find pat s = Some i"
  then show "occurs_at pat (s @ t) i" using str_find_SomeD occurs_at_append_left by blast
  fix j assume "j < i"
  then have "j + length pat \<le> length s"
    using str_find_SomeD [OF f] occurs_at_length [of pat s i] by auto
  with \<open>j < i\<close> show "\<not> occurs_at pat (s @ t) j"
    using str_find_SomeD [OF f] occurs_at_append_cut by blast
qed

lemma find_char_None [str_simps]: "str_find [c] s = None \<longleftrightarrow> c \<notin> set s"
  by (induction s) auto

lemma find_char_append [str_simps]:
  "c \<notin> set x \<Longrightarrow> str_find [c] (x @ c # y) = Some (length x)"
  by (induction x) auto

lemma find_char_Some:
  assumes "str_find [c] s = Some i"
  obtains x y where "s = x @ c # y" "c \<notin> set x" "length x = i"
proof -
  have "c \<in> set s" using assms find_char_None [of c s] by (metis option.distinct(1))
  then obtain x y where "s = x @ c # y" "c \<notin> set x" by (metis split_list_first)
  with assms find_char_append that show thesis by (metis option.inject)
qed

lemmas [str_simps] = slice_from_def slice_to_def slice_def

subsection \<open>Other string operations of the standard library\<close>

definition starts_with :: "string \<Rightarrow> string \<Rightarrow> bool" where
  "starts_with s pat \<longleftrightarrow> prefix pat s"

definition ends_with :: "string \<Rightarrow> string \<Rightarrow> bool" where
  "ends_with s pat \<longleftrightarrow> suffix pat s"

definition strip_prefix :: "string \<Rightarrow> string \<Rightarrow> string option" where
  "strip_prefix s pat = (if prefix pat s then Some (drop (length pat) s) else None)"

definition strip_suffix :: "string \<Rightarrow> string \<Rightarrow> string option" where
  "strip_suffix s pat = (if suffix pat s then Some (take (length s - length pat) s) else None)"

text \<open>\<open>str::replace\<close> with a non-empty pattern: left to right, without overlaps.\<close>

function str_replace :: "string \<Rightarrow> string \<Rightarrow> string \<Rightarrow> string" where
  "str_replace pat to [] = []"
| "str_replace pat to (c # cs) =
     (if pat \<noteq> [] \<and> prefix pat (c # cs)
      then to @ str_replace pat to (drop (length pat) (c # cs))
      else c # str_replace pat to cs)"
  by pat_completeness auto
termination
  by (relation "measure (\<lambda>(pat, to, s). length s)") auto

text \<open>
  \<open>char::is_whitespace\<close> over UTF-8 bytes: the length of the white-space character the
  string starts with (the Unicode property \<open>White_Space\<close>), 0 when there is none.
\<close>

fun ws_len :: "nat list \<Rightarrow> nat" where
  "ws_len (a # b # c # _) =
     (if 9 \<le> a \<and> a \<le> 13 \<or> a = 32 then 1
      else if a = 194 \<and> (b = 133 \<or> b = 160) then 2
      else if a = 225 \<and> b = 154 \<and> c = 128 then 3
      else if a = 226 \<and> b = 128 \<and> (128 \<le> c \<and> c \<le> 138 \<or> c = 168 \<or> c = 169 \<or> c = 175) then 3
      else if a = 226 \<and> b = 129 \<and> c = 159 then 3
      else if a = 227 \<and> b = 128 \<and> c = 128 then 3
      else 0)"
| "ws_len [a, b] =
     (if 9 \<le> a \<and> a \<le> 13 \<or> a = 32 then 1
      else if a = 194 \<and> (b = 133 \<or> b = 160) then 2 else 0)"
| "ws_len [a] = (if 9 \<le> a \<and> a \<le> 13 \<or> a = 32 then 1 else 0)"
| "ws_len [] = 0"

definition ws_at :: "string \<Rightarrow> nat" where
  "ws_at s = ws_len (map of_char (take 3 s))"

text \<open>\<open>str::split_whitespace\<close>; the first argument is the word being read.\<close>

function split_ws :: "string \<Rightarrow> string \<Rightarrow> string list" where
  "split_ws w [] = (if w = [] then [] else [w])"
| "split_ws w (c # cs) =
     (if ws_at (c # cs) > 0
      then (if w = [] then [] else [w]) @ split_ws [] (drop (ws_at (c # cs)) (c # cs))
      else split_ws (w @ [c]) cs)"
  by pat_completeness auto
termination
  by (relation "measure (\<lambda>(w, s). length s)") auto

definition split_whitespace :: "string \<Rightarrow> string list" where
  "split_whitespace s = split_ws [] s"

text \<open>\<open>format!("{n}")\<close> of an unsigned integer.\<close>

fun dec_digits :: "nat \<Rightarrow> string" where
  "dec_digits n =
     (if n < 10 then [char_of (48 + n)] else dec_digits (n div 10) @ [char_of (48 + n mod 10)])"

declare dec_digits.simps [simp del]

lemma dec_digits_0: "dec_digits 0 = ''0''"
  by code_simp

text \<open>UTF-8: the encoding of a code point, and the code points of a valid byte string.\<close>

definition utf8_encode :: "nat \<Rightarrow> string" where
  "utf8_encode cp =
     map char_of
       (if cp < 128 then [cp]
        else if cp < 2048 then [192 + cp div 64, 128 + cp mod 64]
        else if cp < 65536 then [224 + cp div 4096, 128 + cp div 64 mod 64, 128 + cp mod 64]
        else [240 + cp div 262144, 128 + cp div 4096 mod 64, 128 + cp div 64 mod 64, 128 + cp mod 64])"

fun utf8_points :: "nat list \<Rightarrow> nat list" where
  "utf8_points [] = []"
| "utf8_points (a # bs) =
     (if a < 192 then a # utf8_points bs
      else if a < 224
      then (case bs of b # cs \<Rightarrow> ((a - 192) * 64 + (b - 128)) # utf8_points cs | [] \<Rightarrow> [])
      else if a < 240
      then (case bs of b # c # ds \<Rightarrow>
              ((a - 224) * 4096 + (b - 128) * 64 + (c - 128)) # utf8_points ds | _ \<Rightarrow> [])
      else (case bs of b # c # d # es \<Rightarrow>
              ((a - 240) * 262144 + (b - 128) * 4096 + (c - 128) * 64 + (d - 128)) # utf8_points es
            | _ \<Rightarrow> []))"

definition str_chars :: "string \<Rightarrow> nat list" where
  "str_chars s = utf8_points (map of_char s)"

lemma of_char_char_of_small: "n < 256 \<Longrightarrow> (of_char (char_of n) :: nat) = n"
  by simp

lemma utf8_bytes:
  fixes cp :: nat
  assumes "cp < 1114112"
  shows "map of_char (utf8_encode cp) =
     (if cp < 128 then [cp]
      else if cp < 2048 then [192 + cp div 64, 128 + cp mod 64]
      else if cp < 65536 then [224 + cp div 4096, 128 + cp div 64 mod 64, 128 + cp mod 64]
      else [240 + cp div 262144, 128 + cp div 4096 mod 64, 128 + cp div 64 mod 64, 128 + cp mod 64])"
proof -
  have m: "128 + x mod 64 < 256" for x :: nat
    using mod_less_divisor [of 64 x] by linarith
  have d: "cp < 2048 \<Longrightarrow> 192 + cp div 64 < 256" "cp < 65536 \<Longrightarrow> 224 + cp div 4096 < 256"
    "240 + cp div 262144 < 256"
    using assms by linarith+
  show ?thesis
    unfolding utf8_encode_def
    by (simp only: list.map if_distrib [of "map _"] of_char_char_of_small m d split: if_split) (simp add: m d)
qed

lemma utf8_points_encode:
  assumes "cp < 1114112"
  shows "utf8_points (map of_char (utf8_encode cp) @ bs) = cp # utf8_points bs"
proof -
  have d: "cp div 64 div 64 = cp div 4096" "cp div 4096 div 64 = cp div 262144"
    by (simp_all add: div_mult2_eq [symmetric])
  have "cp div 64 * 64 + cp mod 64 = cp" and "cp div 4096 * 64 + cp div 64 mod 64 = cp div 64"
    and "cp div 262144 * 64 + cp div 4096 mod 64 = cp div 4096"
    using div_mult_mod_eq [of cp 64] div_mult_mod_eq [of "cp div 64" 64] div_mult_mod_eq [of "cp div 4096" 64]
    unfolding d by simp_all
  then have e: "cp div 4096 * 4096 + cp div 64 mod 64 * 64 + cp mod 64 = cp"
    "cp div 262144 * 262144 + cp div 4096 mod 64 * 4096 + cp div 64 mod 64 * 64 + cp mod 64 = cp"
    "cp div 64 * 64 + cp mod 64 = cp"
    by linarith+
  have r: "cp < 65536 \<Longrightarrow> cp div 4096 < 16" "cp < 2048 \<Longrightarrow> cp div 64 < 32" by linarith+
  consider "cp < 128" | "128 \<le> cp" "cp < 2048" | "2048 \<le> cp" "cp < 65536" | "65536 \<le> cp"
    by linarith
  then show ?thesis
  proof cases
    case 2
    with e(3) show ?thesis unfolding utf8_bytes [OF assms] by (simp add: r(2))
  next
    case 3
    with e(1) show ?thesis unfolding utf8_bytes [OF assms] by (simp add: r(1))
  next
    case 4
    with e(2) show ?thesis unfolding utf8_bytes [OF assms] by simp
  qed (simp add: utf8_bytes [OF assms])
qed

lemma str_chars_encode:
  "\<forall>c \<in> set cs. c < 1114112 \<Longrightarrow> str_chars (concat (map utf8_encode cs)) = cs"
  by (induction cs) (simp_all add: str_chars_def utf8_points_encode)

lemma starts_char_encode: "cp < 1114112 \<Longrightarrow> starts_char (utf8_encode cp @ s)"
  using utf8_bytes [of cp] 
  by (cases "utf8_encode cp") (auto simp: starts_char_def is_cont_def split: if_splits)

text \<open>The characters of the formats that have no literal of their own.\<close>

abbreviation DQ :: char where "DQ \<equiv> CHR 0x22"
abbreviation SQ :: char where "SQ \<equiv> CHR 0x27"
abbreviation BSL :: char where "BSL \<equiv> CHR 0x5C"
abbreviation NL :: char where "NL \<equiv> CHR 0x0A"

end
