(* ===== verification/Usage.thy ===== *)
theory Usage
  imports Rust_Base
begin

section \<open>Usage accounting and finish reasons\<close>

text \<open>
  \<open>minicpm-generation/src/usage.rs\<close>: the reasons a generation ends with, their OpenAI
  names, and the token counts of one request. The total is a \<open>u64\<close> sum, which wraps in a
  release build.
\<close>

datatype finish_reason = Fr_Stop | Fr_Length | Fr_Cancelled | Fr_Error

fun finish_reason_as_str :: "finish_reason \<Rightarrow> string" where
  "finish_reason_as_str Fr_Stop = ''stop''"
| "finish_reason_as_str Fr_Length = ''length''"
| "finish_reason_as_str Fr_Cancelled = ''stop''"
| "finish_reason_as_str Fr_Error = ''error''"

record usage =
  us_prompt_tokens :: u64
  us_completion_tokens :: u64

definition mk_usage :: "u64 \<Rightarrow> u64 \<Rightarrow> usage" where
  "mk_usage p c = \<lparr>us_prompt_tokens = p, us_completion_tokens = c\<rparr>"

definition total_tokens :: "usage \<Rightarrow> u64" where
  "total_tokens u = us_prompt_tokens u + us_completion_tokens u"

lemma unat_total_tokens:
  "unat (us_prompt_tokens u) + unat (us_completion_tokens u) < 2 ^ 64 \<Longrightarrow>
   unat (total_tokens u) = unat (us_prompt_tokens u) + unat (us_completion_tokens u)"
  by (simp add: total_tokens_def unat_word_ariths)

end
