(* ===== verification/Stop.thy ===== *)
theory Stop
  imports Rust_Base
begin

section \<open>Stop conditions\<close>

text \<open>
  \<open>minicpm-generation/src/stop.rs\<close>: the stop-token and stop-string state machine. The
  state keeps all stable text; \<open>push_text\<close> searches only a window at its end,
  \<open>safe_len\<close> withholds the bytes a later match could still claim, \<open>stop_finish\<close> releases
  the rest. The reference definition \<open>earliest_stop\<close> searches the whole text. Operations
  that slice return an \<open>option\<close>: \<open>None\<close> is the panic of a slice inside a character.
\<close>

datatype stop_hit = Token_hit i32 | String_hit nat

record stop_state =
  stop_token_ids :: "i32 list"
  stop_strings :: "string list"
  max_pattern_len :: nat
  ss_text :: string
  ss_matched :: "nat option"
  ss_stopped :: bool

definition stop_new :: "i32 list \<Rightarrow> string list \<Rightarrow> stop_state" where
  "stop_new ids strs =
     \<lparr>stop_token_ids = ids, stop_strings = strs,
      max_pattern_len = fold max (map length strs) 0,
      ss_text = [], ss_matched = None, ss_stopped = False\<rparr>"

definition check_token :: "stop_state \<Rightarrow> i32 \<Rightarrow> stop_hit option \<times> stop_state" where
  "check_token st i =
     (if ss_stopped st then (Some (Token_hit i), st)
      else if i \<in> set (stop_token_ids st) then (Some (Token_hit i), st\<lparr>ss_stopped := True\<rparr>)
      else (None, st))"

text \<open>The loop over the stop strings, \<open>hay\<close> being the text from offset \<open>from\<close> on.\<close>

fun find_loop :: "string list \<Rightarrow> string \<Rightarrow> nat \<Rightarrow> nat option \<Rightarrow> nat option" where
  "find_loop [] hay from best = best"
| "find_loop (pat # pats) hay from best =
     (case str_find pat hay of
        None \<Rightarrow> find_loop pats hay from best
      | Some rel \<Rightarrow>
          (let a = from + rel in
           find_loop pats hay from
             (case best of None \<Rightarrow> Some a | Some b \<Rightarrow> if a < b then Some a else best)))"

definition find_match :: "stop_state \<Rightarrow> nat \<Rightarrow> nat option option" where
  "find_match st from =
     (case slice_from (ss_text st) from of
        None \<Rightarrow> None
      | Some hay \<Rightarrow> Some (find_loop (stop_strings st) hay from None))"

definition push_text :: "stop_state \<Rightarrow> string \<Rightarrow> (stop_hit option \<times> stop_state) option" where
  "push_text st fragment =
     (if ss_stopped st \<or> fragment = []
      then Some (map_option String_hit (ss_matched st), st)
      else
        let search_from = length (ss_text st) - max_pattern_len st;
            st' = st\<lparr>ss_text := ss_text st @ fragment\<rparr>
        in case find_match st' search_from of
             None \<Rightarrow> None
           | Some (Some start) \<Rightarrow>
               Some (Some (String_hit start),
                     st'\<lparr>ss_matched := Some start, ss_stopped := True\<rparr>)
           | Some None \<Rightarrow> Some (None, st'))"

definition safe_len :: "stop_state \<Rightarrow> nat" where
  "safe_len st =
     (case ss_matched st of
        Some start \<Rightarrow> start
      | None \<Rightarrow>
          (let holdback = max_pattern_len st - 1
           in floor_char_boundary (ss_text st) (length (ss_text st) - holdback)))"

definition stop_finish :: "stop_state \<Rightarrow> (nat \<times> stop_state) option" where
  "stop_finish st =
     (case ss_matched st of
        Some start \<Rightarrow> Some (start, st)
      | None \<Rightarrow>
          (case find_match st 0 of
             None \<Rightarrow> None
           | Some (Some start) \<Rightarrow>
               Some (start, st\<lparr>ss_matched := Some start, ss_stopped := True\<rparr>)
           | Some None \<Rightarrow> Some (length (ss_text st), st)))"

definition visible_text :: "stop_state \<Rightarrow> nat \<Rightarrow> string option" where
  "visible_text st n = slice_to (ss_text st) n"

text \<open>Feeding fragments one after the other, as the generation loop does.\<close>

fun stop_feed :: "stop_state \<Rightarrow> string list \<Rightarrow> stop_state option" where
  "stop_feed st [] = Some st"
| "stop_feed st (f # fs) =
     (case push_text st f of None \<Rightarrow> None | Some (_, st') \<Rightarrow> stop_feed st' fs)"

subsection \<open>The reference: the earliest stop string of a text\<close>

definition stop_at :: "string list \<Rightarrow> string \<Rightarrow> nat \<Rightarrow> bool" where
  "stop_at pats s i \<longleftrightarrow> (\<exists>p \<in> set pats. occurs_at p s i)"

definition earliest_stop :: "string list \<Rightarrow> string \<Rightarrow> nat option" where
  "earliest_stop pats s = List.find (stop_at pats s) [0..<Suc (length s)]"

lemma stop_at_le: "stop_at pats s i \<Longrightarrow> i \<le> length s"
  by (auto simp: stop_at_def occurs_at_def)

lemma earliest_stop_None: "earliest_stop pats s = None \<longleftrightarrow> (\<forall>i. \<not> stop_at pats s i)"
proof -
  have "earliest_stop pats s = None \<longleftrightarrow> (\<forall>i. i \<le> length s \<longrightarrow> \<not> stop_at pats s i)"
    by (auto simp: earliest_stop_def find_None_iff less_Suc_eq_le simp del: upt_Suc)
  then show ?thesis using stop_at_le by blast
qed

lemma earliest_stop_Some:
  "earliest_stop pats s = Some i \<longleftrightarrow> stop_at pats s i \<and> (\<forall>j<i. \<not> stop_at pats s j)"
proof
  assume "earliest_stop pats s = Some i"
  then show "stop_at pats s i \<and> (\<forall>j<i. \<not> stop_at pats s j)"
    by (auto simp: earliest_stop_def find_Some_iff nth_append simp del: upt_Suc)
next
  assume *: "stop_at pats s i \<and> (\<forall>j<i. \<not> stop_at pats s j)"
  with stop_at_le have "i \<le> length s" by blast
  with * show "earliest_stop pats s = Some i"
    by (auto simp: earliest_stop_def find_Some_iff simp del: upt_Suc intro!: exI [of _ i])
qed

text \<open>The loop computes the least offset any stop string has in its window.\<close>

definition opt_min :: "nat option \<Rightarrow> nat option \<Rightarrow> nat option" where
  "opt_min a b =
     (case a of None \<Rightarrow> b | Some x \<Rightarrow> (case b of None \<Rightarrow> a | Some y \<Rightarrow> Some (min x y)))"

lemma find_loop_best:
  "find_loop pats hay from best = opt_min best (find_loop pats hay from None)"
proof (induction pats arbitrary: best)
  case Nil
  then show ?case by (simp add: opt_min_def split: option.splits)
next
  case (Cons p ps)
  show ?case
  proof (cases "str_find p hay")
    case None
    then show ?thesis using Cons.IH [of best] by simp
  next
    case (Some r)
    let ?nb = "case best of None \<Rightarrow> Some (from + r) | Some b \<Rightarrow> if from + r < b then Some (from + r) else best"
    have "find_loop (p # ps) hay from best = opt_min ?nb (find_loop ps hay from None)"
      using Some Cons.IH [of ?nb] by (simp add: Let_def)
    moreover have "find_loop (p # ps) hay from None = opt_min (Some (from + r)) (find_loop ps hay from None)"
      using Some Cons.IH [of "Some (from + r)"] by (simp add: Let_def)
    ultimately show ?thesis by (auto simp: opt_min_def split: option.splits)
  qed
qed

lemma find_loop_None: "find_loop pats hay from None = None \<longleftrightarrow> (\<forall>i. \<not> stop_at pats hay i)"
proof (induction pats)
  case Nil
  then show ?case by (simp add: stop_at_def)
next
  case (Cons p ps)
  then show ?case
    by (cases "str_find p hay")
       (auto simp: stop_at_def str_find_None find_loop_best [of _ _ _ "Some _"] opt_min_def
             dest: str_find_SomeD split: option.splits)
qed

lemma find_loop_Some:
  "find_loop pats hay from None = Some k \<Longrightarrow>
   \<exists>i. k = from + i \<and> stop_at pats hay i \<and> (\<forall>j<i. \<not> stop_at pats hay j)"
proof (induction pats arbitrary: k)
  case Nil
  then show ?case by simp
next
  case (Cons p ps)
  show ?case
  proof (cases "str_find p hay")
    case None
    with Cons show ?thesis by (auto simp: stop_at_def str_find_None)
  next
    case (Some r)
    note r = str_find_SomeD [OF Some]
    have k: "opt_min (Some (from + r)) (find_loop ps hay from None) = Some k"
      using Cons.prems Some find_loop_best [of ps hay "from" "Some (from + r)"] by (simp add: Let_def)
    show ?thesis
    proof (cases "find_loop ps hay from None")
      case None
      with k r show ?thesis
        by (intro exI [of _ r]) (auto simp: opt_min_def find_loop_None stop_at_def)
    next
      case (Some k')
      with Cons.IH obtain i where i: "k' = from + i" "stop_at ps hay i" "\<forall>j<i. \<not> stop_at ps hay j"
        by blast
      with k r Some show ?thesis
        by (intro exI [of _ "min r i"]) (auto simp: opt_min_def stop_at_def min_def)
    qed
  qed
qed

lemma earliest_stop_find_loop: "earliest_stop pats s = find_loop pats s 0 None"
proof (cases "find_loop pats s 0 None")
  case None
  then have "\<forall>i. \<not> stop_at pats s i" by (simp only: find_loop_None not_None_eq simp_thms)
  then have "earliest_stop pats s = None" by (simp only: earliest_stop_None simp_thms)
  with None show ?thesis by simp
next
  case (Some k)
  with find_loop_Some [OF Some] show ?thesis by (simp add: earliest_stop_Some)
qed


subsection \<open>The invariant of the state\<close>

text \<open>
  The recorded pattern length is the maximum; while no string has matched, the text holds
  no stop string (the empty text aside: an empty stop string first counts when text
  arrives); a match is the earliest stop string of the text.
\<close>

definition stop_inv :: "stop_state \<Rightarrow> bool" where
  "stop_inv st \<longleftrightarrow>
     (\<forall>p \<in> set (stop_strings st). length p \<le> max_pattern_len st) \<and>
     (ss_text st \<noteq> [] \<longrightarrow> ss_matched st = earliest_stop (stop_strings st) (ss_text st)) \<and>
     (ss_text st = [] \<longrightarrow> ss_matched st = None) \<and>
     (ss_matched st \<noteq> None \<longrightarrow> ss_stopped st)"

lemma fold_max_le: "x \<le> fold max xs (x::nat)"
  by (induction xs arbitrary: x) (auto intro: order_trans [OF max.cobounded2])

lemma fold_max_member: "y \<in> set xs \<Longrightarrow> y \<le> fold max xs (x::nat)"
proof (induction xs arbitrary: x)
  case (Cons a as)
  then show ?case using fold_max_le [of "max a x" as] by auto
qed simp

lemma stop_inv_new: "stop_inv (stop_new ids strs)"
  by (auto simp: stop_inv_def stop_new_def intro: fold_max_member)

text \<open>Once earlier text holds no stop string, the window holds every new one.\<close>

lemma window_complete:
  assumes none: "s = [] \<or> earliest_stop pats s = None"
    and len: "\<forall>p \<in> set pats. length p \<le> m"
    and at: "stop_at pats (s @ t) i"
  shows "length s - m \<le> i"
proof -
  obtain p where p: "p \<in> set pats" "occurs_at p (s @ t) i"
    using at by (auto simp: stop_at_def)
  have "s = [] \<or> \<not> occurs_at p s i"
    using none p(1) by (simp only: earliest_stop_None) (auto simp: stop_at_def)
  then have "s = [] \<or> length s < i + length p"
    using occurs_at_append_cut [OF p(2)] by (auto simp: not_less)
  with len p(1) show ?thesis by fastforce
qed

lemma stop_at_drop: "n \<le> length s \<Longrightarrow> stop_at pats (drop n s) i \<longleftrightarrow> stop_at pats s (n + i)"
  by (simp add: stop_at_def occurs_at_drop)

lemma window_earliest:
  assumes none: "s = [] \<or> earliest_stop pats s = None"
    and len: "\<forall>p \<in> set pats. length p \<le> m"
  shows "find_loop pats (drop (length s - m) (s @ t)) (length s - m) None = earliest_stop pats (s @ t)"
    (is "find_loop _ ?hay ?from _ = _")
proof -
  have sh: "stop_at pats ?hay i \<longleftrightarrow> stop_at pats (s @ t) (?from + i)" for i
    by (rule stop_at_drop) (simp add: diff_le_self le_SucI trans_le_add1)
  have ge: "stop_at pats (s @ t) i \<Longrightarrow> \<exists>k. i = ?from + k" for i
    using window_complete [OF none len] le_Suc_ex by blast
  show ?thesis
  proof (cases "find_loop pats ?hay ?from None")
    case None
    then have "\<forall>i. \<not> stop_at pats (s @ t) i"
      unfolding find_loop_None sh using ge by blast
    then show ?thesis using None by (metis earliest_stop_None)
  next
    case (Some k)
    then obtain i where i: "k = ?from + i" "stop_at pats ?hay i" "\<forall>j<i. \<not> stop_at pats ?hay j"
      using find_loop_Some by blast
    have "\<not> stop_at pats (s @ t) j" if "j < k" for j
      using i(1,3) ge [of j] sh that by auto
    then have "earliest_stop pats (s @ t) = Some k"
      using i(1,2) unfolding sh earliest_stop_Some by simp
    with Some show ?thesis by simp
  qed
qed

lemma push_text_skip:
  "ss_stopped st \<or> f = [] \<Longrightarrow> push_text st f = Some (map_option String_hit (ss_matched st), st)"
  by (simp add: push_text_def)

lemma push_text_cases:
  assumes "stop_inv st" and "\<not> ss_stopped st" and "f \<noteq> []"
  shows "push_text st f =
    (if is_char_boundary (ss_text st @ f) (length (ss_text st) - max_pattern_len st)
     then (case earliest_stop (stop_strings st) (ss_text st @ f) of
             None \<Rightarrow> Some (None, st\<lparr>ss_text := ss_text st @ f\<rparr>)
           | Some i \<Rightarrow> Some (Some (String_hit i),
               st\<lparr>ss_text := ss_text st @ f, ss_matched := Some i, ss_stopped := True\<rparr>))
     else None)"
proof -
  have "ss_matched st = None"
    using assms(1,2) by (auto simp: stop_inv_def)
  with assms(1) have none: "ss_text st = [] \<or> earliest_stop (stop_strings st) (ss_text st) = None"
    by (auto simp: stop_inv_def)
  have len: "\<forall>p \<in> set (stop_strings st). length p \<le> max_pattern_len st"
    using assms(1) by (simp add: stop_inv_def)
  show ?thesis
    using assms(2,3) window_earliest [OF none len, of f]
    by (simp add: push_text_def find_match_def slice_from_def Let_def split: option.splits)
qed


lemma push_text_SomeE:
  assumes "stop_inv st" and "push_text st f = Some (h, st')"
  obtains (skip) "ss_stopped st \<or> f = []" and "st' = st" and "h = map_option String_hit (ss_matched st)"
  | (miss) "\<not> ss_stopped st" and "f \<noteq> []" and "h = None"
      and "earliest_stop (stop_strings st) (ss_text st @ f) = None"
      and "st' = st\<lparr>ss_text := ss_text st @ f\<rparr>"
  | (hit) i where "\<not> ss_stopped st" and "f \<noteq> []" and "h = Some (String_hit i)"
      and "earliest_stop (stop_strings st) (ss_text st @ f) = Some i"
      and "st' = st\<lparr>ss_text := ss_text st @ f, ss_matched := Some i, ss_stopped := True\<rparr>"
proof (cases "ss_stopped st \<or> f = []")
  case True
  from push_text_skip [OF this] assms(2) have "st' = st" "h = map_option String_hit (ss_matched st)"
    by simp_all
  with True show ?thesis by (rule skip)
next
  case False
  with assms push_text_cases [OF assms(1), of f] show ?thesis
    by (cases "earliest_stop (stop_strings st) (ss_text st @ f)")
       (auto split: if_splits intro: miss hit)
qed

lemma stop_inv_push:
  assumes "stop_inv st" and "push_text st f = Some (h, st')"
  shows "stop_inv st' \<and> stop_strings st' = stop_strings st \<and> max_pattern_len st' = max_pattern_len st"
  using assms(1) by (cases rule: push_text_SomeE [OF assms]) (auto simp: stop_inv_def)

lemma stop_feed_inv:
  "stop_inv st \<Longrightarrow> stop_feed st fs = Some st' \<Longrightarrow>
   stop_inv st' \<and> stop_strings st' = stop_strings st \<and> max_pattern_len st' = max_pattern_len st"
proof (induction fs arbitrary: st)
  case (Cons f fs)
  then obtain h st1 where st1: "push_text st f = Some (h, st1)" "stop_feed st1 fs = Some st'"
    by (auto split: option.splits)
  from stop_inv_push [OF Cons.prems(1) st1(1)] Cons.IH [OF _ st1(2)] show ?case by simp
qed simp

lemma stop_feed_stopped: "ss_stopped st \<Longrightarrow> stop_feed st fs = Some st"
  by (induction fs) (auto simp: push_text_skip)

text \<open>While the state is running it holds every fragment; a stopped run ends in a match.\<close>

lemma stop_feed_text:
  "stop_inv st \<Longrightarrow> \<not> ss_stopped st \<Longrightarrow> stop_feed st fs = Some st' \<Longrightarrow>
   (\<exists>k. ss_text st' = ss_text st @ concat (take k fs)) \<and>
   (ss_matched st' = None \<longrightarrow> \<not> ss_stopped st' \<and> ss_text st' = ss_text st @ concat fs)"
proof (induction fs arbitrary: st)
  case Nil
  then show ?case by auto
next
  case (Cons f fs)
  then obtain h st1 where st1: "push_text st f = Some (h, st1)" "stop_feed st1 fs = Some st'"
    by (auto split: option.splits)
  note inv1 = stop_inv_push [OF Cons.prems(1) st1(1)]
  show ?case
  proof (cases rule: push_text_SomeE [OF Cons.prems(1) st1(1), case_names skip miss hit])
    case skip
    with Cons.prems(2) have "f = []" by simp
    with skip Cons.IH [OF Cons.prems(1,2)] st1(2) obtain k where
      k: "ss_text st' = ss_text st @ concat (take k fs)"
         "ss_matched st' = None \<longrightarrow> \<not> ss_stopped st' \<and> ss_text st' = ss_text st @ concat fs" by auto
    with \<open>f = []\<close> show ?thesis by (auto intro: exI [of _ "Suc k"])
  next
    case miss
    then have "\<not> ss_stopped st1" by simp
    with Cons.IH [OF _ this st1(2)] inv1 obtain k where
      k: "ss_text st' = ss_text st1 @ concat (take k fs)"
         "ss_matched st' = None \<longrightarrow> \<not> ss_stopped st' \<and> ss_text st' = ss_text st1 @ concat fs" by auto
    with miss show ?thesis by (auto intro: exI [of _ "Suc k"])
  next
    case (hit i)
    with st1(2) have "st' = st1" by (simp add: stop_feed_stopped)
    with hit show ?thesis by (auto intro: exI [of _ 1])
  qed
qed

lemma stop_feed_new:
  assumes "stop_feed (stop_new ids pats) fs = Some st"
  shows "stop_inv st" and "stop_strings st = pats" and "max_pattern_len st = fold max (map length pats) 0"
    and "\<exists>k. ss_text st = concat (take k fs)"
    and "ss_matched st = None \<longrightarrow> \<not> ss_stopped st \<and> ss_text st = concat fs"
  using stop_feed_inv [OF stop_inv_new assms] stop_feed_text [OF stop_inv_new _ assms]
  by (simp_all add: stop_new_def)

subsection \<open>Safety of the window that is already shown\<close>

lemma safe_len_le: "stop_inv st \<Longrightarrow> safe_len st \<le> length (ss_text st)"
proof (cases "ss_matched st")
  case None
  then show ?thesis
    using floor_le [of "ss_text st" "length (ss_text st) - (max_pattern_len st - 1)"]
    by (simp add: safe_len_def)
next
  case (Some i)
  assume "stop_inv st"
  with Some have "earliest_stop (stop_strings st) (ss_text st) = Some i"
    by (cases "ss_text st = []") (auto simp: stop_inv_def)
  then show ?thesis using Some by (auto simp: safe_len_def earliest_stop_Some dest: stop_at_le)
qed

lemma safe_before_match:
  assumes none: "s = [] \<or> earliest_stop pats s = None"
    and len: "\<forall>p \<in> set pats. length p \<le> m"
    and at: "stop_at pats (s @ t) i"
  shows "length s - (m - 1) \<le> i"
proof -
  obtain p where p: "p \<in> set pats" "occurs_at p (s @ t) i"
    using at by (auto simp: stop_at_def)
  have "s = [] \<or> \<not> occurs_at p s i"
    using none p(1) by (simp only: earliest_stop_None) (auto simp: stop_at_def)
  then have "s = [] \<or> length s < i + length p"
    using occurs_at_append_cut [OF p(2)] by (auto simp: not_less)
  moreover have "length p \<le> m" using len p(1) by blast
  ultimately show ?thesis by auto
qed

lemma safe_len_mono_push:
  assumes inv: "stop_inv st" and push: "push_text st f = Some (h, st')" and "starts_char f"
  shows "safe_len st \<le> safe_len st' \<and> take (safe_len st) (ss_text st') = take (safe_len st) (ss_text st)"
proof (cases rule: push_text_SomeE [OF inv push, case_names skip miss hit])
  case miss
  from miss(1) inv have none: "ss_matched st = None" by (auto simp: stop_inv_def)
  let ?c = "length (ss_text st) - (max_pattern_len st - 1)"
  have b: "is_char_boundary (ss_text st @ f) (floor_char_boundary (ss_text st) ?c)"
    by (rule boundary_append [OF assms(3) floor_boundary])
  have "floor_char_boundary (ss_text st) ?c \<le> length (ss_text st @ f) - (max_pattern_len st - 1)"
    using floor_le [of "ss_text st" ?c] by simp
  from floor_greatest [OF b this] miss none safe_len_le [OF inv] show ?thesis
    by (simp add: safe_len_def)
next
  case (hit i)
  from hit(1) inv have none: "ss_matched st = None" by (auto simp: stop_inv_def)
  with inv have "ss_text st = [] \<or> earliest_stop (stop_strings st) (ss_text st) = None"
    by (auto simp: stop_inv_def)
  moreover have "stop_at (stop_strings st) (ss_text st @ f) i"
    using hit(4) by (simp add: earliest_stop_Some)
  ultimately have "length (ss_text st) - (max_pattern_len st - 1) \<le> i"
    using inv safe_before_match by (simp add: stop_inv_def)
  with floor_le [of "ss_text st" "length (ss_text st) - (max_pattern_len st - 1)"]
  have "safe_len st \<le> i" using none by (simp add: safe_len_def)
  with hit safe_len_le [OF inv] show ?thesis by (simp add: safe_len_def)
qed simp

lemma safe_len_mono_feed:
  "stop_inv st \<Longrightarrow> stop_feed st fs = Some st' \<Longrightarrow> \<forall>f \<in> set fs. starts_char f \<Longrightarrow>
   safe_len st \<le> safe_len st' \<and> take (safe_len st) (ss_text st') = take (safe_len st) (ss_text st)"
proof (induction fs arbitrary: st)
  case (Cons f fs)
  then obtain h st1 where st1: "push_text st f = Some (h, st1)" "stop_feed st1 fs = Some st'"
    by (auto split: option.splits)
  have one: "safe_len st \<le> safe_len st1" "take (safe_len st) (ss_text st1) = take (safe_len st) (ss_text st)"
    using safe_len_mono_push [OF Cons.prems(1) st1(1)] Cons.prems(3) by auto
  have rest: "safe_len st1 \<le> safe_len st'" "take (safe_len st1) (ss_text st') = take (safe_len st1) (ss_text st1)"
    using Cons.IH [OF _ st1(2)] stop_inv_push [OF Cons.prems(1) st1(1)] Cons.prems(3) by auto
  then have "take (safe_len st) (ss_text st') = take (safe_len st) (ss_text st1)"
    using one(1) by (metis min.absorb1 take_take)
  with one rest show ?case by simp
qed simp


subsection \<open>Offsets are character boundaries\<close>

lemma earliest_boundary:
  assumes "earliest_stop pats s = Some i" and "\<forall>p \<in> set pats. starts_char p"
  shows "is_char_boundary s i"
proof -
  obtain p where p: "p \<in> set pats" "occurs_at p s i" and first: "\<forall>j<i. \<not> stop_at pats s j"
    using assms(1) by (auto simp: earliest_stop_Some stop_at_def)
  show ?thesis
  proof (cases p)
    case Nil
    with p(1) have "stop_at pats s 0" by (auto simp: stop_at_def intro!: bexI [of _ "[]"])
    with first have "i = 0" by auto
    then show ?thesis by simp
  next
    case (Cons c cs)
    with p obtain ds where "drop i s = c # ds" and "i \<le> length s"
      by (cases "drop i s") (auto simp: occurs_at_def)
    moreover have "\<not> is_cont c" using assms(2) p(1) Cons by (auto simp: starts_char_def)
    ultimately show ?thesis by (cases "i = 0") (simp_all add: boundary_drop starts_char_def)
  qed
qed

lemma stop_inv_matched_text:
  "stop_inv st \<Longrightarrow> ss_matched st = Some i \<Longrightarrow> earliest_stop (stop_strings st) (ss_text st) = Some i"
  by (cases "ss_text st = []") (auto simp: stop_inv_def)

lemma safe_len_boundary:
  "stop_inv st \<Longrightarrow> \<forall>p \<in> set (stop_strings st). starts_char p \<Longrightarrow> is_char_boundary (ss_text st) (safe_len st)"
  by (cases "ss_matched st")
     (auto simp: safe_len_def floor_boundary intro: earliest_boundary stop_inv_matched_text)

lemma find_match_0: "find_match st 0 = Some (earliest_stop (stop_strings st) (ss_text st))"
  by (simp add: find_match_def slice_from_def earliest_stop_find_loop)

lemma stop_finish_eq:
  assumes "stop_inv st"
  obtains st' where "stop_finish st =
      Some (case earliest_stop (stop_strings st) (ss_text st) of Some i \<Rightarrow> i | None \<Rightarrow> length (ss_text st), st')"
    and "ss_text st' = ss_text st"
  using stop_inv_matched_text [OF assms] that
  by (cases "ss_matched st"; cases "earliest_stop (stop_strings st) (ss_text st)")
     (auto simp: stop_finish_def find_match_0)

lemma no_stop_before_earliest:
  assumes "earliest_stop pats s = Some i" and "p \<in> set pats" and "p \<noteq> []"
  shows "\<not> occurs_at p (take i s) j"
proof
  assume o: "occurs_at p (take i s) j"
  then have "occurs_at p s j" using occurs_at_append_left [of p "take i s" j "drop i s"] by simp
  moreover have "j < i" using occurs_at_length [OF o] assms(3) by (cases p) auto
  ultimately show False using assms(1,2) by (auto simp: earliest_stop_Some stop_at_def)
qed

subsection \<open>Properties\<close>

text \<open>C1: whatever the fragmentation, the windowed search of \<open>push_text\<close> finds exactly the
  earliest stop string of the text fed so far: the state's match is the reference result
  on its text, and while there is none the text is everything fed.\<close>

theorem stop_matches_reference:
  assumes "stop_feed (stop_new ids pats) fs = Some st" and "ss_text st \<noteq> []"
  shows "ss_matched st = earliest_stop pats (ss_text st) \<and>
    (\<exists>k. ss_text st = concat (take k fs)) \<and>
    (ss_matched st = None \<longrightarrow> ss_text st = concat fs)"
  using stop_feed_new [OF assms(1)] assms(2) by (auto simp: stop_inv_def)

theorem stop_matches_reference_witness:
  "\<exists>st. stop_feed (stop_new [] [''</answer>'']) [''the answer is </ans'', ''wer> done''] = Some st \<and>
    ss_matched st = earliest_stop [''</answer>''] (ss_text st) \<and> ss_matched st = Some 14"
proof -
  obtain st where st: "stop_feed (stop_new [] [''</answer>'']) [''the answer is </ans'', ''wer> done''] = Some st"
    and m: "ss_matched st = Some 14" and t: "ss_text st \<noteq> []"
    by (simp add: stop_new_def push_text_def find_match_def slice_from_def is_char_boundary_def is_cont_def Let_def)
  from stop_matches_reference [OF st t] st m show ?thesis by auto
qed

text \<open>C21: bytes once released to the client are never retracted. However generation goes on,
  the safe length only grows and the text below it stays, so no byte of a stop string that
  completes later has been shown.\<close>

theorem safe_len_never_retracts:
  assumes "stop_feed (stop_new ids pats) fs = Some st" and "stop_feed st later = Some st'"
    and "\<forall>f \<in> set later. starts_char f"
  shows "safe_len st \<le> safe_len st' \<and>
    take (safe_len st) (ss_text st') = take (safe_len st) (ss_text st)"
  using safe_len_mono_feed [OF stop_feed_new(1) [OF assms(1)] assms(2,3)] .

theorem safe_len_never_retracts_witness:
  "\<exists>st st'. stop_feed (stop_new [] [''STOP'']) [''hello ''] = Some st \<and>
     stop_feed st [''wST'', ''OPx''] = Some st' \<and> safe_len st = 3 \<and> safe_len st' = 7 \<and>
     safe_len st \<le> safe_len st' \<and>
     take (safe_len st) (ss_text st') = take (safe_len st) (ss_text st)"
proof -
  obtain st where st: "stop_feed (stop_new [] [''STOP'']) [''hello ''] = Some st" and "safe_len st = 3"
    and st_def: "st = \<lparr>stop_token_ids = [], stop_strings = [''STOP''], max_pattern_len = 4,
      ss_text = ''hello '', ss_matched = None, ss_stopped = False\<rparr>"
    by (simp add: stop_new_def push_text_def find_match_def slice_from_def is_char_boundary_def is_cont_def
          safe_len_def Let_def eval_nat_numeral)
  obtain st' where st': "stop_feed st [''wST'', ''OPx''] = Some st'" and "safe_len st' = 7"
    by (simp add: st_def push_text_def find_match_def slice_from_def is_char_boundary_def is_cont_def
          safe_len_def Let_def eval_nat_numeral)
  have sc: "\<forall>f \<in> set [''wST'', ''OPx'']. starts_char f" by (simp add: starts_char_def is_cont_def)
  from safe_len_never_retracts [OF st st' sc] st st' \<open>safe_len st = 3\<close> \<open>safe_len st' = 7\<close>
  show ?thesis by blast
qed

text \<open>At the end of generation the visible text is the text up to its earliest stop string
  (all of it when there is none), the slice never panics for stop strings that are valid
  UTF-8, and no non-empty stop string occurs in what the client sees.\<close>

theorem stop_finish_truncates:
  assumes "stop_feed (stop_new ids pats) fs = Some st" and "\<forall>p \<in> set pats. starts_char p"
  shows "\<exists>n st' vis. stop_finish st = Some (n, st') \<and> visible_text st' n = Some vis \<and>
    vis = (case earliest_stop pats (ss_text st) of Some i \<Rightarrow> take i (ss_text st) | None \<Rightarrow> ss_text st) \<and>
    (\<forall>p \<in> set pats. p \<noteq> [] \<longrightarrow> (\<forall>j. \<not> occurs_at p vis j))"
proof -
  note new = stop_feed_new [OF assms(1)]
  obtain st' where fin: "stop_finish st = Some (case earliest_stop pats (ss_text st) of
      Some i \<Rightarrow> i | None \<Rightarrow> length (ss_text st), st')" and tx: "ss_text st' = ss_text st"
    using stop_finish_eq [OF new(1)] new(2) by metis
  show ?thesis
  proof (cases "earliest_stop pats (ss_text st)")
    case None
    then have "\<forall>p \<in> set pats. \<forall>j. \<not> occurs_at p (ss_text st) j"
      unfolding earliest_stop_None stop_at_def by blast
    with None fin tx show ?thesis by (simp add: visible_text_def slice_to_def)
  next
    case (Some i)
    with fin tx earliest_boundary [OF Some assms(2)] no_stop_before_earliest [OF Some]
    show ?thesis by (simp add: visible_text_def slice_to_def)
  qed
qed

theorem stop_finish_truncates_witness:
  "\<exists>st n st' vis. stop_feed (stop_new [] [''bbbb'', ''ab'']) [''xxabbbbq''] = Some st \<and>
     stop_finish st = Some (n, st') \<and> visible_text st' n = Some vis \<and> vis = ''xx'' \<and>
     (\<forall>p \<in> set [''bbbb'', ''ab'']. p \<noteq> [] \<longrightarrow> (\<forall>j. \<not> occurs_at p vis j))"
proof -
  obtain st where st: "stop_feed (stop_new [] [''bbbb'', ''ab'']) [''xxabbbbq''] = Some st"
    and t: "ss_text st = ''xxabbbbq''"
    by (simp add: stop_new_def push_text_def find_match_def slice_from_def is_char_boundary_def Let_def)
  have sc: "\<forall>p \<in> set [''bbbb'', ''ab'']. starts_char p" by (simp add: starts_char_def is_cont_def)
  have "earliest_stop [''bbbb'', ''ab''] ''xxabbbbq'' = Some 2"
    by (simp add: earliest_stop_find_loop Let_def)
  with stop_finish_truncates [OF st sc] st t show ?thesis by auto
qed

text \<open>C4: the exact condition under which feeding a fragment panics. The window starts at
  \<open>text.len() - max_pattern_len\<close>, which need not be a character boundary, and slicing there
  panics: a running state and multi-byte text are enough.\<close>

theorem push_text_panics_iff:
  assumes "stop_feed (stop_new ids pats) fs = Some st"
  shows "push_text st f = None \<longleftrightarrow>
    \<not> ss_stopped st \<and> f \<noteq> [] \<and>
    \<not> is_char_boundary (ss_text st @ f) (length (ss_text st) - max_pattern_len st)"
proof (cases "ss_stopped st \<or> f = []")
  case True
  then show ?thesis by (auto simp: push_text_skip)
next
  case False
  with push_text_cases [OF stop_feed_new(1) [OF assms], of f] show ?thesis
    by (auto split: option.splits)
qed

theorem push_text_panics_iff_witness:
  "\<exists>st. stop_feed (stop_new [] [''ab'']) [[CHR 0xE4, CHR 0xBD, CHR 0xA0]] = Some st \<and>
     push_text st ''x'' = None"
proof -
  obtain st where st: "stop_feed (stop_new [] [''ab'']) [[CHR 0xE4, CHR 0xBD, CHR 0xA0]] = Some st"
    and c: "\<not> ss_stopped st" "max_pattern_len st = 2" "ss_text st = [CHR 0xE4, CHR 0xBD, CHR 0xA0]"
    by (simp add: stop_new_def push_text_def find_match_def slice_from_def is_char_boundary_def Let_def)
  have "push_text st ''x'' = None \<longleftrightarrow> True"
    using push_text_panics_iff [OF st, of "''x''"] c
    by (simp add: is_char_boundary_def is_cont_def)
  with st show ?thesis by auto
qed

end
