(* ===== verification/Stream_Decode.thy ===== *)
theory Stream_Decode
  imports Rust_Base
begin

section \<open>Incremental detokenization\<close>

text \<open>
  \<open>minicpm-generation/src/stream_decode.rs\<close>: after every token the whole id window is
  decoded again and the part not yet handed out is the delta; a trailing U+FFFD is held
  back, since the next token may complete it. The tokenizer is code outside the repository:
  the parameter \<open>dec\<close>, a decode error being an \<open>Inl\<close>. The outer \<open>option\<close> is the panic of
  the slice \<open>text[emitted..end]\<close>.
\<close>

type_synonym decode_fn = "u32 list \<Rightarrow> string + string"

record stream_decoder =
  sd_ids :: "u32 list"
  sd_emitted :: nat
  sd_tail_withheld :: bool

abbreviation replacement_char :: string where
  "replacement_char \<equiv> [CHR 0xEF, CHR 0xBF, CHR 0xBD]"

definition sd_new :: stream_decoder where
  "sd_new = \<lparr>sd_ids = [], sd_emitted = 0, sd_tail_withheld = False\<rparr>"

text \<open>The loop \<open>while end > emitted && !text.is_char_boundary(end) { end -= 1 }\<close>.\<close>

fun retreat :: "string \<Rightarrow> nat \<Rightarrow> nat \<Rightarrow> nat" where
  "retreat txt emitted 0 = 0"
| "retreat txt emitted (Suc k) =
     (if emitted < Suc k \<and> \<not> is_char_boundary txt (Suc k) then retreat txt emitted k else Suc k)"

definition take_delta :: "stream_decoder \<Rightarrow> string \<Rightarrow> (string option \<times> stream_decoder) option" where
  "take_delta sd txt =
     (let e0 = length txt;
          e1 = (if sd_tail_withheld sd then e0 - length replacement_char else e0);
          e = retreat txt (sd_emitted sd) e1
      in if e \<le> sd_emitted sd then Some (None, sd)
         else case slice txt (sd_emitted sd) e of
                None \<Rightarrow> None
              | Some delta \<Rightarrow> Some (Some delta, sd\<lparr>sd_emitted := e\<rparr>))"

definition sync_emission :: "stream_decoder \<Rightarrow> string \<Rightarrow> stream_decoder" where
  "sync_emission sd txt = sd\<lparr>sd_tail_withheld := ends_with txt replacement_char\<rparr>"

definition sd_push ::
  "stream_decoder \<Rightarrow> u32 \<Rightarrow> decode_fn \<Rightarrow> ((string + string option) \<times> stream_decoder) option" where
  "sd_push sd i dec =
     (let sd1 = sd\<lparr>sd_ids := sd_ids sd @ [i]\<rparr> in
      case dec (sd_ids sd1) of
        Inl e \<Rightarrow> Some (Inl e, sd1)
      | Inr txt \<Rightarrow>
          map_option (\<lambda>(d, sd2). (Inr d, sd2)) (take_delta (sync_emission sd1 txt) txt))"

definition sd_finish ::
  "stream_decoder \<Rightarrow> decode_fn \<Rightarrow> ((string + string option) \<times> stream_decoder) option" where
  "sd_finish sd dec =
     (case dec (sd_ids sd) of
        Inl e \<Rightarrow> Some (Inl e, sd)
      | Inr txt \<Rightarrow>
          map_option (\<lambda>(d, sd2). (Inr d, sd2)) (take_delta (sd\<lparr>sd_tail_withheld := False\<rparr>) txt))"

definition token_count :: "stream_decoder \<Rightarrow> nat" where
  "token_count sd = length (sd_ids sd)"

text \<open>A whole stream: the text handed out, \<open>None\<close> when a call panics or fails.\<close>

definition delta_text :: "string option \<Rightarrow> string" where
  "delta_text d = (case d of None \<Rightarrow> [] | Some s \<Rightarrow> s)"

fun sd_feed :: "decode_fn \<Rightarrow> stream_decoder \<Rightarrow> u32 list \<Rightarrow> (string \<times> stream_decoder) option" where
  "sd_feed dec sd [] = Some ([], sd)"
| "sd_feed dec sd (i # ids) =
     (case sd_push sd i dec of
        Some (Inr d, sd1) \<Rightarrow>
          map_option (\<lambda>(s, sd2). (delta_text d @ s, sd2)) (sd_feed dec sd1 ids)
      | _ \<Rightarrow> None)"

definition sd_stream :: "decode_fn \<Rightarrow> u32 list \<Rightarrow> string option" where
  "sd_stream dec ids =
     (case sd_feed dec sd_new ids of
        None \<Rightarrow> None
      | Some (s, sd) \<Rightarrow>
          (case sd_finish sd dec of
             Some (Inr d, _) \<Rightarrow> Some (s @ delta_text d)
           | _ \<Rightarrow> None))"

subsection \<open>The loop and the slice\<close>

lemma retreat_le: "retreat s em k \<le> k"
  by (induction s em k rule: retreat.induct) auto

lemma retreat_boundary: "is_char_boundary txt k \<Longrightarrow> retreat txt em k = k"
  by (cases k) auto

text \<open>A trailing replacement character starts at a boundary, so the loop never runs.\<close>

lemma starts_char_replacement: "starts_char (replacement_char @ s)"
  by (simp add: starts_char_def is_cont_def)

lemma held_boundary:
  "ends_with txt replacement_char \<Longrightarrow>
   is_char_boundary txt (length txt - length replacement_char)"
  using boundary_append_length [of replacement_char]
  by (auto simp: ends_with_def suffix_def starts_char_def is_cont_def)

text \<open>The text a decoder has to hand out after a decode: all but a trailing U+FFFD.\<close>

definition held :: "string \<Rightarrow> string" where
  "held txt = (if ends_with txt replacement_char then take (length txt - 3) txt else txt)"

lemma held_append:
  obtains w where "txt = held txt @ w" "starts_char w" "w = [] \<or> w = replacement_char"
  by (cases "ends_with txt replacement_char")
     (auto simp: held_def ends_with_def suffix_def starts_char_def is_cont_def)

lemma held_end:
  "(if ends_with txt replacement_char then length txt - 3 else length txt) = length (held txt)"
  by (simp add: held_def)

text \<open>One delta, when the text handed out so far is a prefix of the new text.\<close>

lemma take_delta_extend:
  assumes t: "txt = P @ r" "starts_char r" "length P = sd_emitted sd"
    and e: "is_char_boundary txt e"
      "e = (if sd_tail_withheld sd then length txt - 3 else length txt)"
  shows "take_delta sd txt =
    (if e \<le> length P then Some (None, sd)
     else Some (Some (drop (length P) (take e txt)), sd\<lparr>sd_emitted := e\<rparr>))"
proof -
  have "is_char_boundary txt (length P)"
    using t(1,2) boundary_append_length by simp
  then show ?thesis
    using e t(3) by (auto simp: take_delta_def Let_def retreat_boundary slice_def numeral_3_eq_3)
qed

subsection \<open>Decoders that only ever revise a trailing replacement character\<close>

text \<open>
  The contract the stream decoder needs of the tokenizer: decoding never fails, its text is
  valid UTF-8 (it starts with a character), and appending ids keeps the text decoded before,
  a trailing U+FFFD aside.
\<close>

locale prefix_stable_decoder =
  fixes dec :: decode_fn
  assumes total: "\<exists>txt. dec ids = Inr txt"
    and valid: "dec ids = Inr txt \<Longrightarrow> starts_char txt"
    and stable: "dec a = Inr s \<Longrightarrow> dec (a @ b) = Inr t \<Longrightarrow> \<exists>r. t = held s @ r \<and> starts_char r"
begin

definition stream_inv :: "u32 list \<Rightarrow> string \<Rightarrow> stream_decoder \<Rightarrow> bool" where
  "stream_inv ids P sd \<longleftrightarrow>
     sd_ids sd = ids \<and> sd_emitted sd = length P \<and>
     (\<forall>b t. dec (ids @ b) = Inr t \<longrightarrow> (\<exists>r. t = P @ r \<and> starts_char r)) \<and>
     (\<forall>t. ids \<noteq> [] \<and> dec ids = Inr t \<longrightarrow> length (held t) \<le> length P)"

lemma stream_inv_new: "stream_inv [] [] sd_new"
  using valid by (simp add: stream_inv_def sd_new_def)

lemma push_inv:
  assumes inv: "stream_inv ids P sd"
  obtains d sd' where "sd_push sd i dec = Some (Inr d, sd')"
    and "stream_inv (ids @ [i]) (P @ delta_text d) sd'"
proof -
  from total obtain t where t: "dec (ids @ [i]) = Inr t" by blast
  from inv t obtain r where r: "t = P @ r" "starts_char r" by (auto simp: stream_inv_def)
  obtain w where w: "t = held t @ w" "starts_char w" by (rule held_append [of t])
  let ?sd = "sync_emission (sd\<lparr>sd_ids := ids @ [i]\<rparr>) t"
  have "is_char_boundary t (length (held t))"
    using boundary_append_length [OF w(2), of "held t"] w(1) by simp
  then have td: "take_delta ?sd t =
      (if length (held t) \<le> length P then Some (None, ?sd)
       else Some (Some (drop (length P) (take (length (held t)) t)), ?sd\<lparr>sd_emitted := length (held t)\<rparr>))"
    by (intro take_delta_extend [OF r])
       (use inv in \<open>auto simp: stream_inv_def sync_emission_def held_end\<close>)
  have push: "sd_push sd i dec = map_option (\<lambda>(d, sd2). (Inr d, sd2)) (take_delta ?sd t)"
    using inv t by (simp add: sd_push_def stream_inv_def)
  show thesis
  proof (cases "length (held t) \<le> length P")
    case True
    moreover have "stream_inv (ids @ [i]) P ?sd"
      using inv t True by (auto simp: stream_inv_def sync_emission_def)
    ultimately show thesis using that push td by (simp add: delta_text_def)
  next
    case False
    have "P @ drop (length P) (take (length (held t)) t) = held t"
      using False r(1) w(1)
      by (metis append_eq_conv_conj append_take_drop_id nle_le take_all take_append take_take min_def)
    moreover have "stream_inv (ids @ [i]) (held t) (?sd\<lparr>sd_emitted := length (held t)\<rparr>)"
      using t stable [OF t] by (auto simp: stream_inv_def sync_emission_def)
    ultimately show thesis using that push td False by (simp add: delta_text_def)
  qed
qed

lemma feed_inv:
  "stream_inv ids P sd \<Longrightarrow>
   \<exists>s sd'. sd_feed dec sd more_ids = Some (s, sd') \<and> stream_inv (ids @ more_ids) (P @ s) sd'"
proof (induction more_ids arbitrary: ids P sd)
  case Nil
  then show ?case by simp
next
  case (Cons i rest)
  from push_inv [OF Cons.prems, of i] obtain d sd1
    where p: "sd_push sd i dec = Some (Inr d, sd1)" "stream_inv (ids @ [i]) (P @ delta_text d) sd1"
    by blast
  from Cons.IH [OF p(2)] p(1) show ?case by fastforce
qed

lemma feed_new:
  obtains s sd where "sd_feed dec sd_new ids = Some (s, sd)" "stream_inv ids s sd"
  using feed_inv [OF stream_inv_new, of ids] by auto

lemma finish_all:
  assumes inv: "stream_inv ids P sd" and t: "dec ids = Inr t"
  obtains d sd' where "sd_finish sd dec = Some (Inr d, sd')" "P @ delta_text d = t"
proof -
  from inv t have "\<exists>r. t = P @ r \<and> starts_char r"
    unfolding stream_inv_def by (metis append_Nil2)
  then obtain r where r: "t = P @ r" "starts_char r" by blast
  have "take_delta (sd\<lparr>sd_tail_withheld := False\<rparr>) t =
      (if length t \<le> length P then Some (None, sd\<lparr>sd_tail_withheld := False\<rparr>)
       else Some (Some (drop (length P) (take (length t) t)),
                  sd\<lparr>sd_tail_withheld := False, sd_emitted := length t\<rparr>))"
    by (subst take_delta_extend [OF r]) (use inv in \<open>simp_all add: stream_inv_def\<close>)
  then show thesis
    using that inv t r(1) by (cases "r = []") (auto simp: sd_finish_def stream_inv_def delta_text_def)
qed

lemma stream_all: "dec ids = Inr t \<Longrightarrow> sd_stream dec ids = Some t"
  by (rule feed_new [of ids]) (auto simp: sd_stream_def elim: finish_all)

lemma feed_prompt:
  "dec ids = Inr t \<Longrightarrow> ids \<noteq> [] \<Longrightarrow>
   \<exists>s sd. sd_feed dec sd_new ids = Some (s, sd) \<and> prefix s t \<and> length (held t) \<le> length s"
  using feed_new [of ids] unfolding stream_inv_def by (metis append_Nil2 prefixI)

end

end
