(* ===== verification/Json.thy ===== *)
theory Json
  imports Rust_Base
begin

section \<open>JSON values\<close>

text \<open>
  \<open>serde_json::Value\<close> as the crates use it: an object keeps the insertion order of its
  members (the \<open>preserve_order\<close> feature) and holds each key once. Printing and parsing are
  code outside the repository: they are the parameters \<open>ser\<close> (\<open>Value::to_string\<close>) and
  \<open>quote\<close> (\<open>to_string\<close> of a string) of the definitions that use them. What the code relies
  on about \<open>quote\<close> is the locale \<open>json_quoting\<close>, instantiated by the escaping of RFC 8259.
\<close>

datatype json_number = N_PosInt u64 | N_NegInt "64 word" | N_Float u64

datatype json =
    JNull
  | JBool bool
  | JNum json_number
  | JStr string
  | JArr "json list"
  | JObj "(string \<times> json) list"

abbreviation jnat :: "u64 \<Rightarrow> json" where
  "jnat n \<equiv> JNum (N_PosInt n)"

text \<open>\<open>Map::insert\<close>: a known key keeps its place, a new one goes to the end.\<close>

fun obj_insert :: "(string \<times> 'v) list \<Rightarrow> string \<Rightarrow> 'v \<Rightarrow> (string \<times> 'v) list" where
  "obj_insert [] k v = [(k, v)]"
| "obj_insert ((k', v') # xs) k v =
     (if k' = k then (k, v) # xs else (k', v') # obj_insert xs k v)"

lemma map_of_obj_insert: "map_of (obj_insert xs k v) = (map_of xs)(k \<mapsto> v)"
  by (induction xs k v rule: obj_insert.induct) (auto simp: fun_upd_twist)

lemma keys_obj_insert:
  "map fst (obj_insert xs k v) = (if k \<in> fst ` set xs then map fst xs else map fst xs @ [k])"
  by (induction xs k v rule: obj_insert.induct) auto

lemma distinct_obj_insert: "distinct (map fst xs) \<Longrightarrow> distinct (map fst (obj_insert xs k v))"
  by (auto simp: keys_obj_insert)

text \<open>\<open>Value::get\<close> and the accessors.\<close>

fun json_get :: "json \<Rightarrow> string \<Rightarrow> json option" where
  "json_get (JObj xs) k = map_of xs k"
| "json_get _ k = None"

fun as_str :: "json \<Rightarrow> string option" where
  "as_str (JStr s) = Some s"
| "as_str _ = None"

fun as_bool :: "json \<Rightarrow> bool option" where
  "as_bool (JBool b) = Some b"
| "as_bool _ = None"

fun as_array :: "json \<Rightarrow> json list option" where
  "as_array (JArr xs) = Some xs"
| "as_array _ = None"

fun as_u64 :: "json \<Rightarrow> u64 option" where
  "as_u64 (JNum (N_PosInt n)) = Some n"
| "as_u64 _ = None"

fun is_jnull :: "json \<Rightarrow> bool" where
  "is_jnull JNull = True"
| "is_jnull _ = False"

text \<open>\<open>v.get(k).and_then(Value::as_str)\<close> and \<open>unwrap_or("")\<close>.\<close>

definition get_str :: "json \<Rightarrow> string \<Rightarrow> string option" where
  "get_str j k = Option.bind (json_get j k) as_str"

definition str_or :: "string \<Rightarrow> string option \<Rightarrow> string" where
  "str_or d s = (case s of None \<Rightarrow> d | Some x \<Rightarrow> x)"

fun is_object :: "json \<Rightarrow> bool" where
  "is_object (JObj _) = True"
| "is_object _ = False"

subsection \<open>Quoting a string\<close>

text \<open>
  What the argument streaming relies on: a quoted string is its escaped body between two
  double quotes, and the body is escaped piecewise.
\<close>

locale json_quoting =
  fixes quote :: "string \<Rightarrow> string"
    and body :: "string \<Rightarrow> string"
  assumes quote_body: "quote s = DQ # body s @ [DQ]"
    and body_append: "body (s @ t) = body s @ body t"
begin

lemma body_Nil: "body [] = []"
  using body_append [of "[]" "[]"] by simp

lemma body_concat: "body (concat ss) = concat (map body ss)"
  by (induction ss) (simp_all add: body_Nil body_append)

lemma quote_concat: "quote (concat ss) = DQ # concat (map body ss) @ [DQ]"
  by (simp add: quote_body body_concat)

end

text \<open>RFC 8259, section 7, with the short escapes and lower-case \<open>\u00xx\<close> for the rest.\<close>

definition hex_digit :: "nat \<Rightarrow> char" where
  "hex_digit n = char_of (if n < 10 then 48 + n else 87 + n)"

definition rfc_escape_char :: "char \<Rightarrow> string" where
  "rfc_escape_char c =
     (let n = of_char c :: nat in
      if c = DQ then [BSL, DQ]
      else if c = BSL then [BSL, BSL]
      else if n = 8 then [BSL, CHR ''b'']
      else if n = 9 then [BSL, CHR ''t'']
      else if n = 10 then [BSL, CHR ''n'']
      else if n = 12 then [BSL, CHR ''f'']
      else if n = 13 then [BSL, CHR ''r'']
      else if n < 32 then BSL # ''u00'' @ [hex_digit (n div 16), hex_digit (n mod 16)]
      else [c])"

definition rfc_body :: "string \<Rightarrow> string" where
  "rfc_body s = concat (map rfc_escape_char s)"

definition rfc_quote :: "string \<Rightarrow> string" where
  "rfc_quote s = DQ # rfc_body s @ [DQ]"

interpretation rfc: json_quoting rfc_quote rfc_body
  by unfold_locales (simp_all add: rfc_quote_def rfc_body_def)

text \<open>A compact printer over this quoting, used to instantiate the parameter \<open>ser\<close>; how
  a floating-point number is printed is left to \<open>fl\<close>.\<close>

definition join_with :: "string \<Rightarrow> string list \<Rightarrow> string" where
  "join_with sep xs = (case xs of [] \<Rightarrow> [] | x # ys \<Rightarrow> x @ concat (map (\<lambda>y. sep @ y) ys))"

fun rfc_ser :: "(u64 \<Rightarrow> string) \<Rightarrow> json \<Rightarrow> string" where
  "rfc_ser fl JNull = ''null''"
| "rfc_ser fl (JBool b) = (if b then ''true'' else ''false'')"
| "rfc_ser fl (JNum (N_PosInt n)) = dec_digits (unat n)"
| "rfc_ser fl (JNum (N_NegInt n)) = ''-'' @ dec_digits (unat (- n))"
| "rfc_ser fl (JNum (N_Float b)) = fl b"
| "rfc_ser fl (JStr s) = rfc_quote s"
| "rfc_ser fl (JArr xs) = ''['' @ join_with '','' (map (rfc_ser fl) xs) @ '']''"
| "rfc_ser fl (JObj xs) =
     ''{'' @ join_with '','' (map (\<lambda>(k, v). rfc_quote k @ '':'' @ rfc_ser fl v) xs) @ ''}''"

text \<open>The printer writes no line break.\<close>

lemma hex_digit_line: "n < 16 \<Longrightarrow> hex_digit n \<noteq> NL"
proof -
  assume "n < 16"
  then have "n \<in> set [0..<16]" by simp
  moreover have "\<forall>k \<in> set [0..<16]. hex_digit k \<noteq> NL" by code_simp
  ultimately show ?thesis by blast
qed

lemma rfc_escape_line: "NL \<notin> set (rfc_escape_char c)"
proof -
  have d: "of_char c < (32 :: nat) \<Longrightarrow> of_char c div 16 < (16 :: nat)" by simp
  have m: "of_char c mod 16 < (16 :: nat)" by simp
  have n: "c = NL \<Longrightarrow> of_char c = (10 :: nat)" by simp
  from hex_digit_line [OF m] hex_digit_line [OF d] n show ?thesis
    by (auto simp: rfc_escape_char_def Let_def)
qed

lemma rfc_quote_line: "NL \<notin> set (rfc_quote s)"
  using rfc_escape_line by (auto simp: rfc_quote_def rfc_body_def)

lemma dec_digits_line: "NL \<notin> set (dec_digits n)"
proof (induction n rule: dec_digits.induct)
  case (1 n)
  have "char_of (48 + k) \<noteq> NL" if "k < 10" for k :: nat
  proof -
    have "k \<in> set [0..<10]" using that by simp
    moreover have "\<forall>j \<in> set [0..<10]. char_of (48 + j) \<noteq> NL" by code_simp
    ultimately show ?thesis by blast
  qed
  then have "char_of (48 + n mod 10) \<noteq> NL" "n < 10 \<Longrightarrow> char_of (48 + n) \<noteq> NL" by simp_all
  with 1 show ?case by (subst dec_digits.simps) auto
qed

lemma join_with_line: "NL \<notin> set sep \<Longrightarrow> \<forall>x \<in> set xs. NL \<notin> set x \<Longrightarrow> NL \<notin> set (join_with sep xs)"
  by (cases xs) (auto simp: join_with_def)

lemma rfc_ser_line: "(\<And>w. NL \<notin> set (fl w)) \<Longrightarrow> NL \<notin> set (rfc_ser fl j)"
proof (induction fl j rule: rfc_ser.induct)
  case (7 fl xs)
  then have "NL \<notin> set (join_with '','' (map (rfc_ser fl) xs))" by (intro join_with_line) auto
  then show ?case by simp
next
  case (8 fl xs)
  then have "NL \<notin> set (join_with '','' (map (\<lambda>(k, v). rfc_quote k @ '':'' @ rfc_ser fl v) xs))"
    using rfc_quote_line by (intro join_with_line) auto
  then show ?case by simp
qed (simp_all add: dec_digits_line rfc_quote_line)

end
