(* ===== verification/Prompt.thy ===== *)
theory Prompt
  imports Stream_Decode Json
begin

section \<open>Prompt builders\<close>

text \<open>
  \<open>minicpm-server/src/prompt.rs\<close>: the \<open>PromptBuilder\<close> interface as a record of operations
  (errors are strings), and the scripted builder, which maps characters to token ids and
  back. The scripted decoder provides the contract \<open>prefix_stable_decoder\<close> of the stream
  decoder, and the stream decoder's property is stated here.
\<close>

record prompt_builder =
  pb_prompt_ids :: "json list \<Rightarrow> json option \<Rightarrow> bool option \<Rightarrow> string + i32 list"
  pb_decode_ids :: decode_fn
  pb_bos_token :: string

text \<open>\<open>c\<close> is a code point. \<open>id - 100\<close> wraps, as in a release build.\<close>

definition char_to_id :: "nat \<Rightarrow> i32" where
  "char_to_id c = 100 + of_nat (c mod 1000)"

definition id_to_char :: "i32 \<Rightarrow> nat" where
  "id_to_char i =
     (let cp = nat (sint (i - 100) mod 1000) in
      if cp < 55296 \<or> 57344 \<le> cp \<and> cp < 1114112 then cp else 65533)"

definition scripted_decode_ids :: decode_fn where
  "scripted_decode_ids ids = Inr (concat (map (\<lambda>i. utf8_encode (id_to_char i)) ids))"

definition scripted_content :: "(json \<Rightarrow> string) \<Rightarrow> json \<Rightarrow> string" where
  "scripted_content ser m =
     (case json_get m ''content'' of Some (JStr s) \<Rightarrow> s | Some v \<Rightarrow> ser v | None \<Rightarrow> [])"

definition scripted_role :: "json \<Rightarrow> string" where
  "scripted_role m =
     (case Option.bind (json_get m ''role'') as_str of Some r \<Rightarrow> r | None \<Rightarrow> ''user'')"

definition scripted_text :: "(json \<Rightarrow> string) \<Rightarrow> json list \<Rightarrow> json option \<Rightarrow> string" where
  "scripted_text ser msgs tools =
     ''<s>'' @
     concat (map (\<lambda>m. ''['' @ scripted_role m @ ''] '' @ scripted_content ser m @ [NL]) msgs) @
     (case tools of None \<Rightarrow> [] | Some t \<Rightarrow> ''[tools] '' @ ser t @ [NL])"

definition scripted_prompt_ids ::
  "(json \<Rightarrow> string) \<Rightarrow> json list \<Rightarrow> json option \<Rightarrow> bool option \<Rightarrow> string + i32 list" where
  "scripted_prompt_ids ser msgs tools thinking =
     (if msgs = [] then Inl ''empty conversation''
      else Inr (map char_to_id (str_chars (scripted_text ser msgs tools))))"

definition scripted_builder :: "(json \<Rightarrow> string) \<Rightarrow> prompt_builder" where
  "scripted_builder ser =
     \<lparr>pb_prompt_ids = scripted_prompt_ids ser, pb_decode_ids = scripted_decode_ids,
      pb_bos_token = ''<s>''\<rparr>"

subsection \<open>Ids and characters\<close>

lemma id_to_char_less: "id_to_char i < 1000"
proof -
  have "nat (sint (i - 100) mod 1000) < 1000" by (simp add: nat_less_iff)
  then show ?thesis by (simp add: id_to_char_def Let_def)
qed

lemma sint_small: "n < 1100 \<Longrightarrow> sint (of_nat n :: i32) = int n"
  by (simp add: signed_of_nat signed_take_bit_int_eq_self)

lemma char_to_id_range: "100 \<le> sint (char_to_id c) \<and> sint (char_to_id c) < 1100"
proof -
  have "c mod 1000 < 1000" by simp
  then have "100 + c mod 1000 < 1100" by linarith
  from sint_small [OF this] \<open>c mod 1000 < 1000\<close> show ?thesis by (simp add: char_to_id_def)
qed

lemma id_to_char_to_id: "id_to_char (char_to_id c) = c mod 1000"
proof -
  have c: "c mod 1000 < 1000" by simp
  then have "sint (of_nat (c mod 1000) :: i32) = int (c mod 1000)" by (intro sint_small) linarith
  moreover have "c mod 1000 < 55296" using c by linarith
  ultimately show ?thesis
    by (simp add: id_to_char_def char_to_id_def Let_def)
qed

lemma scripted_starts_char:
  "starts_char (concat (map (\<lambda>i. utf8_encode (id_to_char i)) ids))"
proof (cases ids)
  case (Cons i rest)
  have "id_to_char i < 1114112" using id_to_char_less [of i] by simp
  then show ?thesis using Cons by (simp add: starts_char_encode)
qed (simp add: starts_char_def)

lemma starts_char_append: "starts_char w \<Longrightarrow> starts_char u \<Longrightarrow> starts_char (w @ u)"
  by (cases w) (auto simp: starts_char_def)

interpretation scripted: prefix_stable_decoder scripted_decode_ids
proof
  fix a b s t
  assume "scripted_decode_ids a = Inr s" "scripted_decode_ids (a @ b) = Inr t"
  then have t: "t = s @ concat (map (\<lambda>i. utf8_encode (id_to_char i)) b)"
    by (auto simp: scripted_decode_ids_def)
  obtain w where w: "s = held s @ w" "starts_char w" by (rule held_append [of s])
  with t have "t = held s @ (w @ concat (map (\<lambda>i. utf8_encode (id_to_char i)) b))"
    by (metis append.assoc)
  with w(2) show "\<exists>r. t = held s @ r \<and> starts_char r"
    using starts_char_append scripted_starts_char by blast
qed (auto simp: scripted_decode_ids_def scripted_starts_char)

subsection \<open>Properties\<close>

text \<open>C1: streaming is lossless. With a tokenizer that only ever revises a trailing U+FFFD, the
  deltas of \<open>push\<close> followed by \<open>finish\<close> join to exactly the decoded text, no slice panics,
  and at every moment what was handed out is a prefix of the text that lacks at most a
  trailing U+FFFD.\<close>

theorem stream_decoder_lossless:
  assumes "prefix_stable_decoder dec" and "dec ids = Inr t"
  shows "sd_stream dec ids = Some t \<and>
    (ids \<noteq> [] \<longrightarrow> (\<exists>s sd. sd_feed dec sd_new ids = Some (s, sd) \<and> prefix s t \<and>
       length t \<le> length s + 3))"
proof -
  note dec = assms(1)
  have "length t \<le> length (held t) + 3" unfolding held_def by (auto split: if_splits)
  with prefix_stable_decoder.stream_all [OF dec assms(2)]
    prefix_stable_decoder.feed_prompt [OF dec assms(2)]
  show ?thesis by fastforce
qed

theorem stream_decoder_lossless_witness:
  "sd_stream scripted_decode_ids [172, 333] = Some (''H'' @ [CHR 0xC3, CHR 0xA9])"
proof -
  have "char_to_id 72 = 172" "char_to_id 233 = 333" by (simp_all add: char_to_id_def)
  then have "id_to_char 172 = 72" "id_to_char 333 = 233"
    using id_to_char_to_id [of 72] id_to_char_to_id [of 233] by simp_all
  moreover have "utf8_encode 72 = ''H''" "utf8_encode 233 = [CHR 0xC3, CHR 0xA9]" by code_simp+
  ultimately have "scripted_decode_ids [172, 333] = Inr (''H'' @ [CHR 0xC3, CHR 0xA9])"
    by (simp add: scripted_decode_ids_def)
  from stream_decoder_lossless [OF scripted.prefix_stable_decoder_axioms this] show ?thesis by simp
qed

text \<open>a prompt of the scripted builder decodes back to the rendered conversation, its ids
  lie in \<open>[100, 1100)\<close>, and an empty conversation is rejected.\<close>

theorem scripted_prompt_roundtrip:
  assumes "scripted_text ser msgs tools = concat (map utf8_encode cps)" and "\<forall>c \<in> set cps. c < 1000"
  shows "(msgs = [] \<longrightarrow> scripted_prompt_ids ser msgs tools th = Inl ''empty conversation'') \<and>
    (msgs \<noteq> [] \<longrightarrow> (\<exists>ids. scripted_prompt_ids ser msgs tools th = Inr ids \<and>
       scripted_decode_ids ids = Inr (scripted_text ser msgs tools) \<and>
       (\<forall>i \<in> set ids. 100 \<le> sint i \<and> sint i < 1100)))"
proof -
  have cps: "str_chars (scripted_text ser msgs tools) = cps"
    using assms by (fastforce intro: str_chars_encode)
  have "map (\<lambda>c. utf8_encode (id_to_char (char_to_id c))) cps = map utf8_encode cps"
    using assms(2) by (simp add: id_to_char_to_id)
  then have "concat (map (\<lambda>c. utf8_encode (id_to_char (char_to_id c))) cps) = concat (map utf8_encode cps)"
    by (rule arg_cong)
  moreover have "100 \<le> sint (char_to_id c) \<and> sint (char_to_id c) < 1100" for c
    using char_to_id_range by simp
  ultimately show ?thesis
    using assms(1) cps
    by (auto simp: scripted_prompt_ids_def scripted_decode_ids_def comp_def simp del: map_eq_conv)
qed

theorem scripted_prompt_roundtrip_witness:
  "\<exists>ids. scripted_prompt_ids (rfc_ser (\<lambda>_. [])) [JObj [(''content'', JStr ''hi'')]] None None = Inr ids \<and>
     scripted_decode_ids ids = Inr (''<s>[user] hi'' @ [NL])"
proof -
  let ?m = "[JObj [(''content'', JStr ''hi'')]]" and ?ser = "rfc_ser (\<lambda>_. [])"
  have t: "scripted_text ?ser ?m None = ''<s>[user] hi'' @ [NL]"
    by (simp add: scripted_text_def scripted_role_def scripted_content_def)
  have e: "''<s>[user] hi'' @ [NL] =
      concat (map utf8_encode [60, 115, 62, 91, 117, 115, 101, 114, 93, 32, 104, 105, 10])"
    by code_simp
  have "\<forall>c \<in> set [60, 115, 62, 91, 117, 115, 101, 114, 93, 32, 104, 105, 10]. c < (1000 :: nat)"
    by simp
  from scripted_prompt_roundtrip [OF t [unfolded e] this] t show ?thesis by auto
qed

end
