(* ===== verification/Tool_Call.thy ===== *)
theory Tool_Call
  imports Json
begin

section \<open>The streaming tool-call parser\<close>

text \<open>
  \<open>minicpm-generation/src/tool_call.rs\<close>: a state machine over a buffer of decoded text.
  Every processing pass (\<open>step_text\<close>, \<open>step_function\<close>, \<open>step_param\<close>, \<open>step_cdata\<close>) returns
  whether another pass follows, the new parser and the events it emits; \<open>run_steps\<close> is the
  loop of \<open>push\<close>, which ends because every pass that continues shortens the buffer. All
  slices and drains are at an ASCII byte or after \<open>floor_char_boundary\<close>, so none panics.
  \<open>ser\<close> is \<open>serde_json::Value::to_string\<close>.
\<close>

record tool_call =
  tc_id :: string
  tc_name :: string
  tc_arguments :: string

datatype tool_call_event =
    Ev_Text string
  | Ev_Start string
  | Ev_Param string string
  | Ev_End tool_call

datatype tp_state = St_Text | St_Function | St_Param | St_Cdata

definition fn_open :: string where "fn_open = ''<function''"
definition fn_close :: string where "fn_close = ''</function>''"
definition param_open :: string where "param_open = ''<param''"
definition param_close :: string where "param_close = ''</param>''"
definition cdata_open :: string where "cdata_open = ''<![CDATA[''"
definition cdata_close :: string where "cdata_close = '']]>''"

lemmas tag_defs = fn_open_def fn_close_def param_open_def param_close_def cdata_open_def cdata_close_def

record tool_parser =
  tp_state :: tp_state
  tp_buf :: string
  current_name :: string
  current_params :: "(string \<times> string) list"
  param_name :: string
  param_value :: string
  tp_calls :: "tool_call list"
  call_seq :: nat

definition tp_new :: tool_parser where
  "tp_new =
     \<lparr>tp_state = St_Text, tp_buf = [], current_name = [], current_params = [],
      param_name = [], param_value = [], tp_calls = [], call_seq = 0\<rparr>"

subsection \<open>Tags\<close>

definition viable_prefix :: "string \<Rightarrow> string \<Rightarrow> bool" where
  "viable_prefix buf lit \<longleftrightarrow> length buf < length lit \<and> prefix buf lit"

definition decode_attr :: "string \<Rightarrow> string" where
  "decode_attr v =
     str_replace ''&amp;'' ''&''
       (str_replace ''&quot;'' [DQ]
         (str_replace ''&gt;'' ''>'' (str_replace ''&lt;'' ''<'' v)))"

fun parse_attr :: "string \<Rightarrow> string list \<Rightarrow> string option" where
  "parse_attr attr [] = None"
| "parse_attr attr (part # parts) =
     (case strip_prefix part (attr @ ''='' @ [DQ]) of
        Some v \<Rightarrow>
          (case strip_suffix v [DQ] of
             Some v' \<Rightarrow> Some (decode_attr v')
           | None \<Rightarrow> parse_attr attr parts)
      | None \<Rightarrow>
          (case strip_prefix part (attr @ ''='' @ [SQ]) of
             Some v \<Rightarrow>
               (case strip_suffix v [SQ] of
                  Some v' \<Rightarrow> Some (decode_attr v')
                | None \<Rightarrow> parse_attr attr parts)
           | None \<Rightarrow> parse_attr attr parts))"

definition parse_tag :: "string \<Rightarrow> string \<Rightarrow> string \<Rightarrow> string option" where
  "parse_tag buf tag attr =
     (if \<not> prefix tag buf then None
      else case str_find ''>'' buf of
             None \<Rightarrow> None
           | Some close \<Rightarrow>
               parse_attr attr (split_whitespace (drop (length tag) (take close buf))))"

definition tag_len :: "string \<Rightarrow> nat" where
  "tag_len buf = (case str_find ''>'' buf of Some i \<Rightarrow> i + 1 | None \<Rightarrow> length buf)"

subsection \<open>Passes\<close>

definition finalize_call ::
  "(json \<Rightarrow> string) \<Rightarrow> string \<Rightarrow> (string \<times> string) list \<Rightarrow> nat \<Rightarrow> tool_call" where
  "finalize_call ser name params n =
     \<lparr>tc_id = ''call_'' @ dec_digits n, tc_name = name,
      tc_arguments = ser (JObj (foldl (\<lambda>m (k, v). obj_insert m k (JStr v)) [] params))\<rparr>"

definition emit_param_value :: "tool_parser \<Rightarrow> string \<Rightarrow> tool_parser \<times> tool_call_event list" where
  "emit_param_value p s =
     (p\<lparr>param_value := param_value p @ s\<rparr>, [Ev_Param (param_name p) s])"

definition close_param :: "tool_parser \<Rightarrow> tool_parser" where
  "close_param p =
     p\<lparr>current_params := current_params p @ [(param_name p, param_value p)],
       param_name := [], param_value := []\<rparr>"

definition close_function ::
  "(json \<Rightarrow> string) \<Rightarrow> tool_parser \<Rightarrow> tool_parser \<times> tool_call_event list" where
  "close_function ser p =
     (let call = finalize_call ser (current_name p) (current_params p) (call_seq p) in
      (p\<lparr>current_name := [], current_params := [], call_seq := call_seq p + 1,
         tp_calls := tp_calls p @ [call], tp_state := St_Text\<rparr>,
       [Ev_End call]))"

type_synonym tp_result = "bool \<times> tool_parser \<times> tool_call_event list"

definition step_text :: "tool_parser \<Rightarrow> tp_result" where
  "step_text p =
     (case str_find ''<'' (tp_buf p) of
        None \<Rightarrow>
          if tp_buf p = [] then (False, p, [])
          else (True, p\<lparr>tp_buf := []\<rparr>, [Ev_Text (tp_buf p)])
      | Some i \<Rightarrow>
          let evs = (if i > 0 then [Ev_Text (take i (tp_buf p))] else []);
              b = drop i (tp_buf p);
              p1 = p\<lparr>tp_buf := b\<rparr>;
              name = (if prefix fn_open b then parse_tag b fn_open ''name'' else None)
          in (case name of
                Some nm \<Rightarrow>
                  (True,
                   p1\<lparr>tp_state := St_Function, current_name := nm, tp_buf := drop (tag_len b) b\<rparr>,
                   evs @ [Ev_Start nm])
              | None \<Rightarrow>
                  if prefix fn_open b \<and> str_find ''>'' b = None then (False, p1, evs)
                  else if viable_prefix b fn_open then (False, p1, evs)
                  else (True, p1\<lparr>tp_buf := drop 1 b\<rparr>, evs @ [Ev_Text ''<''])))"

definition step_function :: "(json \<Rightarrow> string) \<Rightarrow> tool_parser \<Rightarrow> tp_result" where
  "step_function ser p =
     (let b = tp_buf p in
      case str_find ''<'' b of
        None \<Rightarrow> (False, p\<lparr>tp_buf := []\<rparr>, [])
      | Some i \<Rightarrow>
          if i > 0 then (True, p\<lparr>tp_buf := drop i b\<rparr>, [])
          else if prefix fn_close b
          then (case close_function ser (p\<lparr>tp_buf := drop (length fn_close) b\<rparr>) of
                  (p1, evs) \<Rightarrow> (True, p1, evs))
          else let name = (if prefix param_open b then parse_tag b param_open ''name'' else None)
               in (case name of
                     Some nm \<Rightarrow>
                       (True,
                        p\<lparr>tp_state := St_Param, param_name := nm, param_value := [],
                          tp_buf := drop (tag_len b) b\<rparr>, [])
                   | None \<Rightarrow>
                       if prefix param_open b \<and> str_find ''>'' b = None then (False, p, [])
                       else if viable_prefix b fn_close \<or> viable_prefix b param_open
                       then (False, p, [])
                       else (True, p\<lparr>tp_buf := drop 1 b\<rparr>, [])))"

definition step_param :: "tool_parser \<Rightarrow> tp_result" where
  "step_param p =
     (let b = tp_buf p in
      if prefix cdata_open b
      then (True, p\<lparr>tp_state := St_Cdata, tp_buf := drop (length cdata_open) b\<rparr>, [])
      else if viable_prefix b cdata_open then (False, p, [])
      else case str_find ''<'' b of
        None \<Rightarrow>
          if b = [] then (False, p, [])
          else (case emit_param_value (p\<lparr>tp_buf := []\<rparr>) b of (p1, evs) \<Rightarrow> (True, p1, evs))
      | Some i \<Rightarrow>
          (case (if i > 0 then emit_param_value (p\<lparr>tp_buf := drop i b\<rparr>) (take i b)
                 else (p, [])) of
             (p1, evs) \<Rightarrow>
               let b1 = tp_buf p1 in
               if prefix param_close b1
               then (True,
                     (close_param (p1\<lparr>tp_buf := drop (length param_close) b1\<rparr>))
                       \<lparr>tp_state := St_Function\<rparr>, evs)
               else if viable_prefix b1 param_close then (False, p1, evs)
               else (case emit_param_value (p1\<lparr>tp_buf := drop 1 b1\<rparr>) ''<'' of
                       (p2, evs2) \<Rightarrow> (True, p2, evs @ evs2))))"

definition step_cdata :: "tool_parser \<Rightarrow> tp_result" where
  "step_cdata p =
     (let b = tp_buf p in
      case str_find cdata_close b of
        Some i \<Rightarrow>
          (case emit_param_value (p\<lparr>tp_buf := drop (i + length cdata_close) b\<rparr>) (take i b) of
             (p1, evs) \<Rightarrow> (True, p1\<lparr>tp_state := St_Param\<rparr>, evs))
      | None \<Rightarrow>
          let hold = length cdata_close - 1;
              cut = floor_char_boundary b (length b - hold)
          in if length b > hold \<and> cut > 0
             then (case emit_param_value (p\<lparr>tp_buf := drop cut b\<rparr>) (take cut b) of
                     (p1, evs) \<Rightarrow> (False, p1, evs))
             else (False, p, []))"

definition tp_step :: "(json \<Rightarrow> string) \<Rightarrow> tool_parser \<Rightarrow> tp_result" where
  "tp_step ser p =
     (case tp_state p of
        St_Text \<Rightarrow> step_text p
      | St_Function \<Rightarrow> step_function ser p
      | St_Param \<Rightarrow> step_param p
      | St_Cdata \<Rightarrow> step_cdata p)"

lemmas step_defs = step_text_def step_function_def step_param_def step_cdata_def

subsection \<open>The loop ends\<close>

lemma tag_len_pos: "b \<noteq> [] \<Longrightarrow> 0 < tag_len b"
  by (cases b) (auto simp: tag_len_def split: option.splits)

lemma parse_tag_nonempty: "parse_tag b tag attr = Some nm \<Longrightarrow> b \<noteq> []"
  by (auto simp: parse_tag_def split: if_splits)

lemma drop_tag_shorter: "parse_tag b tag attr = Some nm \<Longrightarrow> length b - tag_len b < length b"
  using parse_tag_nonempty tag_len_pos by (simp add: diff_less)

lemma step_text_shorter:
  assumes "step_text p = (True, p', evs)" shows "length (tp_buf p') < length (tp_buf p)"
proof (cases "str_find ''<'' (tp_buf p)")
  case None
  then show ?thesis using assms by (auto simp: step_text_def split: if_splits)
next
  case (Some i)
  obtain x y where xy: "tp_buf p = x @ CHR ''<'' # y" "length x = i"
    using Some by (rule find_char_Some)
  then show ?thesis using assms Some drop_tag_shorter [of "CHR ''<'' # y"]
    by (auto simp: step_text_def Let_def split: option.splits if_splits
             intro: less_le_trans dest!: drop_tag_shorter)
qed

lemma step_function_shorter:
  assumes "step_function ser p = (True, p', evs)" shows "length (tp_buf p') < length (tp_buf p)"
proof (cases "str_find ''<'' (tp_buf p)")
  case None
  then show ?thesis using assms by (auto simp: step_function_def)
next
  case (Some i)
  obtain x y where xy: "tp_buf p = x @ CHR ''<'' # y" "length x = i"
    using Some by (rule find_char_Some)
  then show ?thesis using assms Some
    by (auto simp: step_function_def Let_def close_function_def tag_defs
             split: option.splits if_splits dest!: drop_tag_shorter)
qed

lemma step_param_shorter:
  assumes "step_param p = (True, p', evs)" shows "length (tp_buf p') < length (tp_buf p)"
proof (cases "str_find ''<'' (tp_buf p)")
  case None
  then show ?thesis using assms
    by (auto simp: step_param_def Let_def emit_param_value_def tag_defs prefix_def split: if_splits)
next
  case (Some i)
  obtain x y where xy: "tp_buf p = x @ CHR ''<'' # y" "length x = i"
    using Some by (rule find_char_Some)
  then show ?thesis using assms Some
    by (auto simp: step_param_def Let_def emit_param_value_def close_param_def tag_defs prefix_def
             split: if_splits)
qed

lemma step_cdata_shorter:
  assumes "step_cdata p = (True, p', evs)" shows "length (tp_buf p') < length (tp_buf p)"
  using assms
  by (auto simp: step_cdata_def Let_def emit_param_value_def cdata_close_def
           split: option.splits if_splits dest!: str_find_SomeD occurs_at_length)

lemma tp_step_shorter:
  "tp_step ser p = (True, p', evs) \<Longrightarrow> length (tp_buf p') < length (tp_buf p)"
  by (cases "tp_state p")
     (auto simp: tp_step_def intro: step_text_shorter step_function_shorter step_param_shorter step_cdata_shorter)

text \<open>The loop of \<open>push\<close>.\<close>

function run_steps ::
  "(json \<Rightarrow> string) \<Rightarrow> tool_parser \<Rightarrow> tool_parser \<times> tool_call_event list" where
  "run_steps ser p =
     (case tp_step ser p of
        (False, p1, evs) \<Rightarrow> (p1, evs)
      | (True, p1, evs) \<Rightarrow> (case run_steps ser p1 of (p2, evs2) \<Rightarrow> (p2, evs @ evs2)))"
  by pat_completeness auto
termination
  by (relation "measure (\<lambda>(ser, p). length (tp_buf p))") (auto dest: tp_step_shorter [OF sym])

declare run_steps.simps [simp del]

definition tp_push ::
  "(json \<Rightarrow> string) \<Rightarrow> tool_parser \<Rightarrow> string \<Rightarrow> tool_parser \<times> tool_call_event list" where
  "tp_push ser p fragment = run_steps ser (p\<lparr>tp_buf := tp_buf p @ fragment\<rparr>)"

definition tp_finish ::
  "(json \<Rightarrow> string) \<Rightarrow> tool_parser \<Rightarrow> tool_parser \<times> tool_call_event list" where
  "tp_finish ser p =
     (let leftover = tp_buf p;
          p0 = p\<lparr>tp_buf := []\<rparr>;
          (p1, evs1) =
            (case tp_state p of
               St_Text \<Rightarrow> (p0, [Ev_Text leftover])
             | St_Function \<Rightarrow> (p0, [])
             | _ \<Rightarrow>
                 (let (pa, ea) = (if leftover = [] then (p0, []) else emit_param_value p0 leftover)
                  in ((close_param pa)\<lparr>tp_state := St_Function\<rparr>, ea)));
          (p2, evs2) = (if tp_state p1 = St_Function then close_function ser p1 else (p1, []))
      in (p2\<lparr>tp_state := St_Text\<rparr>, evs1 @ evs2))"

definition has_calls :: "tool_parser \<Rightarrow> bool" where
  "has_calls p \<longleftrightarrow> tp_calls p \<noteq> []"

text \<open>Feeding fragments one after the other, and a whole text with its final flush.\<close>

fun tp_feed ::
  "(json \<Rightarrow> string) \<Rightarrow> tool_parser \<Rightarrow> string list \<Rightarrow> tool_parser \<times> tool_call_event list" where
  "tp_feed ser p [] = (p, [])"
| "tp_feed ser p (f # fs) =
     (case tp_push ser p f of (p1, e1) \<Rightarrow> (case tp_feed ser p1 fs of (p2, e2) \<Rightarrow> (p2, e1 @ e2)))"

definition tp_parse ::
  "(json \<Rightarrow> string) \<Rightarrow> string list \<Rightarrow> tool_parser \<times> tool_call_event list" where
  "tp_parse ser fs =
     (case tp_feed ser tp_new fs of (p1, e1) \<Rightarrow> (case tp_finish ser p1 of (p2, e2) \<Rightarrow> (p2, e1 @ e2)))"

subsection \<open>Events up to chunk boundaries\<close>

text \<open>
  Chunk boundaries are unspecified, so events are compared as the sequence of their atoms:
  one per byte of text or parameter value, one per start or end of a call.
\<close>

datatype tp_atom = At_Text char | At_Start string | At_Param string char | At_End tool_call

fun ev_atoms :: "tool_call_event \<Rightarrow> tp_atom list" where
  "ev_atoms (Ev_Text s) = map At_Text s"
| "ev_atoms (Ev_Start n) = [At_Start n]"
| "ev_atoms (Ev_Param n s) = map (At_Param n) s"
| "ev_atoms (Ev_End c) = [At_End c]"

definition atoms :: "tool_call_event list \<Rightarrow> tp_atom list" where
  "atoms evs = concat (map ev_atoms evs)"

lemma atoms_simps [simp]:
  "atoms [] = []" "atoms (e # es) = ev_atoms e @ atoms es" "atoms (es @ fs) = atoms es @ atoms fs"
  by (simp_all add: atoms_def)

text \<open>
  Inside a parameter the parser takes \<open><![CDATA[\<close> for an opener only where a pass begins, which
  depends on the chunks when value text precedes it. A buffer is clean when, in a parameter,
  it starts with the opener, or \<open><!\<close> comes only first or after the closing tag.
\<close>

definition param_clean :: "tool_parser \<Rightarrow> bool" where
  "param_clean p \<longleftrightarrow>
     (tp_state p = St_Param \<and> \<not> prefix cdata_open (tp_buf p) \<longrightarrow>
      (case str_find ''<!'' (drop 1 (tp_buf p)) of
         None \<Rightarrow> True
       | Some i \<Rightarrow> (case str_find param_close (tp_buf p) of None \<Rightarrow> False | Some j \<Rightarrow> j \<le> i)))"

function tp_obs ::
  "(json \<Rightarrow> string) \<Rightarrow> tool_parser \<Rightarrow> tool_parser \<times> tp_atom list \<times> bool" where
  "tp_obs ser p =
     (case tp_step ser p of
        (False, p1, evs) \<Rightarrow> (p1, atoms evs, param_clean p)
      | (True, p1, evs) \<Rightarrow>
          (case tp_obs ser p1 of (p2, a, c) \<Rightarrow> (p2, atoms evs @ a, param_clean p \<and> c)))"
  by pat_completeness auto
termination
  by (relation "measure (\<lambda>(ser, p). length (tp_buf p))") (auto dest: tp_step_shorter [OF sym])

declare tp_obs.simps [simp del]

abbreviation with_buf :: "tool_parser \<Rightarrow> string \<Rightarrow> tool_parser" where
  "with_buf p s \<equiv> p\<lparr>tp_buf := s\<rparr>"

lemma obs_True:
  "tp_step ser p = (True, q, e) \<Longrightarrow>
   tp_obs ser p = (case tp_obs ser q of (r, a, c) \<Rightarrow> (r, atoms e @ a, param_clean p \<and> c))"
  by (subst tp_obs.simps) simp

lemma obs_False:
  "tp_step ser p = (False, q, e) \<Longrightarrow> tp_obs ser p = (q, atoms e, param_clean p)"
  by (subst tp_obs.simps) simp

lemma run_True:
  "tp_step ser p = (True, q, e) \<Longrightarrow>
   run_steps ser p = (case run_steps ser q of (r, es) \<Rightarrow> (r, e @ es))"
  by (subst run_steps.simps) simp

lemma run_False: "tp_step ser p = (False, q, e) \<Longrightarrow> run_steps ser p = (q, e)"
  by (subst run_steps.simps) simp

text \<open>The observer is \<open>run_steps\<close> with the events as atoms.\<close>

lemma obs_run:
  "\<exists>c. tp_obs ser p = (fst (run_steps ser p), atoms (snd (run_steps ser p)), c)"
proof (induction "length (tp_buf p)" arbitrary: p rule: less_induct)
  case less
  obtain b q e where st: "tp_step ser p = (b, q, e)" by (cases "tp_step ser p") auto
  show ?case
  proof (cases b)
    case True
    with st less [of q] tp_step_shorter [of ser p q e] obtain c where
      "tp_obs ser q = (fst (run_steps ser q), atoms (snd (run_steps ser q)), c)" by auto
    with st True show ?thesis by (auto simp: obs_True run_True split: prod.splits)
  next
    case False
    with st show ?thesis by (simp add: obs_False run_False)
  qed
qed

text \<open>A step of two parsers to the same parser, up to atoms read before.\<close>

lemma obs_same_step:
  assumes "tp_step ser p = (f, q, e)" "tp_step ser p' = (f, q, e')"
    and "atoms e = x @ atoms e'" and "tp_obs ser p = (r, a, True)"
    and "param_clean p \<Longrightarrow> param_clean p'"
  shows "\<exists>a'. tp_obs ser p' = (r, a', True) \<and> a = x @ a'"
  using assms
  by (cases f) (auto simp: obs_True obs_False split: prod.splits)

lemma viable_append:
  assumes "\<not> prefix lit b" and "\<not> viable_prefix b lit"
  shows "\<not> prefix lit (b @ t)" and "\<not> viable_prefix (b @ t) lit"
proof -
  have nb: "\<not> prefix b lit"
    using assms by (auto simp: viable_prefix_def prefix_def)
  show "\<not> prefix lit (b @ t)"
    using nb assms(1) prefix_same_cases [of lit "b @ t" b] by auto
  show "\<not> viable_prefix (b @ t) lit"
    using nb append_prefixD by (auto simp: viable_prefix_def)
qed

lemma parse_tag_append:
  "str_find ''>'' b = Some i \<Longrightarrow> prefix tag b \<Longrightarrow> parse_tag (b @ t) tag attr = parse_tag b tag attr"
  using str_find_append [of "''>''" b i t]
  by (auto simp: parse_tag_def dest!: str_find_SomeD occurs_at_length)

lemma tag_len_append: "str_find ''>'' b = Some i \<Longrightarrow> tag_len (b @ t) = tag_len b \<and> tag_len b \<le> length b"
  using str_find_append [of "''>''" b i t]
  by (auto simp: tag_len_def dest!: str_find_SomeD occurs_at_length)

lemma parse_tag_close: "parse_tag b tag attr = Some nm \<Longrightarrow> \<exists>i. str_find ''>'' b = Some i"
  by (auto simp: parse_tag_def split: if_splits option.splits)

subsection \<open>Passes and text that arrives later\<close>

text \<open>What the parser makes of a buffer that starts with \<open><\<close>, where the tag \<open>lit\<close> may start.\<close>

datatype tag_decision = D_Tag string | D_Wait | D_Literal

definition decide_tag :: "string \<Rightarrow> string \<Rightarrow> tag_decision" where
  "decide_tag lit b =
     (case (if prefix lit b then parse_tag b lit ''name'' else None) of
        Some nm \<Rightarrow> D_Tag nm
      | None \<Rightarrow>
          if prefix lit b \<and> str_find ''>'' b = None \<or> viable_prefix b lit then D_Wait else D_Literal)"

lemma decide_append:
  assumes "decide_tag lit b \<noteq> D_Wait"
  shows "decide_tag lit (b @ t) = decide_tag lit b"
proof (cases "prefix lit b")
  case True
  then obtain i where i: "str_find ''>'' b = Some i"
    using assms parse_tag_close [of b lit]
    by (cases "str_find ''>'' b") (auto simp: decide_tag_def split: option.splits)
  have "\<not> viable_prefix b lit" "\<not> viable_prefix (b @ t) lit"
    using True by (auto simp: viable_prefix_def dest: prefix_length_le)
  with True i show ?thesis
    by (simp add: decide_tag_def parse_tag_append [OF i True] str_find_append [OF i] prefix_prefix)
next
  case False
  with assms have "\<not> viable_prefix b lit" by (auto simp: decide_tag_def)
  with False viable_append [OF False] show ?thesis by (simp add: decide_tag_def)
qed

lemma decide_tag_len:
  assumes "decide_tag lit b = D_Tag nm"
  shows "drop (tag_len (b @ t)) (b @ t) = drop (tag_len b) b @ t"
proof -
  have "tag_len (b @ t) = tag_len b \<and> tag_len b \<le> length b"
    using assms parse_tag_close [of b lit "''name''" nm] tag_len_append [of b _ t]
    by (auto simp: decide_tag_def split: option.splits if_splits)
  then show ?thesis by simp
qed

lemma step_text_at:
  "CHR ''<'' \<notin> set x \<Longrightarrow>
   step_text (with_buf p (x @ CHR ''<'' # y)) =
     (let b = CHR ''<'' # y; evs = (if x \<noteq> [] then [Ev_Text x] else []) in
      case decide_tag fn_open b of
        D_Tag nm \<Rightarrow>
          (True, p\<lparr>tp_state := St_Function, current_name := nm, tp_buf := drop (tag_len b) b\<rparr>,
           evs @ [Ev_Start nm])
      | D_Wait \<Rightarrow> (False, with_buf p b, evs)
      | D_Literal \<Rightarrow> (True, with_buf p y, evs @ [Ev_Text ''<'']))"
  by (auto simp: step_text_def Let_def find_char_append decide_tag_def split: option.splits)

lemma step_function_at:
  "step_function ser (with_buf p (CHR ''<'' # y)) =
     (let b = CHR ''<'' # y in
      if prefix fn_close b
      then (True, fst (close_function ser (with_buf p (drop (length fn_close) b))),
            snd (close_function ser (with_buf p (drop (length fn_close) b))))
      else case decide_tag param_open b of
        D_Tag nm \<Rightarrow>
          (True, p\<lparr>tp_state := St_Param, param_name := nm, param_value := [],
                   tp_buf := drop (tag_len b) b\<rparr>, [])
      | D_Wait \<Rightarrow> (False, with_buf p b, [])
      | D_Literal \<Rightarrow>
          if viable_prefix b fn_close then (False, with_buf p b, []) else (True, with_buf p y, []))"
  by (auto simp: step_function_def Let_def decide_tag_def split: option.splits prod.splits)

lemma decide_param_not_viable: "decide_tag param_open b = D_Tag nm \<Longrightarrow> \<not> viable_prefix b fn_close"
  by (auto simp: decide_tag_def viable_prefix_def tag_defs prefix_def split: option.splits if_splits)

lemma step_function_close:
  "step_function ser (with_buf p (fn_close @ z)) =
     (True, fst (close_function ser (with_buf p z)), snd (close_function ser (with_buf p z)))"
proof -
  obtain w where w: "fn_close = CHR ''<'' # w" by (simp add: fn_close_def)
  then have e: "CHR ''<'' # w @ z = fn_close @ z" by simp
  show ?thesis
    using step_function_at [where ser = ser and p = p and y = "w @ z"] unfolding e by (simp add: Let_def)
qed

lemma step_function_skip:
  "CHR ''<'' \<notin> set x \<Longrightarrow> x \<noteq> [] \<Longrightarrow>
   step_function ser (with_buf p (x @ CHR ''<'' # y)) = (True, with_buf p (CHR ''<'' # y), [])"
  by (auto simp: step_function_def find_char_append)

lemma step_function_none:
  "CHR ''<'' \<notin> set x \<Longrightarrow> step_function ser (with_buf p x) = (False, with_buf p [], [])"
  by (auto simp: step_function_def find_char_None [THEN iffD2])

text \<open>A pass that continues, other than the flush of a buffer without \<open><\<close>, does the same when
  more text follows.\<close>

lemma step_text_more:
  assumes "step_text (with_buf p b) = (True, q, e)" and "CHR ''<'' \<in> set b"
  shows "step_text (with_buf p (b @ t)) = (True, with_buf q (tp_buf q @ t), e)"
proof -
  obtain x y where b: "b = x @ CHR ''<'' # y" "CHR ''<'' \<notin> set x"
    using assms(2) by (metis split_list_first)
  then have bt: "b @ t = x @ CHR ''<'' # (y @ t)" by simp
  show ?thesis
    using assms(1) decide_append [of fn_open "CHR ''<'' # y" t] decide_tag_len [of fn_open "CHR ''<'' # y" _ t]
    unfolding bt unfolding b(1) step_text_at [OF b(2)]
    by (auto simp: Let_def split: tag_decision.splits)
qed

lemma step_function_more:
  assumes "step_function ser (with_buf p b) = (True, q, e)"
  shows "step_function ser (with_buf p (b @ t)) = (True, with_buf q (tp_buf q @ t), e)"
proof -
  have "CHR ''<'' \<in> set b"
    using assms step_function_none [of b ser p] by auto
  then obtain x y where b: "b = x @ CHR ''<'' # y" "CHR ''<'' \<notin> set x"
    by (metis split_list_first)
  then have bt: "b @ t = x @ CHR ''<'' # (y @ t)" by simp
  show ?thesis
  proof (cases "x = []")
    case True
    let ?y = "CHR ''<'' # y"
    show ?thesis
    proof (cases "prefix fn_close ?y")
      case True
      then obtain z where z: "?y = fn_close @ z" by (auto simp: prefix_def)
      have bz: "b = fn_close @ z" "b @ t = fn_close @ (z @ t)" using b(1) \<open>x = []\<close> z by simp_all
      show ?thesis
        using assms unfolding bz(2) unfolding bz(1) step_function_close
        by (auto simp: Let_def close_function_def)
    next
      case False
      then have "\<not> viable_prefix ?y fn_close \<Longrightarrow> \<not> prefix fn_close (?y @ t) \<and> \<not> viable_prefix (?y @ t) fn_close"
        using viable_append by blast
      then show ?thesis
        using assms False \<open>x = []\<close> decide_append [of param_open ?y t] decide_tag_len [of param_open ?y _ t]
          decide_param_not_viable [of ?y]
        unfolding bt unfolding b(1)
        by (auto simp: step_function_at Let_def split: tag_decision.splits if_splits)
    qed
  next
    case False
    then show ?thesis
      using assms unfolding bt unfolding b(1) step_function_skip [OF b(2) False]
      by auto
  qed
qed

text \<open>In a parameter: the value text \<open>x\<close> before a \<open><\<close> is emitted, then the \<open><\<close> is judged.\<close>

abbreviation emit :: "tool_parser \<Rightarrow> string \<Rightarrow> tool_parser" where
  "emit p s \<equiv> p\<lparr>param_value := param_value p @ s\<rparr>"

definition param_tail :: "tool_parser \<Rightarrow> string \<Rightarrow> tp_result" where
  "param_tail p y =
     (let b = CHR ''<'' # y in
      if prefix param_close b
      then (True, (close_param (with_buf p (drop (length param_close) b)))\<lparr>tp_state := St_Function\<rparr>, [])
      else if viable_prefix b param_close then (False, with_buf p b, [])
      else (True, emit (with_buf p y) ''<'', [Ev_Param (param_name p) ''<'']))"

lemma step_param_at:
  assumes "CHR ''<'' \<notin> set x" and "x \<noteq> []"
  shows "step_param (with_buf p (x @ CHR ''<'' # y)) =
     (case param_tail (emit p x) y of (f, q, e) \<Rightarrow> (f, q, Ev_Param (param_name p) x # e))"
proof -
  obtain c cs where "x = c # cs" "c \<noteq> CHR ''<''" using assms by (cases x) auto
  then have "\<not> prefix cdata_open (x @ CHR ''<'' # y)" "\<not> viable_prefix (x @ CHR ''<'' # y) cdata_open"
    by (auto simp: cdata_open_def viable_prefix_def)
  then show ?thesis
    using assms
    by (auto simp: step_param_def Let_def find_char_append emit_param_value_def param_tail_def close_param_def)
qed

lemma step_param_lt:
  assumes "\<not> prefix cdata_open (CHR ''<'' # y)" and "\<not> viable_prefix (CHR ''<'' # y) cdata_open"
  shows "step_param (with_buf p (CHR ''<'' # y)) = param_tail p y"
  using assms by (auto simp: step_param_def Let_def emit_param_value_def param_tail_def)

lemma step_param_lt_clean:
  assumes "\<not> prefix ''!'' y"
  shows "step_param (with_buf p (CHR ''<'' # y)) = param_tail p y"
proof (cases y)
  case Nil
  then show ?thesis
    by (auto simp: step_param_def Let_def param_tail_def viable_prefix_def cdata_open_def param_close_def)
next
  case (Cons c cs)
  with assms have "c \<noteq> CHR ''!''" by auto
  with Cons have "\<not> prefix cdata_open (CHR ''<'' # y)" "\<not> viable_prefix (CHR ''<'' # y) cdata_open"
    by (auto simp: cdata_open_def viable_prefix_def)
  then show ?thesis by (rule step_param_lt)
qed

lemma param_tail_more:
  assumes "param_tail p y = (True, q, e)"
  shows "param_tail p (y @ t) = (True, with_buf q (tp_buf q @ t), e)"
proof (cases "prefix param_close (CHR ''<'' # y)")
  case True
  then obtain z where z: "CHR ''<'' # y = param_close @ z" by (auto simp: prefix_def)
  then have zt: "CHR ''<'' # (y @ t) = param_close @ (z @ t)"
    by (metis append_Cons append_assoc)
  show ?thesis
    using assms unfolding param_tail_def zt z by (auto simp: Let_def close_param_def)
next
  case False
  then have nv: "\<not> viable_prefix (CHR ''<'' # y) param_close"
    using assms by (auto simp: param_tail_def Let_def split: if_splits)
  from assms False nv viable_append [OF False nv, of t] show ?thesis
    by (auto simp: param_tail_def)
qed

lemma step_param_more:
  assumes "step_param (with_buf p b) = (True, q, e)" and "CHR ''<'' \<in> set b"
  shows "step_param (with_buf p (b @ t)) = (True, with_buf q (tp_buf q @ t), e)"
proof -
  obtain x y where b: "b = x @ CHR ''<'' # y" "CHR ''<'' \<notin> set x"
    using assms(2) by (metis split_list_first)
  then have bt: "b @ t = x @ CHR ''<'' # (y @ t)" by simp
  show ?thesis
  proof (cases "x = []")
    case False
    show ?thesis
      using assms(1) param_tail_more [of "emit p x" y _ _ t]
      unfolding bt unfolding b(1) step_param_at [OF b(2) False]
      by (auto split: prod.splits)
  next
    case True
    let ?b = "CHR ''<'' # y"
    have bb: "b = ?b" using b True by simp
    show ?thesis
    proof (cases "prefix cdata_open ?b")
      case True
      then obtain z where "?b = cdata_open @ z" by (auto simp: prefix_def)
      with bb have z: "b = cdata_open @ z" "b @ t = cdata_open @ (z @ t)" by auto
      show ?thesis using assms(1) unfolding z(2) unfolding z(1) by (auto simp: step_param_def)
    next
      case False
      then have nv: "\<not> viable_prefix ?b cdata_open"
        using assms(1) bb by (auto simp: step_param_def Let_def)
      have "param_tail p y = (True, q, e)"
        using assms(1) step_param_lt [OF False nv] bb by simp
      from param_tail_more [OF this, of t] step_param_lt [of "y @ t" p] viable_append [OF False nv, of t]
      show ?thesis using bb by simp
    qed
  qed
qed

lemma step_cdata_more:
  assumes "step_cdata (with_buf p b) = (True, q, e)"
  shows "step_cdata (with_buf p (b @ t)) = (True, with_buf q (tp_buf q @ t), e)"
proof -
  obtain i where i: "str_find cdata_close b = Some i"
    using assms by (auto simp: step_cdata_def Let_def emit_param_value_def split: option.splits if_splits)
  then have "i + length cdata_close \<le> length b" using str_find_SomeD occurs_at_length by blast
  with assms i str_find_append [OF i, of t] show ?thesis
    by (auto simp: step_cdata_def Let_def emit_param_value_def)
qed

text \<open>The passes that continue, together.\<close>

lemma tp_step_more:
  assumes "tp_step ser (with_buf p b) = (True, q, e)"
    and "tp_state p = St_Text \<or> tp_state p = St_Param \<Longrightarrow> CHR ''<'' \<in> set b"
  shows "tp_step ser (with_buf p (b @ t)) = (True, with_buf q (tp_buf q @ t), e)"
  using assms
  by (cases "tp_state p")
     (auto simp: tp_step_def intro: step_text_more step_function_more step_param_more step_cdata_more)

subsection \<open>Text that a pass has already consumed\<close>

lemma clean_other [simp]: "tp_state p \<noteq> St_Param \<Longrightarrow> param_clean p"
  by (simp add: param_clean_def)

lemma param_clean_iff:
  "param_clean p \<longleftrightarrow>
     (tp_state p = St_Param \<and> \<not> prefix cdata_open (tp_buf p) \<longrightarrow>
      (\<forall>i. occurs_at ''<!'' (tp_buf p) (Suc i) \<longrightarrow> (\<exists>j\<le>i. occurs_at param_close (tp_buf p) j)))"
proof -
  let ?b = "tp_buf p"
  have d: "occurs_at ''<!'' (drop 1 ?b) i \<longleftrightarrow> occurs_at ''<!'' ?b (Suc i)" for i
    by (cases ?b) (auto simp: occurs_at_def)
  show ?thesis
  proof (cases "str_find ''<!'' (drop 1 ?b)")
    case None
    then have "\<not> occurs_at ''<!'' ?b (Suc i)" for i using d unfolding str_find_None by blast
    with None show ?thesis by (simp add: param_clean_def)
  next
    case (Some i)
    with d have i: "occurs_at ''<!'' ?b (Suc i)" "\<And>k. k < i \<Longrightarrow> \<not> occurs_at ''<!'' ?b (Suc k)"
      by (auto dest: str_find_SomeD)
    show ?thesis
    proof (cases "str_find param_close ?b")
      case None
      then have "\<not> occurs_at param_close ?b j" for j unfolding str_find_None by blast
      with Some None i(1) show ?thesis by (auto simp: param_clean_def)
    next
      case (Some j)
      then have j: "occurs_at param_close ?b j" "\<And>k. k < j \<Longrightarrow> \<not> occurs_at param_close ?b k"
        by (auto dest: str_find_SomeD)
      have "j \<le> i \<longleftrightarrow> (\<forall>i. occurs_at ''<!'' ?b (Suc i) \<longrightarrow> (\<exists>j\<le>i. occurs_at param_close ?b j))"
        using i j by (meson leI le_less_trans order_trans)
      then show ?thesis using Some \<open>str_find ''<!'' (drop 1 ?b) = Some i\<close> by (simp add: param_clean_def)
    qed
  qed
qed

lemma occurs_at_shift: "occurs_at pat (x @ t) (length x + i) \<longleftrightarrow> occurs_at pat t i"
  by (auto simp: occurs_at_def)

lemma occurs_at_nth: "occurs_at (c # cs) s i \<Longrightarrow> i < length s \<and> s ! i = c"
  by (cases "drop i s") (auto simp: occurs_at_def nth_via_drop dest: arg_cong [of _ _ length])

lemma param_clean_skip:
  assumes "param_clean (with_buf p (x @ t))" and "CHR ''<'' \<notin> set x" and "x \<noteq> []"
  shows "param_clean (with_buf (emit p x) t)"
  unfolding param_clean_iff
proof (intro impI allI)
  have np: "\<not> prefix cdata_open (x @ t)" using assms(2,3) by (cases x) (auto simp: cdata_open_def)
  fix i assume st: "tp_state (with_buf (emit p x) t) = St_Param \<and>
      \<not> prefix cdata_open (tp_buf (with_buf (emit p x) t))"
    and "occurs_at ''<!'' (tp_buf (with_buf (emit p x) t)) (Suc i)"
  then have "occurs_at ''<!'' (x @ t) (Suc (length x + i))"
    using occurs_at_shift [of "''<!''" x t "Suc i"] by simp
  with assms(1) st np obtain j where j: "j \<le> length x + i" "occurs_at param_close (x @ t) j"
    by (auto simp: param_clean_iff)
  have "length x \<le> j"
  proof (rule ccontr)
    assume "\<not> length x \<le> j"
    moreover have "(x @ t) ! j = CHR ''<''"
      using j(2) occurs_at_nth by (auto simp: param_close_def)
    ultimately show False using assms(2) by (metis nth_append nth_mem not_le)
  qed
  with j occurs_at_shift [of param_close x t "j - length x"]
  show "\<exists>j\<le>i. occurs_at param_close (tp_buf (with_buf (emit p x) t)) j"
    by (intro exI [of _ "j - length x"]) auto
qed

lemma split_lt:
  obtains "CHR ''<'' \<notin> set t" | y z where "t = y @ CHR ''<'' # z" "CHR ''<'' \<notin> set y"
  by (metis split_list_first)

lemma obs_text_flush:
  assumes "tp_state p = St_Text" and "CHR ''<'' \<notin> set x"
  shows "tp_obs ser (with_buf p x) = (with_buf p [], map At_Text x, True)"
proof -
  have e: "tp_obs ser (with_buf p []) = (with_buf p [], [], True)"
    using assms(1) by (subst obs_False) (auto simp: tp_step_def step_text_def)
  show ?thesis
  proof (cases "x = []")
    case False
    then have "tp_step ser (with_buf p x) = (True, with_buf p [], [Ev_Text x])"
      using assms by (auto simp: tp_step_def step_text_def find_char_None [THEN iffD2])
    from obs_True [OF this] e assms(1) show ?thesis by simp
  qed (use e in simp)
qed

lemma obs_skip_text:
  assumes "tp_state p = St_Text" and "CHR ''<'' \<notin> set x"
    and "tp_obs ser (with_buf p (x @ t)) = (r, a, True)"
  shows "\<exists>a'. tp_obs ser (with_buf p t) = (r, a', True) \<and> a = map At_Text x @ a'"
proof (cases rule: split_lt [of t])
  case 1
  then show ?thesis
    using assms obs_text_flush [OF assms(1), of t] obs_text_flush [OF assms(1), of "x @ t"] by auto
next
  case (2 y z)
  have xy: "CHR ''<'' \<notin> set (x @ y)" "x @ t = (x @ y) @ CHR ''<'' # z" using 2 assms(2) by auto
  note s1 = step_text_at [OF xy(1), where p = p and y = z, folded xy(2)]
  note s2 = step_text_at [OF 2(2), where p = p and y = z, folded 2(1)]
  obtain f q e where st: "tp_step ser (with_buf p (x @ t)) = (f, q, e)"
    by (cases "tp_step ser (with_buf p (x @ t))") auto
  then have "\<exists>e'. tp_step ser (with_buf p t) = (f, q, e') \<and> atoms e = map At_Text x @ atoms e'"
    using assms(1)
    by (cases "decide_tag fn_open (CHR ''<'' # z)") (auto simp: tp_step_def s1 s2 Let_def)
  with st show ?thesis using assms(1) obs_same_step [OF st _ _ assms(3)] by auto
qed

lemma obs_skip_function:
  assumes "tp_state p = St_Function" and "CHR ''<'' \<notin> set x"
  shows "tp_obs ser (with_buf p (x @ t)) = tp_obs ser (with_buf p t)"
proof -
  have *: "tp_obs ser (with_buf p (y @ CHR ''<'' # z)) = tp_obs ser (with_buf p (CHR ''<'' # z))"
    if "CHR ''<'' \<notin> set y" for y z
    using assms(1) step_function_skip [OF that]
    by (cases "y = []") (auto simp: obs_True tp_step_def split: prod.splits)
  show ?thesis
  proof (cases rule: split_lt [of t])
    case 1
    with assms(2) step_function_none [of t ser p] step_function_none [of "x @ t" ser p]
    have "tp_step ser (with_buf p (x @ t)) = tp_step ser (with_buf p t)"
      "tp_step ser (with_buf p t) = (False, with_buf p [], [])"
      using assms(1) by (auto simp: tp_step_def)
    then show ?thesis using assms(1) by (simp add: obs_False)
  next
    case (2 y z)
    with * [of "x @ y" z] * [of y z] assms(2) show ?thesis by simp
  qed
qed

lemma param_flush_step:
  assumes "CHR ''<'' \<notin> set x" and "x \<noteq> []"
  shows "step_param (with_buf p x) = (True, with_buf (emit p x) [], [Ev_Param (param_name p) x])"
proof -
  obtain c cs where "x = c # cs" "c \<noteq> CHR ''<''" using assms by (cases x) auto
  then have "\<not> prefix cdata_open x" "\<not> viable_prefix x cdata_open"
    by (auto simp: cdata_open_def viable_prefix_def)
  then show ?thesis
    using assms by (auto simp: step_param_def emit_param_value_def find_char_None [THEN iffD2])
qed

lemma param_clean_no_lt:
  assumes "CHR ''<'' \<notin> set (tp_buf p)"
  shows "param_clean p"
proof -
  have "\<not> occurs_at ''<!'' (tp_buf p) i" for i
    using assms occurs_at_nth [of "CHR ''<''" "''!''" "tp_buf p" i] by (metis nth_mem)
  then show ?thesis by (simp add: param_clean_iff)
qed

lemma obs_param_flush:
  assumes "tp_state p = St_Param" and "CHR ''<'' \<notin> set x"
  shows "tp_obs ser (with_buf p x) = (with_buf (emit p x) [], map (At_Param (param_name p)) x, True)"
proof -
  have e: "tp_obs ser (with_buf p' []) = (with_buf p' [], [], True)" if "tp_state p' = St_Param" for p'
    using that
    by (subst obs_False [where q = "with_buf p' []" and e = "[]"])
       (auto simp: tp_step_def step_param_def viable_prefix_def cdata_open_def param_clean_no_lt)
  show ?thesis
  proof (cases "x = []")
    case False
    have "tp_step ser (with_buf p x) = (True, with_buf (emit p x) [], [Ev_Param (param_name p) x])"
      using assms(1) param_flush_step [OF assms(2) False] by (simp add: tp_step_def)
    from obs_True [OF this] e [of "emit p x"] assms show ?thesis by (simp add: param_clean_no_lt)
  qed (use e assms(1) in simp)
qed

lemma obs_skip_param:
  assumes "tp_state p = St_Param" and "CHR ''<'' \<notin> set x" and "x \<noteq> []"
    and "tp_obs ser (with_buf p (x @ t)) = (r, a, True)"
  shows "\<exists>a'. tp_obs ser (with_buf (emit p x) t) = (r, a', True) \<and> a = map (At_Param (param_name p)) x @ a'"
proof (cases rule: split_lt [of t])
  case 1
  then show ?thesis
    using assms obs_param_flush [OF assms(1), of "x @ t"] obs_param_flush [of "emit p x" t] by auto
next
  case (2 y z)
  let ?p = "emit p x"
  have xy: "CHR ''<'' \<notin> set (x @ y)" "x @ y \<noteq> []" "x @ t = (x @ y) @ CHR ''<'' # z"
    using 2 assms(2,3) by auto
  have clean: "param_clean (with_buf p (x @ t))"
    using assms(4) by (subst (asm) tp_obs.simps) (auto split: prod.splits bool.splits)
  have z: "\<not> prefix ''!'' z"
  proof
    assume "prefix ''!'' z"
    then have "occurs_at ''<!'' (x @ t) (Suc (length (x @ y) - 1))"
      using xy(2) unfolding xy(3) by (auto simp: occurs_at_def simp del: append_assoc)
    moreover have "\<not> prefix cdata_open (x @ t)"
      using assms(2,3) by (cases x) (auto simp: cdata_open_def)
    ultimately obtain j where j: "j \<le> length (x @ y) - 1" "occurs_at param_close (x @ t) j"
      using clean assms(1) by (auto simp: param_clean_iff)
    have "0 < length (x @ y)" using xy(2) by simp
    with j(1) have "j < length (x @ y)" by linarith
    moreover have "(x @ t) ! j = CHR ''<''"
      using j(2) occurs_at_nth by (auto simp: param_close_def)
    ultimately show False using xy(1) unfolding xy(3) by (metis nth_append nth_mem)
  qed
  obtain f q e where tail: "param_tail (emit p (x @ y)) z = (f, q, e)"
    by (cases "param_tail (emit p (x @ y)) z") auto
  have st: "tp_step ser (with_buf p (x @ t)) = (f, q, Ev_Param (param_name p) (x @ y) # e)"
    using assms(1) step_param_at [OF xy(1,2), where p = p and y = z, folded xy(3)] tail
    by (simp add: tp_step_def)
  have "\<exists>e'. tp_step ser (with_buf ?p t) = (f, q, e') \<and>
      atoms (Ev_Param (param_name p) (x @ y) # e) = map (At_Param (param_name p)) x @ atoms e'"
  proof (cases "y = []")
    case True
    then show ?thesis
      using assms(1) 2(1) tail step_param_lt_clean [OF z, of ?p] by (simp add: tp_step_def)
  next
    case False
    then show ?thesis
      using assms(1) 2(1) tail step_param_at [OF 2(2) False, where p = ?p and y = z]
      by (simp add: tp_step_def)
  qed
  with obs_same_step [OF st _ _ assms(4)] param_clean_skip [OF _ assms(2,3)] show ?thesis by blast
qed

lemma step_cdata_cut:
  assumes c: "is_char_boundary s c" "c + 2 \<le> length s" "0 < c"
    and none: "\<And>j. j < c \<Longrightarrow> \<not> occurs_at cdata_close s j"
    and st: "step_cdata (with_buf p s) = (f, q, e)"
  shows "\<exists>e'. step_cdata (with_buf (emit p (take c s)) (drop c s)) = (f, q, e') \<and>
    atoms e = map (At_Param (param_name p)) (take c s) @ atoms e'"
proof (cases "str_find cdata_close s")
  case (Some i)
  then have i: "occurs_at cdata_close s i" "\<And>j. j < i \<Longrightarrow> \<not> occurs_at cdata_close s j"
    by (auto dest: str_find_SomeD)
  then have "c \<le> i" using none by (meson not_le)
  have "str_find cdata_close (drop c s) = Some (i - c)"
    using i \<open>c \<le> i\<close> c(2) by (intro str_find_SomeI) (auto simp: occurs_at_drop)
  moreover have "take i s = take c s @ take (i - c) (drop c s)"
    using \<open>c \<le> i\<close> by (metis le_add_diff_inverse take_add)
  ultimately show ?thesis
    using Some st \<open>c \<le> i\<close>
    by (auto simp: step_cdata_def Let_def emit_param_value_def)
next
  case None
  then have "\<not> occurs_at cdata_close (drop c s) j" for j
    using c(2) occurs_at_drop [of c s cdata_close j] unfolding str_find_None by simp
  then have None': "str_find cdata_close (drop c s) = None" unfolding str_find_None by blast
  define k where "k = floor_char_boundary (drop c s) (length s - c - 2)"
  have cut: "floor_char_boundary s (length s - 2) = c + k"
    using floor_drop [OF c(1), of "length s - c - 2"] c(2) by (simp add: k_def)
  have "take (c + k) s = take c s @ take k (drop c s)" by (rule take_add)
  moreover have "length s - c \<le> 2 \<Longrightarrow> k = 0" using floor_le [of "drop c s" 0] by (simp add: k_def)
  ultimately show ?thesis
    using None None' st c cut k_def
    by (cases "k = 0")
       (auto simp: step_cdata_def Let_def emit_param_value_def cdata_close_def numeral_2_eq_2 add.commute)
qed

lemma obs_skip_cdata:
  assumes "tp_state p = St_Cdata" and "str_find cdata_close b = None"
    and c: "c = floor_char_boundary b (length b - 2)" "0 < c" "2 < length b"
    and "tp_obs ser (with_buf p (b @ t)) = (r, a, True)"
  shows "\<exists>a'. tp_obs ser (with_buf (emit p (take c b)) (drop c b @ t)) = (r, a', True) \<and>
    a = map (At_Param (param_name p)) (take c b) @ a'"
proof -
  have le: "c + 2 \<le> length b" using floor_le [of b "length b - 2"] c by linarith
  have "is_char_boundary b c" using c(1) floor_boundary by simp
  with le have bd: "is_char_boundary (b @ t) c"
    by (auto simp: is_char_boundary_def nth_append split: if_splits)
  have none: "\<not> occurs_at cdata_close (b @ t) j" if "j < c" for j
    using assms(2) that le occurs_at_append_cut [of cdata_close b t j]
    unfolding str_find_None cdata_close_def by auto
  obtain f q e where st: "step_cdata (with_buf p (b @ t)) = (f, q, e)"
    by (cases "step_cdata (with_buf p (b @ t))") auto
  have "c + 2 \<le> length (b @ t)" using le by simp
  from step_cdata_cut [OF bd this c(2) none st] le obtain e' where
    "step_cdata (with_buf (emit p (take c b)) (drop c b @ t)) = (f, q, e')"
    "atoms e = map (At_Param (param_name p)) (take c b) @ atoms e'" by auto
  with assms(1,6) st show ?thesis
    by (intro obs_same_step [of ser "with_buf p (b @ t)" f q e _ e']) (auto simp: tp_step_def)
qed

subsection \<open>Fragmentation does not matter\<close>

text \<open>Running on the first part and then on the rest ends where one run on the whole ends.\<close>

lemma obs_wait:
  assumes "tp_step ser (with_buf p b) = (False, q, e)"
    and "tp_obs ser (with_buf p (b @ t)) = (r, a, True)"
  shows "\<exists>a'. tp_obs ser (with_buf q (tp_buf q @ t)) = (r, a', True) \<and> a = atoms e @ a'"
proof (cases "tp_state p")
  case St_Text
  show ?thesis
  proof (cases rule: split_lt [of b])
    case 1
    with assms(1) St_Text have "b = []" "q = with_buf p []" "e = []"
      by (auto simp: tp_step_def step_text_def find_char_None [THEN iffD2] split: if_splits)
    with assms(2) show ?thesis by simp
  next
    case (2 x y)
    with assms(1) St_Text have "q = with_buf p (CHR ''<'' # y)" "atoms e = map At_Text x"
      by (auto simp: tp_step_def step_text_at Let_def split: tag_decision.splits if_splits)
    with obs_skip_text [OF St_Text 2(2), of ser "CHR ''<'' # y @ t" r a] assms(2) 2(1)
    show ?thesis by simp
  qed
next
  case St_Function
  show ?thesis
  proof (cases rule: split_lt [of b])
    case 1
    with assms(1) St_Function have "q = with_buf p []" "e = []"
      by (auto simp: tp_step_def step_function_none)
    with obs_skip_function [OF St_Function 1] assms(2) show ?thesis by simp
  next
    case (2 x y)
    with assms(1) St_Function have "x = []"
      by (cases "x = []") (auto simp: tp_step_def step_function_skip)
    with 2 assms(1) St_Function have "q = with_buf p b" "e = []"
      by (auto simp: tp_step_def step_function_at Let_def split: tag_decision.splits if_splits)
    with assms(2) show ?thesis by simp
  qed
next
  case St_Param
  show ?thesis
  proof (cases rule: split_lt [of b])
    case 1
    with assms(1) St_Param have "b = []"
      using param_flush_step [OF 1, of p] by (auto simp: tp_step_def)
    with assms(1) St_Param have "q = with_buf p []" "e = []"
      by (auto simp: tp_step_def step_param_def viable_prefix_def cdata_open_def)
    with \<open>b = []\<close> assms(2) show ?thesis by simp
  next
    case (2 x y)
    show ?thesis
    proof (cases "x = []")
      case True
      with 2 assms(1) St_Param have "q = with_buf p b" "e = []"
        by (auto simp: tp_step_def step_param_def Let_def emit_param_value_def split: if_splits)
      with assms(2) show ?thesis by simp
    next
      case False
      with 2 assms(1) St_Param have q: "q = with_buf (emit p x) (CHR ''<'' # y)" "e = [Ev_Param (param_name p) x]"
        by (auto simp: tp_step_def step_param_at param_tail_def Let_def split: if_splits)
      with obs_skip_param [OF St_Param 2(2) False, of ser "CHR ''<'' # y @ t" r a] assms(2) 2(1)
      show ?thesis by simp
    qed
  qed
next
  case St_Cdata
  let ?c = "floor_char_boundary b (length b - 2)"
  show ?thesis
  proof (cases "2 < length b \<and> 0 < ?c")
    case True
    with assms(1) St_Cdata have "str_find cdata_close b = None"
      "q = with_buf (emit p (take ?c b)) (drop ?c b)" "e = [Ev_Param (param_name p) (take ?c b)]"
      by (auto simp: tp_step_def step_cdata_def Let_def emit_param_value_def cdata_close_def
               numeral_2_eq_2 split: option.splits)
    with obs_skip_cdata [OF St_Cdata _ refl, of b ser t r a] True assms(2) show ?thesis by simp
  next
    case False
    with assms(1) St_Cdata have "q = with_buf p b" "e = []"
      by (auto simp: tp_step_def step_cdata_def Let_def emit_param_value_def cdata_close_def
               numeral_2_eq_2 split: option.splits)
    with assms(2) show ?thesis by simp
  qed
qed

lemma obs_run_append:
  "run_steps ser (with_buf p b) = (q, es) \<Longrightarrow> tp_obs ser (with_buf p (b @ t)) = (r, a, True) \<Longrightarrow>
   \<exists>a'. tp_obs ser (with_buf q (tp_buf q @ t)) = (r, a', True) \<and> a = atoms es @ a'"
proof (induction "length b" arbitrary: p b es a rule: less_induct)
  case less
  obtain f q1 e where st: "tp_step ser (with_buf p b) = (f, q1, e)"
    by (cases "tp_step ser (with_buf p b)") auto
  show ?case
  proof (cases f)
    case False
    with st less.prems obs_wait [of ser b p q1 e t r a] show ?thesis by (simp add: run_False)
  next
    case True
    with st have st: "tp_step ser (with_buf p b) = (True, q1, e)" by simp
    obtain es1 where es1: "run_steps ser q1 = (q, es1)" "es = e @ es1"
      using less.prems(1) run_True [OF st] by (auto split: prod.splits)
    show ?thesis
    proof (cases "(tp_state p = St_Text \<or> tp_state p = St_Param) \<and> CHR ''<'' \<notin> set b")
      case False
      then have "tp_step ser (with_buf p (b @ t)) = (True, with_buf q1 (tp_buf q1 @ t), e)"
        using tp_step_more [OF st] by blast
      then obtain a1 where "tp_obs ser (with_buf q1 (tp_buf q1 @ t)) = (r, a1, True)" "a = atoms e @ a1"
        using less.prems(2) by (auto simp: obs_True split: prod.splits)
      moreover have "length (tp_buf q1) < length b" using tp_step_shorter [OF st] by simp
      ultimately show ?thesis using less.hyps [of "tp_buf q1" q1 es1 a1] es1 by auto
    next
      case True
      then have "b \<noteq> []"
        using st by (auto simp: tp_step_def step_text_def step_param_def viable_prefix_def cdata_open_def)
      consider "tp_state p = St_Text" "q1 = with_buf p []" "e = [Ev_Text b]"
        | "tp_state p = St_Param" "q1 = with_buf (emit p b) []" "e = [Ev_Param (param_name p) b]"
        using True st \<open>b \<noteq> []\<close> param_flush_step [where x = b and p = p]
        by (auto simp: tp_step_def step_text_def find_char_None [THEN iffD2])
      then show ?thesis
      proof cases
        case 1
        then have "run_steps ser q1 = (q1, [])"
          by (intro run_False) (simp add: tp_step_def step_text_def)
        with es1 1 True obs_skip_text [OF 1(1) _ less.prems(2)] show ?thesis by simp
      next
        case 2
        then have "run_steps ser q1 = (q1, [])"
          by (intro run_False) (simp add: tp_step_def step_param_def viable_prefix_def cdata_open_def)
        with es1 2 True obs_skip_param [OF 2(1) _ \<open>b \<noteq> []\<close> less.prems(2)] show ?thesis by simp
      qed
    qed
  qed
qed

lemma obs_feed:
  "tp_obs ser (with_buf p (tp_buf p @ concat (f # fs))) = (r, a, True) \<Longrightarrow>
   \<exists>es. tp_feed ser p (f # fs) = (r, es) \<and> atoms es = a"
proof (induction fs arbitrary: p f a)
  case Nil
  obtain q es where "run_steps ser (with_buf p (tp_buf p @ f)) = (q, es)"
    by (cases "run_steps ser (with_buf p (tp_buf p @ f))") auto
  with Nil obs_run [of ser "with_buf p (tp_buf p @ f)"] show ?case by (auto simp: tp_push_def)
next
  case (Cons g gs)
  obtain q es where q: "run_steps ser (with_buf p (tp_buf p @ f)) = (q, es)"
    by (cases "run_steps ser (with_buf p (tp_buf p @ f))") auto
  from obs_run_append [OF q, of "concat (g # gs)" r a] Cons.prems obtain a' where
    "tp_obs ser (with_buf q (tp_buf q @ concat (g # gs))) = (r, a', True)" "a = atoms es @ a'" by auto
  with Cons.IH [of q g a'] q show ?case by (auto simp: tp_push_def simp del: concat.simps)
qed

text \<open>A text is safe to cut anywhere when every parameter it holds is clean.\<close>

definition chunk_safe :: "(json \<Rightarrow> string) \<Rightarrow> string \<Rightarrow> bool" where
  "chunk_safe ser s \<longleftrightarrow> snd (snd (tp_obs ser (with_buf tp_new s)))"

lemma parse_chunks:
  assumes "chunk_safe ser (concat fs)"
  shows "fst (tp_parse ser fs) = fst (tp_parse ser [concat fs]) \<and>
    atoms (snd (tp_parse ser fs)) = atoms (snd (tp_parse ser [concat fs]))"
proof (cases fs)
  case Nil
  have "run_steps ser (with_buf tp_new []) = (with_buf tp_new [], [])"
    by (rule run_False) (simp add: tp_step_def step_text_def tp_new_def)
  then have "tp_push ser tp_new [] = (tp_new, [])"
    by (simp add: tp_push_def tp_new_def)
  with Nil show ?thesis by (simp add: tp_parse_def)
next
  case (Cons f gs)
  obtain r a where o: "tp_obs ser (with_buf tp_new (concat fs)) = (r, a, True)"
    using assms by (cases "tp_obs ser (with_buf tp_new (concat fs))") (auto simp: chunk_safe_def)
  have new: "tp_buf tp_new = []" by (simp add: tp_new_def)
  from obs_feed [of ser tp_new f gs r a] o Cons new obtain es where
    "tp_feed ser tp_new fs = (r, es)" "atoms es = a" by auto
  moreover from obs_feed [of ser tp_new "concat fs" "[]" r a] o new obtain es' where
    "tp_feed ser tp_new [concat fs] = (r, es')" "atoms es' = a" by auto
  ultimately show ?thesis by (auto simp: tp_parse_def split: prod.splits)
qed

text \<open>Every pass leaves a suffix of its buffer, so a text without \<open><!\<close> is safe.\<close>

lemma tp_step_suffix: "tp_step ser p = (f, q, e) \<Longrightarrow> suffix (tp_buf q) (tp_buf p)"
  by (cases "tp_state p")
     (auto simp: tp_step_def step_defs Let_def close_function_def close_param_def emit_param_value_def
                 suffix_drop
           split: option.splits if_splits prod.splits
           intro: suffix_order.trans [OF suffix_drop suffix_drop])

lemma occurs_at_suffix: "suffix s t \<Longrightarrow> occurs_at pat s i \<Longrightarrow> \<exists>j. occurs_at pat t j"
  using occurs_at_shift by (fastforce simp: suffix_def)

lemma no_bang_safe:
  "\<forall>i. \<not> occurs_at ''<!'' (tp_buf p) i \<Longrightarrow> snd (snd (tp_obs ser p))"
proof (induction "length (tp_buf p)" arbitrary: p rule: less_induct)
  case less
  obtain f q e where st: "tp_step ser p = (f, q, e)" by (cases "tp_step ser p") auto
  have "param_clean p" using less.prems by (simp add: param_clean_iff)
  moreover have "\<forall>i. \<not> occurs_at ''<!'' (tp_buf q) i"
    using less.prems occurs_at_suffix [OF tp_step_suffix [OF st]] by blast
  ultimately show ?case
    using st less.hyps [of q] tp_step_shorter [of ser p q e]
    by (cases f) (auto simp: obs_True obs_False split: prod.splits)
qed

lemma chunk_safe_no_bang: "\<forall>i. \<not> occurs_at ''<!'' s i \<Longrightarrow> chunk_safe ser s"
  unfolding chunk_safe_def by (rule no_bang_safe) simp

subsection \<open>Rendered calls\<close>

text \<open>
  The form the chat template gives a call, values with \<open><\<close>, \<open>&\<close> or a newline in CDATA, and a
  conversation: stretches of text, each followed by a call.
\<close>

definition needs_cdata :: "string \<Rightarrow> bool" where
  "needs_cdata v \<longleftrightarrow> CHR ''<'' \<in> set v \<or> CHR ''&'' \<in> set v \<or> NL \<in> set v"

definition render_tag :: "string \<Rightarrow> string \<Rightarrow> string" where
  "render_tag tag name = tag @ '' name='' @ [DQ] @ name @ [DQ] @ ''>''"

definition render_value :: "string \<Rightarrow> string" where
  "render_value v = (if needs_cdata v then cdata_open @ v @ cdata_close else v)"

definition render_param :: "string \<times> string \<Rightarrow> string" where
  "render_param kv = render_tag param_open (fst kv) @ render_value (snd kv) @ param_close"

definition render_call :: "string \<Rightarrow> (string \<times> string) list \<Rightarrow> string" where
  "render_call name params =
     render_tag fn_open name @ concat (map render_param params) @ fn_close"

type_synonym call_doc = "(string \<times> string \<times> (string \<times> string) list) list"

fun render_doc :: "call_doc \<Rightarrow> string" where
  "render_doc [] = []"
| "render_doc ((x, name, params) # d) = x @ render_call name params @ render_doc d"

fun doc_calls :: "(json \<Rightarrow> string) \<Rightarrow> nat \<Rightarrow> call_doc \<Rightarrow> tool_call list" where
  "doc_calls ser n [] = []"
| "doc_calls ser n ((x, name, params) # d) = finalize_call ser name params n # doc_calls ser (n + 1) d"

fun doc_text :: "call_doc \<Rightarrow> string" where
  "doc_text [] = []"
| "doc_text ((x, name, params) # d) = x @ doc_text d"

definition good_name :: "string \<Rightarrow> bool" where
  "good_name n \<longleftrightarrow>
     (\<forall>c \<in> set n. 33 \<le> (of_char c :: nat) \<and> (of_char c :: nat) < 127 \<and> c \<noteq> CHR ''>'' \<and> c \<noteq> CHR ''&'')"

definition good_value :: "string \<Rightarrow> bool" where
  "good_value v \<longleftrightarrow> str_find cdata_close v = None"

definition good_doc :: "call_doc \<Rightarrow> bool" where
  "good_doc d \<longleftrightarrow>
     (\<forall>(x, name, params) \<in> set d. CHR ''<'' \<notin> set x \<and> good_name name \<and>
        (\<forall>(k, v) \<in> set params. good_name k \<and> good_value v))"

lemma ws_at_plain: "33 \<le> (of_char c :: nat) \<Longrightarrow> (of_char c :: nat) < 127 \<Longrightarrow> ws_at (c # cs) = 0"
  by (cases cs; cases "tl cs") (auto simp: ws_at_def numeral_3_eq_3)

lemma split_ws_plain:
  "\<forall>c \<in> set s. 33 \<le> (of_char c :: nat) \<and> (of_char c :: nat) < 127 \<Longrightarrow>
   split_ws w s = (if w @ s = [] then [] else [w @ s])"
  by (induction s arbitrary: w) (auto simp: ws_at_plain)

lemma str_replace_none: "c \<notin> set v \<Longrightarrow> str_replace (c # cs) to v = v"
  by (induction v) auto

lemma decode_attr_plain: "CHR ''&'' \<notin> set v \<Longrightarrow> decode_attr v = v"
  by (simp add: decode_attr_def str_replace_none)

lemma split_name_attr:
  assumes "good_name n"
  shows "split_whitespace ('' name='' @ [DQ] @ n @ [DQ]) = [''name='' @ [DQ] @ n @ [DQ]]"
proof -
  let ?a = "''name='' @ [DQ] @ n @ [DQ]"
  have "\<forall>c \<in> set ?a. 33 \<le> (of_char c :: nat) \<and> (of_char c :: nat) < 127"
    using assms by (auto simp: good_name_def)
  moreover have "ws_at (CHR '' '' # ?a) = 1" by (simp add: ws_at_def numeral_3_eq_3)
  ultimately have "split_ws [] (CHR '' '' # ?a) = [?a]"
    by (subst split_ws.simps) (simp add: split_ws_plain del: split_ws.simps)
  then show ?thesis by (simp add: split_whitespace_def)
qed

lemma parse_attr_name:
  "good_name n \<Longrightarrow> parse_attr ''name'' [''name='' @ [DQ] @ n @ [DQ]] = Some n"
  using decode_attr_plain [of n]
  by (auto simp: strip_prefix_def strip_suffix_def suffix_def good_name_def)

lemma decide_rendered:
  assumes "good_name n" and "CHR ''>'' \<notin> set tag"
  shows "decide_tag tag (render_tag tag n @ rest) = D_Tag n"
    and "drop (tag_len (render_tag tag n @ rest)) (render_tag tag n @ rest) = rest"
proof -
  let ?pre = "tag @ '' name='' @ [DQ] @ n @ [DQ]"
  have b: "render_tag tag n @ rest = ?pre @ CHR ''>'' # rest" by (simp add: render_tag_def)
  have "CHR ''>'' \<notin> set ?pre" using assms by (auto simp: good_name_def)
  then have f: "str_find ''>'' (?pre @ CHR ''>'' # rest) = Some (length ?pre)"
    by (rule find_char_append)
  have d: "drop (length tag) (take (length ?pre) (?pre @ CHR ''>'' # rest)) = '' name='' @ [DQ] @ n @ [DQ]"
    by (subst take_append) simp
  have pr: "prefix tag (?pre @ CHR ''>'' # rest)" by simp
  have "parse_tag (?pre @ CHR ''>'' # rest) tag ''name'' = Some n"
    unfolding parse_tag_def f option.case d split_name_attr [OF assms(1)] parse_attr_name [OF assms(1)]
    using pr by argo
  then show "decide_tag tag (render_tag tag n @ rest) = D_Tag n"
    unfolding b by (simp add: decide_tag_def)
  show "drop (tag_len (render_tag tag n @ rest)) (render_tag tag n @ rest) = rest"
    unfolding b using f by (simp add: tag_len_def del: append_assoc)
qed

definition pre_obs ::
  "tp_atom list \<Rightarrow> tool_parser \<times> tp_atom list \<times> bool \<Rightarrow> tool_parser \<times> tp_atom list \<times> bool" where
  "pre_obs a x = (case x of (r, a', c) \<Rightarrow> (r, a @ a', c))"

lemma pre_obs_simps [simp]:
  "pre_obs [] x = x" "pre_obs a (pre_obs b x) = pre_obs (a @ b) x" "pre_obs a (r, a', c) = (r, a @ a', c)"
  by (simp_all add: pre_obs_def split: prod.splits)

lemma obs_True_clean:
  "tp_step ser p = (True, q, e) \<Longrightarrow> param_clean p \<Longrightarrow> tp_obs ser p = pre_obs (atoms e) (tp_obs ser q)"
  by (auto simp: obs_True pre_obs_def split: prod.splits)

lemma obs_call_start:
  assumes "tp_state p = St_Text" and "CHR ''<'' \<notin> set x" and "good_name n"
  shows "tp_obs ser (with_buf p (x @ render_tag fn_open n @ rest)) =
    pre_obs (map At_Text x @ [At_Start n])
      (tp_obs ser (p\<lparr>tp_state := St_Function, current_name := n, tp_buf := rest\<rparr>))"
proof -
  have g: "CHR ''>'' \<notin> set fn_open" by (simp add: fn_open_def)
  obtain y where y: "render_tag fn_open n @ rest = CHR ''<'' # y"
    by (simp add: render_tag_def fn_open_def)
  have "tp_step ser (with_buf p (x @ CHR ''<'' # y)) =
      (True, p\<lparr>tp_state := St_Function, current_name := n, tp_buf := rest\<rparr>,
       (if x \<noteq> [] then [Ev_Text x] else []) @ [Ev_Start n])"
    using assms(1) decide_rendered [OF assms(3) g, of rest] unfolding y
    by (simp add: tp_step_def step_text_at [OF assms(2)] Let_def)
  from obs_True_clean [OF this] assms(1) show ?thesis unfolding y by simp
qed

lemma obs_param_start:
  assumes "tp_state p = St_Function" and "good_name k"
  shows "tp_obs ser (with_buf p (render_tag param_open k @ rest)) =
    tp_obs ser (p\<lparr>tp_state := St_Param, param_name := k, param_value := [], tp_buf := rest\<rparr>)"
proof -
  have g: "CHR ''>'' \<notin> set param_open" by (simp add: param_open_def)
  obtain y where y: "render_tag param_open k @ rest = CHR ''<'' # y" and c: "\<not> prefix fn_close (CHR ''<'' # y)"
    by (simp add: render_tag_def tag_defs)
  have "tp_step ser (with_buf p (CHR ''<'' # y)) =
      (True, p\<lparr>tp_state := St_Param, param_name := k, param_value := [], tp_buf := rest\<rparr>, [])"
    using assms(1) c decide_rendered [OF assms(2) g, of rest] unfolding y
    by (simp add: tp_step_def step_function_at Let_def)
  from obs_True_clean [OF this] assms(1) show ?thesis unfolding y by simp
qed

lemma obs_call_end:
  assumes "tp_state p = St_Function"
  shows "tp_obs ser (with_buf p (fn_close @ rest)) =
    pre_obs (atoms (snd (close_function ser (with_buf p rest)))) (tp_obs ser (fst (close_function ser (with_buf p rest))))"
  using assms by (intro obs_True_clean) (auto simp: tp_step_def step_function_close)

definition end_param :: "tool_parser \<Rightarrow> string \<Rightarrow> tool_parser" where
  "end_param p rest = (close_param (with_buf p rest))\<lparr>tp_state := St_Function\<rparr>"

lemma param_clean_close:
  assumes "CHR ''<'' \<notin> set v"
  shows "param_clean (with_buf p (v @ param_close @ rest))"
  unfolding param_clean_iff
proof (intro impI allI)
  let ?b = "tp_buf (with_buf p (v @ param_close @ rest))"
  fix i assume o: "occurs_at ''<!'' ?b (Suc i)"
  have "length v \<le> i"
  proof (rule ccontr)
    assume "\<not> length v \<le> i"
    then consider "Suc i < length v" | "Suc i = length v" by linarith
    then show False
    proof cases
      case 1
      with o occurs_at_nth [of "CHR ''<''" "''!''" ?b "Suc i"] assms show False
        by (auto simp: nth_append) (metis nth_mem)
    next
      case 2
      with o have "prefix ''<!'' (param_close @ rest)" by (simp add: occurs_at_def)
      then show False by (simp add: param_close_def)
    qed
  qed
  moreover have "occurs_at param_close ?b (length v)" by (simp add: occurs_at_def)
  ultimately show "\<exists>j\<le>i. occurs_at param_close ?b j" by blast
qed

lemma param_tail_close:
  "CHR ''<'' # y = param_close @ rest \<Longrightarrow> param_tail p y = (True, end_param p rest, [])"
  by (simp add: param_tail_def end_param_def Let_def)

lemma obs_plain_value:
  assumes "tp_state p = St_Param" and "CHR ''<'' \<notin> set v"
  shows "tp_obs ser (with_buf p (v @ param_close @ rest)) =
    pre_obs (map (At_Param (param_name p)) v) (tp_obs ser (end_param (emit p v) rest))"
proof -
  obtain y where y: "param_close @ rest = CHR ''<'' # y" and "\<not> prefix ''!'' y"
    by (simp add: param_close_def)
  then have "tp_step ser (with_buf p (v @ param_close @ rest)) =
      (True, end_param (emit p v) rest, if v = [] then [] else [Ev_Param (param_name p) v])"
    using assms step_param_lt_clean [of y p] param_tail_close [of y rest, OF y [symmetric]]
    by (cases "v = []") (simp_all add: tp_step_def step_param_at)
  from obs_True_clean [OF this param_clean_close [OF assms(2)]] show ?thesis
    by (cases "v = []") auto
qed

lemma occurs_at_close: "occurs_at cdata_close s j \<Longrightarrow> s ! (j + 2) = CHR ''>''"
proof -
  assume o: "occurs_at cdata_close s j"
  then obtain zs where "drop j s = '']]>'' @ zs" by (auto simp: occurs_at_def prefix_def cdata_close_def)
  moreover have "drop j s ! 2 = s ! (j + 2)" using o by (simp add: occurs_at_def)
  ultimately show ?thesis by simp
qed

lemma obs_value:
  assumes "tp_state p = St_Param" and "good_value v"
  shows "tp_obs ser (with_buf p (render_value v @ param_close @ rest)) =
    pre_obs (map (At_Param (param_name p)) v) (tp_obs ser (end_param (emit p v) rest))"
proof (cases "needs_cdata v")
  case False
  with obs_plain_value [OF assms(1)] show ?thesis by (simp add: render_value_def needs_cdata_def)
next
  case True
  let ?r = "v @ cdata_close @ param_close @ rest"
  let ?q = "p\<lparr>tp_state := St_Cdata, tp_buf := ?r\<rparr>"
  have "tp_step ser (with_buf p (cdata_open @ ?r)) = (True, ?q, [])"
    using assms(1) by (simp add: tp_step_def step_param_def)
  from obs_True_clean [OF this]
  have 1: "tp_obs ser (with_buf p (cdata_open @ ?r)) = tp_obs ser ?q"
    by (simp add: param_clean_def)
  have "str_find cdata_close ?r = Some (length v)"
  proof (rule str_find_SomeI)
    fix j assume "j < length v"
    show "\<not> occurs_at cdata_close ?r j"
    proof
      assume o: "occurs_at cdata_close ?r j"
      have "\<not> occurs_at cdata_close v j" using assms(2) unfolding good_value_def str_find_None by blast
      then have "\<not> j + 3 \<le> length v"
        using occurs_at_append_cut [OF o] by (auto simp: cdata_close_def numeral_3_eq_3)
      then have "length v \<le> j + 2" and k: "j + 2 - length v = 0 \<or> j + 2 - length v = 1"
        using \<open>j < length v\<close> by linarith+
      then have "?r ! (j + 2) = CHR '']''"
        by (auto simp: nth_append cdata_close_def)
      with occurs_at_close [OF o] show False by simp
    qed
  qed (simp add: occurs_at_def)
  then have "tp_step ser ?q =
      (True, with_buf (emit p v) (param_close @ rest), [Ev_Param (param_name p) v])"
    using assms(1) by (simp add: tp_step_def step_cdata_def emit_param_value_def Let_def)
  from obs_True_clean [OF this]
  have 2: "tp_obs ser ?q = pre_obs (map (At_Param (param_name p)) v)
      (tp_obs ser (with_buf (emit p v) (param_close @ rest)))"
    by simp
  from 1 2 True obs_plain_value [of "emit p v" "[]" ser rest] assms(1)
  show ?thesis by (simp add: render_value_def)
qed

definition param_atoms :: "(string \<times> string) list \<Rightarrow> tp_atom list" where
  "param_atoms params = concat (map (\<lambda>(k, v). map (At_Param k) v) params)"

lemma obs_params:
  assumes "\<forall>(k, v) \<in> set params. good_name k \<and> good_value v"
    and "tp_state p = St_Function" and "param_name p = []" and "param_value p = []"
  shows "tp_obs ser (with_buf p (concat (map render_param params) @ rest)) =
    pre_obs (param_atoms params)
      (tp_obs ser (p\<lparr>current_params := current_params p @ params, tp_buf := rest\<rparr>))"
  using assms
proof (induction params arbitrary: p)
  case Nil
  then show ?case by (simp add: param_atoms_def)
next
  case (Cons kv params)
  obtain k v where kv: "kv = (k, v)" by (cases kv)
  let ?rest = "concat (map render_param params) @ rest"
  let ?p1 = "p\<lparr>tp_state := St_Param, param_name := k, param_value := []\<rparr>"
  let ?p2 = "p\<lparr>current_params := current_params p @ [(k, v)]\<rparr>"
  have "tp_obs ser (with_buf p (render_param (k, v) @ ?rest)) =
      tp_obs ser (with_buf ?p1 (render_value v @ param_close @ ?rest))"
    using obs_param_start [of p k ser "render_value v @ param_close @ ?rest"] Cons.prems kv
    by (simp add: render_param_def)
  also have "\<dots> = pre_obs (map (At_Param k) v) (tp_obs ser (end_param (emit ?p1 v) ?rest))"
    using obs_value [of ?p1 v ser ?rest] Cons.prems kv by simp
  also have "end_param (emit ?p1 v) ?rest = with_buf ?p2 ?rest"
    using Cons.prems by (simp add: end_param_def close_param_def)
  also have "tp_obs ser (with_buf ?p2 ?rest) = pre_obs (param_atoms params)
      (tp_obs ser (?p2\<lparr>current_params := current_params ?p2 @ params, tp_buf := rest\<rparr>))"
    using Cons.prems by (intro Cons.IH) auto
  finally show ?case using kv by (simp add: param_atoms_def)
qed

definition call_atoms ::
  "(json \<Rightarrow> string) \<Rightarrow> nat \<Rightarrow> string \<times> string \<times> (string \<times> string) list \<Rightarrow> tp_atom list" where
  "call_atoms ser n c = (case c of (x, name, params) \<Rightarrow>
     map At_Text x @ At_Start name # param_atoms params @ [At_End (finalize_call ser name params n)])"

fun doc_atoms :: "(json \<Rightarrow> string) \<Rightarrow> nat \<Rightarrow> call_doc \<Rightarrow> tp_atom list" where
  "doc_atoms ser n [] = []"
| "doc_atoms ser n (c # d) = call_atoms ser n c @ doc_atoms ser (n + 1) d"

text \<open>Between calls the parser keeps only the finished calls and their number.\<close>

definition tp_idle :: "tool_call list \<Rightarrow> nat \<Rightarrow> string \<Rightarrow> tool_parser" where
  "tp_idle cs n b = tp_new\<lparr>tp_calls := cs, call_seq := n, tp_buf := b\<rparr>"

lemma obs_call:
  assumes "CHR ''<'' \<notin> set x" and "good_name name"
    and "\<forall>(k, v) \<in> set params. good_name k \<and> good_value v"
  shows "tp_obs ser (tp_idle cs n (x @ render_call name params @ rest)) =
    pre_obs (call_atoms ser n (x, name, params))
      (tp_obs ser (tp_idle (cs @ [finalize_call ser name params n]) (n + 1) rest))"
proof -
  let ?p = "tp_idle cs n []"
  let ?p1 = "?p\<lparr>tp_state := St_Function, current_name := name\<rparr>"
  let ?p2 = "?p1\<lparr>current_params := params\<rparr>"
  have "tp_obs ser (tp_idle cs n (x @ render_call name params @ rest)) =
      tp_obs ser (with_buf ?p (x @ render_tag fn_open name @ (concat (map render_param params) @ fn_close @ rest)))"
    by (simp add: tp_idle_def render_call_def)
  also have "\<dots> = pre_obs (map At_Text x @ [At_Start name])
      (tp_obs ser (with_buf ?p1 (concat (map render_param params) @ fn_close @ rest)))"
    using assms(1,2) by (subst obs_call_start) (simp_all add: tp_idle_def tp_new_def)
  also have "tp_obs ser (with_buf ?p1 (concat (map render_param params) @ fn_close @ rest)) =
      pre_obs (param_atoms params) (tp_obs ser (with_buf ?p2 (fn_close @ rest)))"
    using obs_params [OF assms(3), of ?p1 ser "fn_close @ rest"] by (simp add: tp_idle_def tp_new_def)
  also have "tp_obs ser (with_buf ?p2 (fn_close @ rest)) =
      pre_obs [At_End (finalize_call ser name params n)]
        (tp_obs ser (tp_idle (cs @ [finalize_call ser name params n]) (n + 1) rest))"
    by (subst obs_call_end) (simp_all add: close_function_def Let_def tp_idle_def tp_new_def)
  finally show ?thesis by (simp add: call_atoms_def)
qed

lemma obs_doc:
  assumes "good_doc d" and "CHR ''<'' \<notin> set x"
  shows "tp_obs ser (tp_idle cs n (render_doc d @ x)) =
    (tp_idle (cs @ doc_calls ser n d) (n + length d) [], doc_atoms ser n d @ map At_Text x, True)"
  using assms(1)
proof (induction d arbitrary: cs n)
  case Nil
  have "tp_obs ser (with_buf (tp_idle cs n []) x) = (with_buf (tp_idle cs n []) [], map At_Text x, True)"
    using assms(2) by (intro obs_text_flush) (simp_all add: tp_idle_def tp_new_def)
  then show ?case by (simp add: tp_idle_def)
next
  case (Cons c d)
  obtain y name params where c: "c = (y, name, params)" by (cases c) auto
  then have g: "CHR ''<'' \<notin> set y" "good_name name"
      "\<forall>(k, v) \<in> set params. good_name k \<and> good_value v" "good_doc d"
    using Cons.prems by (auto simp: good_doc_def)
  from obs_call [OF g(1-3), of ser cs n "render_doc d @ x"] Cons.IH [OF g(4)] c
  show ?case by simp
qed

lemma new_idle: "with_buf tp_new s = tp_idle [] 0 s" "tp_buf tp_new = []"
  by (simp_all add: tp_idle_def tp_new_def)

lemma finish_idle: "tp_finish ser (tp_idle cs n []) = (tp_idle cs n [], [Ev_Text []])"
  by (simp add: tp_finish_def tp_idle_def tp_new_def Let_def)

lemma parse_doc:
  assumes "good_doc d" and "CHR ''<'' \<notin> set x" and "concat fs = render_doc d @ x"
  shows "fst (tp_parse ser fs) = tp_idle (doc_calls ser 0 d) (length d) [] \<and>
    atoms (snd (tp_parse ser fs)) = doc_atoms ser 0 d @ map At_Text x"
proof -
  have o: "tp_obs ser (tp_idle [] 0 (concat fs)) =
      (tp_idle (doc_calls ser 0 d) (length d) [], doc_atoms ser 0 d @ map At_Text x, True)"
    using obs_doc [OF assms(1,2), of ser "[]" 0] assms(3) by simp
  then have safe: "chunk_safe ser (concat fs)"
    by (simp add: chunk_safe_def new_idle)
  from obs_feed [of ser tp_new "concat fs" "[]"] o obtain es where
    "tp_feed ser tp_new [concat fs] = (tp_idle (doc_calls ser 0 d) (length d) [], es)"
    "atoms es = doc_atoms ser 0 d @ map At_Text x"
    by (auto simp: new_idle simp del: tp_feed.simps)
  then have "fst (tp_parse ser [concat fs]) = tp_idle (doc_calls ser 0 d) (length d) [] \<and>
      atoms (snd (tp_parse ser [concat fs])) = doc_atoms ser 0 d @ map At_Text x"
    by (simp add: tp_parse_def finish_idle del: tp_feed.simps)
  with parse_chunks [OF safe] show ?thesis by simp
qed

subsection \<open>Text without calls\<close>

lemma obs_no_tag:
  "tp_state p = St_Text \<Longrightarrow> str_find fn_open (tp_buf p) = None \<Longrightarrow>
   \<exists>u w. tp_obs ser p = (with_buf p w, map At_Text u, True) \<and> tp_buf p = u @ w"
proof (induction "length (tp_buf p)" arbitrary: p rule: less_induct)
  case less
  have p: "p = with_buf p (tp_buf p)" by simp
  show ?case
  proof (cases rule: split_lt [of "tp_buf p"])
    case 1
    with obs_text_flush [OF less.prems(1) 1, of ser] show ?thesis
      by (intro exI [of _ "tp_buf p"] exI [of _ "[]"]) simp
  next
    case (2 x y)
    have "\<not> occurs_at fn_open (tp_buf p) (length x)" using less.prems(2) unfolding str_find_None by blast
    with 2(1) have np: "\<not> prefix fn_open (CHR ''<'' # y)" by (simp add: occurs_at_def)
    have st: "tp_step ser p = (case decide_tag fn_open (CHR ''<'' # y) of
        D_Wait \<Rightarrow> (False, with_buf p (CHR ''<'' # y), if x \<noteq> [] then [Ev_Text x] else [])
      | _ \<Rightarrow> (True, with_buf p y, (if x \<noteq> [] then [Ev_Text x] else []) @ [Ev_Text ''<'']))"
      using less.prems(1) step_text_at [OF 2(2), where p = p and y = y, folded 2(1)] np
      by (auto simp: tp_step_def decide_tag_def split: tag_decision.splits)
    show ?thesis
    proof (cases "decide_tag fn_open (CHR ''<'' # y) = D_Wait")
      case True
      with st obs_False [of ser p] less.prems(1) 2(1) show ?thesis
        by (intro exI [of _ x] exI [of _ "CHR ''<'' # y"]) simp
    next
      case False
      then have st: "tp_step ser p = (True, with_buf p y, (if x \<noteq> [] then [Ev_Text x] else []) @ [Ev_Text ''<''])"
        using st by (cases "decide_tag fn_open (CHR ''<'' # y)") auto
      have "str_find fn_open y = None"
        using less.prems(2) 2(1) occurs_at_shift [of fn_open "x @ ''<''" y]
        unfolding str_find_None by (auto simp del: length_append)
      then obtain u w where uw: "tp_obs ser (with_buf p y) = (with_buf p w, map At_Text u, True)" "y = u @ w"
        using less.hyps [of "with_buf p y"] less.prems(1) 2(1) by auto
      with obs_True [OF st] less.prems(1) 2(1) show ?thesis
        by (intro exI [of _ "x @ CHR ''<'' # u"] exI [of _ w]) simp
    qed
  qed
qed

lemma parse_no_tag:
  assumes "str_find fn_open (concat fs) = None"
  shows "atoms (snd (tp_parse ser fs)) = map At_Text (concat fs) \<and> tp_calls (fst (tp_parse ser fs)) = []"
proof -
  have t: "tp_state (with_buf tp_new (concat fs)) = St_Text" by (simp add: tp_new_def)
  obtain u w where o: "tp_obs ser (with_buf tp_new (concat fs)) = (with_buf tp_new w, map At_Text u, True)"
    and uw: "concat fs = u @ w"
    using obs_no_tag [OF t, of ser] assms by auto
  then have safe: "chunk_safe ser (concat fs)" by (simp add: chunk_safe_def)
  from obs_feed [of ser tp_new "concat fs" "[]"] o new_idle(2) obtain es where
    "tp_feed ser tp_new [concat fs] = (with_buf tp_new w, es)" "atoms es = map At_Text u"
    by (auto simp del: tp_feed.simps)
  moreover have "tp_finish ser (with_buf tp_new w) = (tp_new, [Ev_Text w])"
    by (simp add: tp_finish_def tp_new_def Let_def)
  ultimately have "atoms (snd (tp_parse ser [concat fs])) = map At_Text (concat fs)
      \<and> fst (tp_parse ser [concat fs]) = tp_new"
    using uw by (simp add: tp_parse_def del: tp_feed.simps)
  with parse_chunks [OF safe] show ?thesis by (simp add: tp_new_def)
qed

subsection \<open>The event stream\<close>

text \<open>
  What a consumer may rely on: text only outside calls, values only inside, every start is
  closed by an end of that name. \<open>ev_run\<close> returns the open call after the events, \<open>None\<close> when the
  order is broken.
\<close>

fun ev_run :: "string option \<Rightarrow> tool_call_event list \<Rightarrow> string option option" where
  "ev_run s [] = Some s"
| "ev_run None (Ev_Text _ # es) = ev_run None es"
| "ev_run None (Ev_Start n # es) = ev_run (Some n) es"
| "ev_run (Some n) (Ev_Param _ _ # es) = ev_run (Some n) es"
| "ev_run (Some n) (Ev_End c # es) = (if tc_name c = n then ev_run None es else None)"
| "ev_run _ _ = None"

lemma ev_run_append: "ev_run s es = Some s' \<Longrightarrow> ev_run s (es @ fs) = ev_run s' fs"
  by (induction s es rule: ev_run.induct) (auto split: if_splits)

definition open_call :: "tool_parser \<Rightarrow> string option" where
  "open_call p = (if tp_state p = St_Text then None else Some (current_name p))"

fun ended_calls :: "tool_call_event list \<Rightarrow> tool_call list" where
  "ended_calls [] = []"
| "ended_calls (Ev_End c # es) = c # ended_calls es"
| "ended_calls (_ # es) = ended_calls es"

lemma ended_append [simp]: "ended_calls (es @ fs) = ended_calls es @ ended_calls fs"
  by (induction es rule: ended_calls.induct) auto

text \<open>What a pass, a push or a finish does to the open call and the finished calls.\<close>

definition ev_ok :: "tool_parser \<Rightarrow> tool_parser \<Rightarrow> tool_call_event list \<Rightarrow> bool" where
  "ev_ok p q es \<longleftrightarrow>
     ev_run (open_call p) es = Some (open_call q) \<and>
     tp_calls q = tp_calls p @ ended_calls es \<and>
     call_seq q = call_seq p + length (ended_calls es) \<and>
     (\<forall>i < length (ended_calls es). tc_id (ended_calls es ! i) = ''call_'' @ dec_digits (call_seq p + i))"

lemma ev_ok_refl [simp]: "ev_ok p p []"
  by (simp add: ev_ok_def)

lemma ev_ok_trans: "ev_ok p q es \<Longrightarrow> ev_ok q r fs \<Longrightarrow> ev_ok p r (es @ fs)"
  by (auto simp: ev_ok_def ev_run_append nth_append)

lemma step_ev_ok: "tp_step ser p = (f, q, e) \<Longrightarrow> ev_ok p q e"
  by (cases "tp_state p")
     (auto simp: tp_step_def step_defs Let_def close_function_def close_param_def emit_param_value_def
                 ev_ok_def open_call_def finalize_call_def
           split: option.splits if_splits prod.splits)

lemma run_ev_ok: "run_steps ser p = (q, e) \<Longrightarrow> ev_ok p q e"
proof (induction "length (tp_buf p)" arbitrary: p q e rule: less_induct)
  case less
  obtain f p1 e1 where st: "tp_step ser p = (f, p1, e1)" by (cases "tp_step ser p") auto
  show ?case
  proof (cases f)
    case False
    with st less.prems step_ev_ok [OF st] show ?thesis by (simp add: run_False)
  next
    case True
    with st have st: "tp_step ser p = (True, p1, e1)" by simp
    obtain e2 where "run_steps ser p1 = (q, e2)" "e = e1 @ e2"
      using less.prems run_True [OF st] by (auto split: prod.splits)
    with less.hyps [OF tp_step_shorter [OF st]] step_ev_ok [OF st] ev_ok_trans show ?thesis by blast
  qed
qed

lemma ev_ok_buf [simp]: "ev_ok (with_buf p s) q e = ev_ok p q e"
  by (auto simp: ev_ok_def open_call_def)

lemma push_ev_ok: "tp_push ser p f = (q, e) \<Longrightarrow> ev_ok p q e"
  using run_ev_ok [of ser "with_buf p (tp_buf p @ f)" q e] by (simp add: tp_push_def)

lemma finish_ev_ok: "tp_finish ser p = (q, e) \<Longrightarrow> ev_ok p q e \<and> open_call q = None"
  by (cases "tp_state p")
     (auto simp: tp_finish_def Let_def close_function_def close_param_def emit_param_value_def
                 ev_ok_def open_call_def finalize_call_def split: if_splits)

lemma feed_ev_ok: "tp_feed ser p fs = (q, e) \<Longrightarrow> ev_ok p q e"
proof (induction fs arbitrary: p q e)
  case (Cons f fs)
  obtain p1 e1 where 1: "tp_push ser p f = (p1, e1)" by (cases "tp_push ser p f") auto
  obtain e2 where "tp_feed ser p1 fs = (q, e2)" "e = e1 @ e2"
    using Cons.prems 1 by (auto split: prod.splits)
  with Cons.IH ev_ok_trans [OF push_ev_ok [OF 1]] show ?case by blast
qed simp

lemma parse_ev_ok:
  obtains q e where "tp_parse ser fs = (q, e)" "ev_ok tp_new q e" "open_call q = None"
proof -
  obtain p1 e1 where 1: "tp_feed ser tp_new fs = (p1, e1)" by (cases "tp_feed ser tp_new fs") auto
  obtain q e2 where 2: "tp_finish ser p1 = (q, e2)" by (cases "tp_finish ser p1") auto
  from that [of q "e1 @ e2"] 1 2 ev_ok_trans [OF feed_ev_ok [OF 1]] finish_ev_ok [OF 2]
  show thesis by (simp add: tp_parse_def)
qed

subsection \<open>Properties\<close>

text \<open>C20: chunk boundaries do not matter. However a text that is safe to cut arrives in fragments,
  the parser ends in the same state, with the same calls, and the events carry the same text
  and parameter bytes and the same calls in the same order.\<close>

theorem tool_parse_chunk_independent:
  assumes "chunk_safe ser (concat fs)" and "concat gs = concat fs"
  shows "fst (tp_parse ser fs) = fst (tp_parse ser gs) \<and>
    atoms (snd (tp_parse ser fs)) = atoms (snd (tp_parse ser gs))"
  using parse_chunks [OF assms(1)] parse_chunks [of ser gs] assms by simp

theorem tool_parse_chunk_independent_witness:
  "fst (tp_parse (rfc_ser (\<lambda>_. [])) [''a <func'', ''tion a=1></fun'', ''ction>'']) =
     fst (tp_parse (rfc_ser (\<lambda>_. [])) [''a <function a=1></function>'']) \<and>
   atoms (snd (tp_parse (rfc_ser (\<lambda>_. [])) [''a <func'', ''tion a=1></fun'', ''ction>''])) =
     atoms (snd (tp_parse (rfc_ser (\<lambda>_. [])) [''a <function a=1></function>'']))"
proof -
  let ?fs = "[''a <func'', ''tion a=1></fun'', ''ction>'']"
  have "str_find ''<!'' (concat ?fs) = None" by simp
  then have "\<forall>i. \<not> occurs_at ''<!'' (concat ?fs) i" unfolding str_find_None .
  from tool_parse_chunk_independent [OF chunk_safe_no_bang [OF this],
      of "[''a <function a=1></function>'']" "rfc_ser (\<lambda>_. [])"]
  show ?thesis by simp
qed

definition cdata_mid_head :: string where
  "cdata_mid_head = render_tag fn_open ''f'' @ render_tag param_open ''a'' @ ''x''"

definition cdata_mid_tail :: string where
  "cdata_mid_tail = cdata_open @ ''y'' @ cdata_close @ param_close @ fn_close"

text \<open>The side condition is needed. The value parsed from \<open>x<![CDATA[y]]>\<close> is \<open>xy\<close> when a
  chunk starts at the opener and the whole text when it does not.\<close>

theorem chunk_dependence:
  "map tc_arguments (tp_calls (fst (tp_parse (\<lambda>v. case v of JObj [(_, JStr s)] \<Rightarrow> s | _ \<Rightarrow> [])
       [cdata_mid_head, cdata_mid_tail]))) = [''xy''] \<and>
   map tc_arguments (tp_calls (fst (tp_parse (\<lambda>v. case v of JObj [(_, JStr s)] \<Rightarrow> s | _ \<Rightarrow> [])
       [cdata_mid_head @ cdata_mid_tail]))) = [''x<![CDATA[y]]>'']"
  by code_simp

text \<open>C7: a conversation as the template renders it (text, calls with plain or CDATA values)
  parses back, whatever the chunks: exactly its calls, with their parameters inserted in order
  into the arguments object and ids numbered from 0, and exactly its text outside calls.\<close>

theorem tool_call_roundtrip:
  assumes "good_doc d" and "CHR ''<'' \<notin> set tail" and "concat fs = render_doc d @ tail"
  shows "tp_calls (fst (tp_parse ser fs)) = doc_calls ser 0 d \<and>
    atoms (snd (tp_parse ser fs)) = doc_atoms ser 0 d @ map At_Text tail \<and>
    tp_buf (fst (tp_parse ser fs)) = []"
  using parse_doc [OF assms] by (simp add: tp_idle_def)

theorem tool_call_roundtrip_witness:
  "map (\<lambda>c. (tc_id c, tc_name c, tc_arguments c))
     (tp_calls (fst (tp_parse (rfc_ser (\<lambda>_. []))
        [take 20 (render_doc [(''hi '', ''f'', [(''a'', ''1 < 2'')])]) ,
         drop 20 (render_doc [(''hi '', ''f'', [(''a'', ''1 < 2'')])]) @ '' ok'']))) =
   [(''call_0'', ''f'', ''{'' @ rfc_quote ''a'' @ '':'' @ rfc_quote ''1 < 2'' @ ''}'')]"
proof -
  let ?d = "[(''hi '', ''f'', [(''a'', ''1 < 2'')])]"
  have g: "good_doc ?d" by code_simp
  have c: "concat [take 20 (render_doc ?d), drop 20 (render_doc ?d) @ '' ok''] = render_doc ?d @ '' ok''"
    by simp
  have "CHR ''<'' \<notin> set '' ok''" by simp
  from tool_call_roundtrip [OF g this c, of "rfc_ser (\<lambda>_. [])"] show ?thesis
    by (simp add: finalize_call_def dec_digits_0 join_with_def)
qed

text \<open>text in which \<open><function\<close> does not occur passes through untouched, whatever the chunks:
  every byte comes out as text, nothing is dropped and no call is reported.\<close>

theorem tool_text_passthrough:
  assumes "str_find fn_open (concat fs) = None"
  shows "atoms (snd (tp_parse ser fs)) = map At_Text (concat fs) \<and> tp_calls (fst (tp_parse ser fs)) = []"
  using assms by (rule parse_no_tag)

theorem tool_text_passthrough_witness:
  "tp_calls (fst (tp_parse (\<lambda>_. []) [''1 < 2 <fun'', ''ny></function>''])) = []"
proof -
  have "str_find fn_open (concat [''1 < 2 <fun'', ''ny></function>'']) = None" by (simp add: fn_open_def)
  from tool_text_passthrough [OF this, of "\<lambda>_. []"] show ?thesis by blast
qed

text \<open>C4: on any input at all, well-formed or not, the events form a well-nested stream that
  ends outside a call, the recorded calls are the ended ones, and their ids are
  \<open>call_0\<close>, \<open>call_1\<close>, and so on.\<close>

theorem tool_events_well_nested:
  "ev_run None (snd (tp_parse ser fs)) = Some None \<and>
   tp_calls (fst (tp_parse ser fs)) = ended_calls (snd (tp_parse ser fs)) \<and>
   map tc_id (tp_calls (fst (tp_parse ser fs))) =
     map (\<lambda>i. ''call_'' @ dec_digits i) [0..<length (tp_calls (fst (tp_parse ser fs)))]"
proof (rule parse_ev_ok [of ser fs])
  fix q e assume "tp_parse ser fs = (q, e)" "ev_ok tp_new q e" "open_call q = None"
  then show ?thesis
    by (auto simp: ev_ok_def open_call_def tp_new_def intro!: nth_equalityI split: if_splits)
qed

end
