(* ===== verification/Metrics.thy ===== *)
theory Metrics
  imports Json
begin

section \<open>Metrics\<close>

text \<open>
  \<open>minicpm-metrics/src/lib.rs\<close>: the counters and gauges as words of their width, the running
  timing statistics, and the ring of the last requests. A \<open>Duration\<close> is its number of
  microseconds (\<open>as_micros\<close>). The registry is a plain record; every operation is atomic, so a
  state-passing model has the same behaviours as one worker and any readers.
\<close>

type_synonym i64 = "64 word"

definition recent_requests_cap :: nat where
  "recent_requests_cap = 64"

record timing_stats =
  ts_count :: u64
  ts_sum_us :: u64
  ts_max_us :: u64

record recent_req =
  rr_ttft_us :: u64
  rr_tpot_us :: u64
  rr_prompt_tokens :: u32
  rr_completion_tokens :: u32
  rr_finish_reason :: string
  rr_ts_ms :: u64

record metrics =
  requests_total :: u64
  stream_requests_total :: u64
  cancelled_total :: u64
  errors_total :: u64
  prompt_tokens_total :: u64
  generated_tokens_total :: u64
  active_streams :: i64
  ttft :: timing_stats
  tpot :: timing_stats
  prefill_us_total :: u64
  queue_depth :: i64
  active_sessions :: i64
  batched_steps_total :: u64
  batch_fallbacks_total :: u64
  batch_size_sum :: u64
  recent_requests :: "recent_req list"

definition ts_zero :: timing_stats where
  "ts_zero = \<lparr>ts_count = 0, ts_sum_us = 0, ts_max_us = 0\<rparr>"

definition metrics_default :: metrics where
  "metrics_default =
     \<lparr>requests_total = 0, stream_requests_total = 0, cancelled_total = 0, errors_total = 0,
      prompt_tokens_total = 0, generated_tokens_total = 0, active_streams = 0,
      ttft = ts_zero, tpot = ts_zero, prefill_us_total = 0, queue_depth = 0,
      active_sessions = 0, batched_steps_total = 0, batch_fallbacks_total = 0,
      batch_size_sum = 0, recent_requests = []\<rparr>"

definition ts_observe :: "nat \<Rightarrow> timing_stats \<Rightarrow> timing_stats" where
  "ts_observe micros t =
     (let us = of_nat micros in
      t\<lparr>ts_count := ts_count t + 1, ts_sum_us := ts_sum_us t + us, ts_max_us := max (ts_max_us t) us\<rparr>)"

definition ts_mean :: "timing_stats \<Rightarrow> u64" where
  "ts_mean t = (if ts_count t = 0 then 0 else ts_sum_us t div ts_count t)"

definition ts_snapshot :: "timing_stats \<Rightarrow> json" where
  "ts_snapshot t =
     JObj [(''count'', jnat (ts_count t)), (''sum'', jnat (ts_sum_us t)),
           (''max'', jnat (ts_max_us t)), (''mean'', jnat (ts_mean t))]"

definition observe_ttft :: "nat \<Rightarrow> metrics \<Rightarrow> metrics" where
  "observe_ttft d m = m\<lparr>ttft := ts_observe d (ttft m)\<rparr>"

definition observe_tpot :: "nat \<Rightarrow> metrics \<Rightarrow> metrics" where
  "observe_tpot d m = m\<lparr>tpot := ts_observe d (tpot m)\<rparr>"

text \<open>The loop \<open>while q.len() > CAP { q.pop_front() }\<close>.\<close>

fun pop_to_cap :: "nat \<Rightarrow> 'a list \<Rightarrow> 'a list" where
  "pop_to_cap cap [] = []"
| "pop_to_cap cap (x # xs) = (if length (x # xs) > cap then pop_to_cap cap xs else x # xs)"

definition push_recent :: "recent_req \<Rightarrow> metrics \<Rightarrow> metrics" where
  "push_recent r m =
     m\<lparr>recent_requests := pop_to_cap recent_requests_cap (recent_requests m @ [r])\<rparr>"

definition ji64 :: "i64 \<Rightarrow> json" where
  "ji64 n = (if sint n < 0 then JNum (N_NegInt n) else jnat n)"

definition metrics_snapshot :: "metrics \<Rightarrow> json" where
  "metrics_snapshot m =
     JObj [(''requests_total'', jnat (requests_total m)),
           (''stream_requests_total'', jnat (stream_requests_total m)),
           (''cancelled_total'', jnat (cancelled_total m)),
           (''errors_total'', jnat (errors_total m)),
           (''prompt_tokens_total'', jnat (prompt_tokens_total m)),
           (''generated_tokens_total'', jnat (generated_tokens_total m)),
           (''active_streams'', ji64 (active_streams m)),
           (''prefill_us_total'', jnat (prefill_us_total m)),
           (''ttft_us'', ts_snapshot (ttft m)),
           (''tpot_us'', ts_snapshot (tpot m))]"

definition recent_requests_json :: "metrics \<Rightarrow> json" where
  "recent_requests_json m =
     JArr (map (\<lambda>r. JObj [(''ttft_us'', jnat (rr_ttft_us r)),
                           (''tpot_us'', jnat (rr_tpot_us r)),
                           (''prompt_tokens'', jnat (ucast (rr_prompt_tokens r))),
                           (''completion_tokens'', jnat (ucast (rr_completion_tokens r))),
                           (''finish_reason'', JStr (rr_finish_reason r)),
                           (''ts_ms'', jnat (rr_ts_ms r))])
             (recent_requests m))"

subsection \<open>Lemmas\<close>

lemma pop_to_cap: "pop_to_cap cap xs = drop (length xs - cap) xs"
  by (induction xs) (auto simp: Suc_diff_le)

lemma drop_last_twice:
  "drop (length (drop (length l - cap) l @ rs) - cap) (drop (length l - cap) l @ rs) =
   drop (length (l @ rs) - cap) (l @ rs)"
proof -
  have "drop (length l - cap) l @ rs = drop (length l - cap) (l @ rs)" by simp
  then show ?thesis by (simp only: drop_drop length_drop length_append) (rule arg_cong2 [of _ _ _ _ drop]; simp)
qed

lemma push_recent_ring:
  "recent_requests (push_recent r m) =
   drop (length (recent_requests m @ [r]) - recent_requests_cap) (recent_requests m @ [r])"
  by (simp add: push_recent_def pop_to_cap)

lemma push_recent_fold:
  "length (recent_requests m) \<le> recent_requests_cap \<Longrightarrow>
   recent_requests (fold push_recent rs m) =
     drop (length (recent_requests m @ rs) - recent_requests_cap) (recent_requests m @ rs)"
proof (induction rs arbitrary: m)
  case (Cons r rs)
  have "length (recent_requests (push_recent r m)) \<le> recent_requests_cap"
    unfolding push_recent_ring by simp
  from Cons.IH [OF this] show ?case
    unfolding push_recent_ring drop_last_twice fold.simps comp_apply by simp
qed simp

lemma unat_add_lt: "unat (a :: u64) + unat b < 2 ^ 64 \<Longrightarrow> unat (a + b) = unat a + unat b"
  by (simp add: unat_word_ariths)

lemma unat_of_nat_lt: "n < 2 ^ 64 \<Longrightarrow> unat (of_nat n :: u64) = n"
  by (simp add: unat_of_nat take_bit_nat_eq_self)

lemma ts_observe_fold:
  assumes "unat (ts_sum_us t) + sum_list ds < 2 ^ 64" and "unat (ts_count t) + length ds < 2 ^ 64"
  shows "unat (ts_count (fold ts_observe ds t)) = unat (ts_count t) + length ds \<and>
    unat (ts_sum_us (fold ts_observe ds t)) = unat (ts_sum_us t) + sum_list ds \<and>
    unat (ts_max_us (fold ts_observe ds t)) = fold max ds (unat (ts_max_us t))"
  using assms
proof (induction ds arbitrary: t)
  case (Cons d ds)
  have d: "unat (of_nat d :: u64) = d" using Cons.prems by (intro unat_of_nat_lt) simp
  have c: "unat (ts_count t + 1) = unat (ts_count t) + 1"
    using Cons.prems unat_add_lt [of "ts_count t" 1] by simp
  have s: "unat (ts_sum_us t + of_nat d) = unat (ts_sum_us t) + d"
    using Cons.prems d unat_add_lt [of "ts_sum_us t" "of_nat d"] by simp
  have m: "unat (max (ts_max_us t) (of_nat d)) = max (unat (ts_max_us t)) d"
    using d by (auto simp: max_def word_le_nat_alt)
  have "unat (ts_sum_us (ts_observe d t)) + sum_list ds < 2 ^ 64"
    "unat (ts_count (ts_observe d t)) + length ds < 2 ^ 64"
    using Cons.prems c s by (simp_all add: ts_observe_def Let_def)
  from Cons.IH [OF this] c s m show ?case by (simp add: ts_observe_def Let_def max.commute)
qed simp

subsection \<open>Properties\<close>

text \<open>The ring keeps exactly the latest 64 finished requests, oldest first.\<close>

theorem recent_requests_last_64:
  "recent_requests (fold push_recent rs metrics_default) = drop (length rs - 64) rs \<and>
   length (recent_requests (fold push_recent rs metrics_default)) = min 64 (length rs)"
proof -
  have "length (recent_requests metrics_default) \<le> recent_requests_cap"
    by (simp add: metrics_default_def)
  from push_recent_fold [OF this, of rs] show ?thesis
    by (simp add: metrics_default_def recent_requests_cap_def min_def)
qed

text \<open>The running statistics are the number, sum, maximum and truncated mean of the
  durations observed, as long as the sum fits 64 bits; the mean of none is 0.\<close>

theorem timing_stats_correct:
  assumes "sum_list ds < 2 ^ 64" and "length ds < 2 ^ 64"
  shows "unat (ts_count (fold ts_observe ds ts_zero)) = length ds \<and>
    unat (ts_sum_us (fold ts_observe ds ts_zero)) = sum_list ds \<and>
    unat (ts_max_us (fold ts_observe ds ts_zero)) = fold max ds 0 \<and>
    unat (ts_mean (fold ts_observe ds ts_zero)) = sum_list ds div length ds"
proof -
  have z: "unat (ts_sum_us ts_zero) + sum_list ds < 2 ^ 64" "unat (ts_count ts_zero) + length ds < 2 ^ 64"
    using assms by (simp_all add: ts_zero_def)
  note f = ts_observe_fold [OF z]
  let ?t = "fold ts_observe ds ts_zero"
  have f': "unat (ts_count ?t) = length ds" "unat (ts_sum_us ?t) = sum_list ds"
    "unat (ts_max_us ?t) = fold max ds 0"
    using f by (simp_all add: ts_zero_def)
  moreover have "unat (ts_mean ?t) = sum_list ds div length ds"
    using f' by (auto simp: ts_mean_def unat_div unat_eq_0)
  ultimately show ?thesis by simp
qed

theorem timing_stats_correct_witness:
  "unat (ts_mean (fold ts_observe [10, 20, 33] ts_zero)) = 21"
  using timing_stats_correct [of "[10, 20, 33]"] by simp

end
