(* ===== verification/Abi.thy ===== *)
theory Abi
  imports Rust_Base
begin

section \<open>The C layout of the runtime's structs\<close>

text \<open>
  \<open>minicpm-runtime-sys/src/lib.rs\<close>: the \<open>#[repr(C)]\<close> mirrors of the native header, as lists of
  field types in declaration order, and the layout that \<open>repr(C)\<close> gives them on the 64-bit
  targets: each field at the next multiple of its alignment, the size rounded up to the largest
  alignment. The library checks \<open>struct_size\<close> at every call, so the sizes are part of the
  protocol; the assertions of the source are \<open>layout_assertions\<close>.
\<close>

datatype c_type = C_U32 | C_I32 | C_F32 | C_U64 | C_Ptr | C_Array c_type nat

fun c_align :: "c_type \<Rightarrow> nat" where
  "c_align C_U64 = 8" | "c_align C_Ptr = 8" | "c_align (C_Array t _) = c_align t" | "c_align _ = 4"

fun c_size :: "c_type \<Rightarrow> nat" where
  "c_size C_U64 = 8" | "c_size C_Ptr = 8" | "c_size (C_Array t n) = n * c_size t" | "c_size _ = 4"

definition align_up :: "nat \<Rightarrow> nat \<Rightarrow> nat" where
  "align_up a n = (n + a - 1) div a * a"

text \<open>The offset of every field, and where the last one ends.\<close>

fun field_offsets :: "nat \<Rightarrow> c_type list \<Rightarrow> nat list" where
  "field_offsets n [] = []"
| "field_offsets n (t # ts) =
     (let o1 = align_up (c_align t) n in o1 # field_offsets (o1 + c_size t) ts)"

fun fields_end :: "nat \<Rightarrow> c_type list \<Rightarrow> nat" where
  "fields_end n [] = n"
| "fields_end n (t # ts) = fields_end (align_up (c_align t) n + c_size t) ts"

definition align_of :: "c_type list \<Rightarrow> nat" where
  "align_of ts = foldr (\<lambda>t a. max (c_align t) a) ts 1"

definition size_of :: "c_type list \<Rightarrow> nat" where
  "size_of ts = align_up (align_of ts) (fields_end 0 ts)"

subsection \<open>The structs\<close>

definition mc_handle_c :: "c_type list" where
  "mc_handle_c = [C_Ptr]"

definition mc_model_options_c :: "c_type list" where
  "mc_model_options_c = [C_U32, C_U32, C_I32, C_U32, C_U32, C_U32, C_U32, C_U32, C_U64]"

definition mc_generation_config_c :: "c_type list" where
  "mc_generation_config_c = [C_U32, C_U32, C_F32, C_F32, C_U32, C_F32, C_U64]"

definition mc_runtime_stats_c :: "c_type list" where
  "mc_runtime_stats_c = [C_U64, C_U64, C_U64, C_U64, C_U64, C_U64]"

definition mc_batch_options_c :: "c_type list" where
  "mc_batch_options_c = [C_U32, C_U32, C_U32, C_U32, C_Array C_U32 4]"

lemmas struct_layouts =
  mc_handle_c_def mc_model_options_c_def mc_generation_config_c_def mc_runtime_stats_c_def mc_batch_options_c_def

text \<open>The compile-time assertions: size and alignment of every struct.\<close>

definition layout_assertions :: "(c_type list \<times> nat \<times> nat) list" where
  "layout_assertions =
     [(mc_model_options_c, 40, 8), (mc_generation_config_c, 32, 8), (mc_runtime_stats_c, 48, 8),
      (mc_handle_c, 8, 8), (mc_batch_options_c, 32, 4)]"

lemma c_align_pos [simp]: "0 < c_align t"
  by (induction t) auto

lemma align_of_pos [simp]: "0 < align_of ts"
  by (induction ts) (auto simp: align_of_def)

lemma align_up_ge: "0 < a \<Longrightarrow> n \<le> align_up a n"
proof -
  assume a: "0 < a"
  have "(n + a - 1) mod a < a" using a by simp
  then have "n \<le> (n + a - 1) - (n + a - 1) mod a" using a by linarith
  then show ?thesis by (simp add: align_up_def minus_mod_eq_div_mult)
qed

lemma align_up_dvd [simp]: "a dvd align_up a n"
  by (simp add: align_up_def)

lemma align_up_less: "0 < a \<Longrightarrow> align_up a n < n + a"
proof -
  assume "0 < a"
  moreover have "(n + a - 1) div a * a \<le> n + a - 1" by (rule div_times_less_eq_dividend)
  ultimately show ?thesis unfolding align_up_def by linarith
qed

lemma struct_sizes [simp]:
  "size_of mc_handle_c = 8" "size_of mc_model_options_c = 40" "size_of mc_generation_config_c = 32"
  "size_of mc_runtime_stats_c = 48" "size_of mc_batch_options_c = 32"
  by (simp_all add: size_of_def align_of_def align_up_def struct_layouts Let_def)

lemma length_field_offsets [simp]: "length (field_offsets n ts) = length ts"
  by (induction ts arbitrary: n) (simp_all add: Let_def)

lemma fields_end_ge: "n \<le> fields_end n ts"
proof (induction ts arbitrary: n)
  case (Cons t ts)
  show ?case
    using Cons [of "align_up (c_align t) n + c_size t"] align_up_ge [of "c_align t" n] by simp
qed simp

text \<open>Every field is aligned and ends before the next one starts, and before the end.\<close>

lemma field_offsets_sound:
  "i < length ts \<Longrightarrow>
   c_align (ts ! i) dvd field_offsets n ts ! i \<and> n \<le> field_offsets n ts ! i \<and>
   field_offsets n ts ! i + c_size (ts ! i) \<le> fields_end n ts \<and>
   (\<forall>j. i < j \<and> j < length ts \<longrightarrow> field_offsets n ts ! i + c_size (ts ! i) \<le> field_offsets n ts ! j)"
proof (induction ts arbitrary: n i)
  case (Cons t ts)
  let ?o = "align_up (c_align t) n"
  note IH = Cons.IH [of _ "?o + c_size t"]
  show ?case
  proof (cases i)
    case 0
    have "?o + c_size t \<le> field_offsets (?o + c_size t) ts ! j" if "j < length ts" for j
      using IH [OF that] by simp
    moreover have "n \<le> ?o" by (simp add: align_up_ge)
    ultimately show ?thesis using 0 fields_end_ge [of "?o + c_size t" ts] by (auto simp: Let_def nth_Cons')
  next
    case (Suc k)
    have "n \<le> ?o" by (simp add: align_up_ge)
    moreover have "field_offsets (?o + c_size t) ts ! k + c_size (ts ! k) \<le> field_offsets (?o + c_size t) ts ! (j - 1)"
      if "Suc k < j" "j < Suc (length ts)" for j
      using IH [of k] Suc Cons.prems that by (cases j) auto
    ultimately show ?thesis using IH [of k] Suc Cons.prems by (auto simp: Let_def nth_Cons')
  qed
qed simp

subsection \<open>Properties\<close>



end
