(* ===== verification/Runtime.thy ===== *)
theory Runtime
  imports Abi
begin

section \<open>The runtime interface\<close>

text \<open>
  \<open>minicpm-runtime/src/lib.rs\<close> and the structs and constants of
  \<open>minicpm-runtime-sys/src/lib.rs\<close>: the generation configuration, counters and errors, and the
  traits \<open>Engine\<close>, \<open>EngineSession\<close>, \<open>BatchEngine\<close> and \<open>BatchGroup\<close> as records of operations.
  Sessions and groups are handles into a world \<open>'e\<close>, which every call takes and returns: a
  batch group works on the native state of its members. A \<open>f32\<close> is its bit pattern. An
  \<open>anyhow::Error\<close> is its message.
\<close>

type_synonym f32 = "32 word"

record gen_config =
  gc_max_new_tokens :: u32
  gc_temperature :: f32
  gc_top_p :: f32
  gc_top_k :: u32
  gc_repetition_penalty :: f32
  gc_seed :: u64

text \<open>\<open>x <= 0.0\<close> on IEEE 754 bit patterns: no NaN, and negative or a zero.\<close>

definition f32_is_nan :: "f32 \<Rightarrow> bool" where
  "f32_is_nan b \<longleftrightarrow> 2139095040 < unat b mod 2147483648"

definition f32_le_zero :: "f32 \<Rightarrow> bool" where
  "f32_le_zero b \<longleftrightarrow> \<not> f32_is_nan b \<and> (2147483648 \<le> unat b \<or> b = 0)"

definition is_greedy :: "gen_config \<Rightarrow> bool" where
  "is_greedy c \<longleftrightarrow> f32_le_zero (gc_temperature c) \<or> gc_top_k c = 1"

text \<open>1.0 is \<open>0x3F800000\<close>, 0.95 rounds to \<open>0x3F733333\<close>.\<close>

definition gen_config_default :: gen_config where
  "gen_config_default =
     \<lparr>gc_max_new_tokens = 512, gc_temperature = 0x3F800000, gc_top_p = 0x3F733333,
      gc_top_k = 0, gc_repetition_penalty = 0x3F800000, gc_seed = 0\<rparr>"

record mc_generation_config =
  mg_struct_size :: u32
  mg_max_new_tokens :: u32
  mg_temperature :: f32
  mg_top_p :: f32
  mg_top_k :: u32
  mg_repetition_penalty :: f32
  mg_seed :: u64

definition to_native :: "gen_config \<Rightarrow> mc_generation_config" where
  "to_native c =
     \<lparr>mg_struct_size = of_nat (size_of mc_generation_config_c), mg_max_new_tokens = gc_max_new_tokens c,
      mg_temperature = gc_temperature c, mg_top_p = gc_top_p c, mg_top_k = gc_top_k c,
      mg_repetition_penalty = gc_repetition_penalty c, mg_seed = gc_seed c\<rparr>"

record mc_runtime_stats =
  ms_prompt_tokens :: u64
  ms_generated_tokens :: u64
  ms_prefill_us :: u64
  ms_decode_us :: u64
  ms_peak_vram_bytes :: u64
  ms_cuda_graph_launches :: u64

record runtime_stats =
  rs_prompt_tokens :: u64
  rs_generated_tokens :: u64
  rs_prefill_us :: u64
  rs_decode_us :: u64
  rs_peak_vram_bytes :: u64
  rs_cuda_graph_launches :: u64

definition stats_from :: "mc_runtime_stats \<Rightarrow> runtime_stats" where
  "stats_from s =
     \<lparr>rs_prompt_tokens = ms_prompt_tokens s, rs_generated_tokens = ms_generated_tokens s,
      rs_prefill_us = ms_prefill_us s, rs_decode_us = ms_decode_us s,
      rs_peak_vram_bytes = ms_peak_vram_bytes s,
      rs_cuda_graph_launches = ms_cuda_graph_launches s\<rparr>"

subsection \<open>Status codes and errors\<close>

definition mc_ok :: u32 where "mc_ok = 0"
definition mc_e_invalid_argument :: u32 where "mc_e_invalid_argument = 1"
definition mc_e_io :: u32 where "mc_e_io = 2"
definition mc_e_cuda :: u32 where "mc_e_cuda = 3"
definition mc_e_model_mismatch :: u32 where "mc_e_model_mismatch = 4"
definition mc_e_out_of_memory :: u32 where "mc_e_out_of_memory = 5"
definition mc_e_graph :: u32 where "mc_e_graph = 6"
definition mc_e_unsupported :: u32 where "mc_e_unsupported = 7"
definition mc_e_internal :: u32 where "mc_e_internal = 100"

lemmas status_defs =
  mc_ok_def mc_e_invalid_argument_def mc_e_io_def mc_e_cuda_def mc_e_model_mismatch_def
  mc_e_out_of_memory_def mc_e_graph_def mc_e_unsupported_def mc_e_internal_def

definition status_name :: "u32 \<Rightarrow> string" where
  "status_name st =
     (if st = mc_ok then ''MC_OK''
      else if st = mc_e_invalid_argument then ''MC_E_INVALID_ARGUMENT''
      else if st = mc_e_io then ''MC_E_IO''
      else if st = mc_e_cuda then ''MC_E_CUDA''
      else if st = mc_e_model_mismatch then ''MC_E_MODEL_MISMATCH''
      else if st = mc_e_out_of_memory then ''MC_E_OUT_OF_MEMORY''
      else if st = mc_e_graph then ''MC_E_GRAPH''
      else if st = mc_e_unsupported then ''MC_E_UNSUPPORTED''
      else if st = mc_e_internal then ''MC_E_INTERNAL''
      else ''MC_E_UNKNOWN'')"

record runtime_error =
  re_status :: u32
  re_message :: string

definition runtime_error_display :: "runtime_error \<Rightarrow> string" where
  "runtime_error_display e =
     ''native runtime error '' @ dec_digits (unat (re_status e)) @ '' ('' @
     status_name (re_status e) @ ''): '' @ re_message e"

subsection \<open>Engines, sessions and batch groups\<close>

record batch_group_options =
  bg_max_slots :: u32
  bg_max_context_tokens :: u32

record ('e, 's, 'g) batch_ops =
  bo_create :: "batch_group_options \<Rightarrow> 'e \<Rightarrow> (string + 'g) \<times> 'e"
  bo_add :: "'g \<Rightarrow> 's \<Rightarrow> 'e \<Rightarrow> (string + u32) \<times> 'e"
  bo_remove :: "'g \<Rightarrow> u32 \<Rightarrow> 'e \<Rightarrow> (string + unit) \<times> 'e"
  bo_step :: "'g \<Rightarrow> u32 list \<Rightarrow> gen_config list \<Rightarrow> 'e \<Rightarrow> (string + i32 list) \<times> 'e"
  bo_drop :: "'g \<Rightarrow> 'e \<Rightarrow> 'e"

record ('e, 's, 'g) engine_ops =
  eo_create :: "'e \<Rightarrow> (string + 's) \<times> 'e"
  eo_prefill :: "'s \<Rightarrow> i32 list \<Rightarrow> 'e \<Rightarrow> (string + unit) \<times> 'e"
  eo_decode :: "'s \<Rightarrow> gen_config \<Rightarrow> 'e \<Rightarrow> (string + i32) \<times> 'e"
  eo_reset :: "'s \<Rightarrow> 'e \<Rightarrow> (string + unit) \<times> 'e"
  eo_stats :: "'s \<Rightarrow> 'e \<Rightarrow> (string + runtime_stats) \<times> 'e"
  eo_drop :: "'s \<Rightarrow> 'e \<Rightarrow> 'e"
  eo_batch :: "('e, 's, 'g) batch_ops option"

text \<open>A job on one session, as the scheduler runs it: reset, prefill, then decode steps.\<close>

fun decode_many ::
  "('e, 's, 'g) engine_ops \<Rightarrow> 's \<Rightarrow> gen_config \<Rightarrow> nat \<Rightarrow> 'e \<Rightarrow> (string + i32) list \<times> 'e" where
  "decode_many ops s c 0 e = ([], e)"
| "decode_many ops s c (Suc n) e =
     (let (r, e1) = eo_decode ops s c e; (rs, e2) = decode_many ops s c n e1 in (r # rs, e2))"

definition run_job ::
  "('e, 's, 'g) engine_ops \<Rightarrow> 's \<Rightarrow> i32 list \<Rightarrow> gen_config \<Rightarrow> nat \<Rightarrow> 'e \<Rightarrow> (string + i32) list \<times> 'e" where
  "run_job ops s ids c n e =
     decode_many ops s c n (snd (eo_prefill ops s ids (snd (eo_reset ops s e))))"

text \<open>
  The contract of sessions: each has a sequence state of its own (\<open>view\<close>), which only its own
  calls change, which determines the results of its calls, and which \<open>reset\<close> puts back to one
  fixed state.
\<close>

locale exclusive_sessions =
  fixes ops :: "('e, 's, 'g) engine_ops"
    and live :: "'e \<Rightarrow> 's \<Rightarrow> bool"
    and view :: "'e \<Rightarrow> 's \<Rightarrow> 'v"
    and fresh :: 'v
  assumes reset_fresh: "live e s \<Longrightarrow> live (snd (eo_reset ops s e)) s \<and> view (snd (eo_reset ops s e)) s = fresh"
    and prefill_local: "live e s \<Longrightarrow> live e' s' \<Longrightarrow> view e s = view e' s' \<Longrightarrow>
      live (snd (eo_prefill ops s ids e)) s \<and>
      view (snd (eo_prefill ops s ids e)) s = view (snd (eo_prefill ops s' ids e')) s'"
    and decode_local: "live e s \<Longrightarrow> live e' s' \<Longrightarrow> view e s = view e' s' \<Longrightarrow>
      live (snd (eo_decode ops s c e)) s \<and>
      fst (eo_decode ops s c e) = fst (eo_decode ops s' c e') \<and>
      view (snd (eo_decode ops s c e)) s = view (snd (eo_decode ops s' c e')) s'"
    and frame: "t \<noteq> s \<Longrightarrow> live e t \<Longrightarrow>
      live (snd (eo_decode ops s c e)) t \<and> view (snd (eo_decode ops s c e)) t = view e t"
begin

lemma decode_many_local:
  "live e s \<Longrightarrow> live e' s' \<Longrightarrow> view e s = view e' s' \<Longrightarrow>
   fst (decode_many ops s c n e) = fst (decode_many ops s' c n e')"
proof (induction n arbitrary: e e')
  case (Suc n)
  note d = decode_local [OF Suc.prems, of c]
  have "live (snd (eo_decode ops s' c e')) s'"
    using decode_local [OF Suc.prems(2) Suc.prems(1) Suc.prems(3) [symmetric], of c] by blast
  with Suc.IH [of "snd (eo_decode ops s c e)" "snd (eo_decode ops s' c e')"] d
  show ?case by (auto simp: Let_def split: prod.splits)
qed simp

text \<open>What a job produces does not depend on the session or on what ran there before.\<close>

lemma job_isolated:
  assumes "live e s" and "live e' s'"
  shows "fst (run_job ops s ids c n e) = fst (run_job ops s' ids c n e')"
proof -
  let ?r = "snd (eo_reset ops s e)" and ?r' = "snd (eo_reset ops s' e')"
  have r: "live ?r s" "live ?r' s'" "view ?r s = view ?r' s'"
    using reset_fresh [OF assms(1)] reset_fresh [OF assms(2)] by simp_all
  from prefill_local [OF r, of ids] prefill_local [OF r(2,1) r(3) [symmetric], of ids]
  show ?thesis unfolding run_job_def by (intro decode_many_local) blast+
qed

text \<open>Steps of other sessions in between do not show.\<close>

lemma interleaved:
  assumes "live e s" and "t \<noteq> s" and "live e t"
  shows "fst (eo_decode ops s c (snd (eo_decode ops t d e))) = fst (eo_decode ops s c e)"
  using frame [of s t e d] assms decode_local [of "snd (eo_decode ops t d e)" s e s c] by auto

end

lemma greedy_of_top_k_1: "gc_top_k c = 1 \<Longrightarrow> is_greedy c"
  by (simp add: is_greedy_def)

lemma default_not_greedy: "\<not> is_greedy gen_config_default"
  by (simp add: is_greedy_def gen_config_default_def f32_le_zero_def f32_is_nan_def)

end
