(* ===== verification/Mock.thy ===== *)
theory Mock
  imports Runtime
begin

section \<open>The mock engine\<close>

text \<open>
  \<open>minicpm-runtime/src/mock.rs\<close>: an engine that replays a script, or runs a linear
  congruential generator. The world holds the shared call counters and the sessions; a session
  handle is its index. Decode delays have no effect on the state. The scripted mock provides
  the contract \<open>exclusive_sessions\<close>.
\<close>

definition mock_eos :: i32 where "mock_eos = 130073"
definition lcg_mult :: u32 where "lcg_mult = 1664525"
definition lcg_inc :: u32 where "lcg_inc = 1013904223"

record mock_stats =
  sessions_created :: nat
  prefill_calls :: nat
  prefill_tokens :: nat
  decode_calls :: nat
  reset_calls :: nat

record mock_session =
  mo_script :: "i32 list option"
  mo_pos :: nat
  mo_lcg :: u32
  mo_prompt_len :: nat
  mo_generated :: u64

record mock_world =
  mw_script :: "i32 list option"
  mw_stats :: mock_stats
  mw_sessions :: "mock_session list"

definition mock_stats_zero :: mock_stats where
  "mock_stats_zero =
     \<lparr>sessions_created = 0, prefill_calls = 0, prefill_tokens = 0, decode_calls = 0, reset_calls = 0\<rparr>"

definition mock_engine_new :: mock_world where
  "mock_engine_new = \<lparr>mw_script = None, mw_stats = mock_stats_zero, mw_sessions = []\<rparr>"

definition mock_with_script :: "i32 list \<Rightarrow> mock_world" where
  "mock_with_script sc = mock_engine_new\<lparr>mw_script := Some sc\<rparr>"

definition mock_create :: "mock_world \<Rightarrow> (string + nat) \<times> mock_world" where
  "mock_create w =
     (let st = mw_stats w;
          s = \<lparr>mo_script = mw_script w, mo_pos = 0, mo_lcg = 0x9E3779B9, mo_prompt_len = 0, mo_generated = 0\<rparr>
      in (Inr (length (mw_sessions w)),
          w\<lparr>mw_stats := st\<lparr>sessions_created := sessions_created st + 1\<rparr>,
            mw_sessions := mw_sessions w @ [s]\<rparr>))"

definition mock_prefill :: "nat \<Rightarrow> i32 list \<Rightarrow> mock_world \<Rightarrow> (string + unit) \<times> mock_world" where
  "mock_prefill h ids w =
     (let st = mw_stats w; s = mw_sessions w ! h in
      (Inr (),
       w\<lparr>mw_stats := st\<lparr>prefill_calls := prefill_calls st + 1,
                        prefill_tokens := prefill_tokens st + length ids\<rparr>,
         mw_sessions := (mw_sessions w)[h := s\<lparr>mo_prompt_len := length ids\<rparr>]\<rparr>))"

text \<open>The token of one decode step of a session.\<close>

definition mock_token :: "mock_session \<Rightarrow> i32 \<times> mock_session" where
  "mock_token s =
     (case mo_script s of
        Some sc \<Rightarrow>
          if mo_pos s < length sc then (sc ! mo_pos s, s\<lparr>mo_pos := mo_pos s + 1\<rparr>)
          else (mock_eos, s)
      | None \<Rightarrow>
          (let l = mo_lcg s * lcg_mult + lcg_inc in (100 + l mod 1000, s\<lparr>mo_lcg := l\<rparr>)))"

definition mock_decode :: "nat \<Rightarrow> gen_config \<Rightarrow> mock_world \<Rightarrow> (string + i32) \<times> mock_world" where
  "mock_decode h c w =
     (let st = mw_stats w; s = mw_sessions w ! h;
          (t, s1) = mock_token (s\<lparr>mo_generated := mo_generated s + 1\<rparr>)
      in (Inr t,
          w\<lparr>mw_stats := st\<lparr>decode_calls := decode_calls st + 1\<rparr>,
            mw_sessions := (mw_sessions w)[h := s1]\<rparr>))"

definition mock_reset :: "nat \<Rightarrow> mock_world \<Rightarrow> (string + unit) \<times> mock_world" where
  "mock_reset h w =
     (let st = mw_stats w; s = mw_sessions w ! h in
      (Inr (),
       w\<lparr>mw_stats := st\<lparr>reset_calls := reset_calls st + 1\<rparr>,
         mw_sessions := (mw_sessions w)[h := s\<lparr>mo_pos := 0, mo_prompt_len := 0, mo_generated := 0\<rparr>]\<rparr>))"

definition mock_session_stats :: "nat \<Rightarrow> mock_world \<Rightarrow> (string + runtime_stats) \<times> mock_world" where
  "mock_session_stats h w =
     (let s = mw_sessions w ! h in
      (Inr \<lparr>rs_prompt_tokens = of_nat (mo_prompt_len s), rs_generated_tokens = mo_generated s,
            rs_prefill_us = 0, rs_decode_us = 0, rs_peak_vram_bytes = 0, rs_cuda_graph_launches = 0\<rparr>,
       w))"

definition mock_ops :: "(mock_world, nat, unit) engine_ops" where
  "mock_ops =
     \<lparr>eo_create = mock_create, eo_prefill = mock_prefill, eo_decode = mock_decode,
      eo_reset = mock_reset, eo_stats = mock_session_stats, eo_drop = (\<lambda>s w. w), eo_batch = None\<rparr>"

subsection \<open>The scripted mock isolates its sessions\<close>

definition mock_live :: "i32 list \<Rightarrow> mock_world \<Rightarrow> nat \<Rightarrow> bool" where
  "mock_live sc w h \<longleftrightarrow> h < length (mw_sessions w) \<and> mo_script (mw_sessions w ! h) = Some sc"

definition mock_view :: "mock_world \<Rightarrow> nat \<Rightarrow> nat \<times> nat \<times> u64" where
  "mock_view w h =
     (let s = mw_sessions w ! h in (mo_pos s, mo_prompt_len s, mo_generated s))"

interpretation mock: exclusive_sessions mock_ops "mock_live sc" mock_view "(0, 0, 0)"
  by unfold_locales
     (auto simp: mock_ops_def mock_live_def mock_view_def mock_reset_def mock_prefill_def mock_decode_def
                 mock_token_def Let_def nth_list_update split: option.splits)

text \<open>The tokens of the scripted mock from a given position on.\<close>

lemma mock_decode_many:
  "mock_live sc w h \<Longrightarrow>
   fst (decode_many mock_ops h c n w) =
     map Inr (take n (drop (fst (mock_view w h)) sc @ replicate n mock_eos))"
proof (induction n arbitrary: w)
  case (Suc n)
  let ?w = "snd (mock_decode h c w)" and ?p = "fst (mock_view w h)"
  have live: "mock_live sc ?w h"
    using Suc.prems
    by (auto simp: mock_live_def mock_decode_def mock_token_def Let_def split: option.splits)
  have step: "fst (mock_decode h c w) = Inr (if ?p < length sc then sc ! ?p else mock_eos)"
    and pos: "fst (mock_view ?w h) = (if ?p < length sc then ?p + 1 else ?p)"
    using Suc.prems
    by (auto simp: mock_live_def mock_view_def mock_decode_def mock_token_def Let_def)
  have "fst (decode_many mock_ops h c (Suc n) w) =
      fst (mock_decode h c w) # fst (decode_many mock_ops h c n ?w)"
    by (simp add: mock_ops_def Let_def split: prod.splits)
  also have "\<dots> = map Inr (take (Suc n) (drop ?p sc @ replicate (Suc n) mock_eos))"
    unfolding Suc.IH [OF live] step pos
    by (auto simp: Cons_nth_drop_Suc [symmetric] take_Cons' min_def Suc_diff_le)
  finally show ?case .
qed simp

subsection \<open>Properties\<close>

text \<open>A job on any live scripted session yields the script from its start, then eos for
  ever: nothing of earlier jobs on the session, or of jobs on other sessions, shows.\<close>

theorem mock_job_replays_script:
  assumes "mock_live sc w h"
  shows "fst (run_job mock_ops h ids c n w) = map Inr (take n (sc @ replicate n mock_eos))"
proof -
  let ?w1 = "\<lparr>mw_script = Some sc, mw_stats = mock_stats_zero, mw_sessions = []\<rparr>"
  let ?w2 = "snd (mock_create ?w1)"
  have live: "mock_live sc ?w2 0" by (simp add: mock_live_def mock_create_def Let_def)
  have "fst (run_job mock_ops h ids c n w) = fst (run_job mock_ops 0 ids c n ?w2)"
    by (rule mock.job_isolated [OF assms live])
  also have "\<dots> = map Inr (take n (sc @ replicate n mock_eos))"
    using live unfolding run_job_def
    by (subst mock_decode_many [of sc])
       (auto simp: mock_ops_def mock_live_def mock_view_def mock_reset_def mock_prefill_def mock_create_def Let_def)
  finally show ?thesis .
qed

theorem mock_job_replays_script_witness:
  "fst (run_job mock_ops 0 [5] gen_config_default 3 (snd (mock_create (mock_with_script [7, 8])))) =
   [Inr 7, Inr 8, Inr mock_eos]"
proof -
  have "mock_live [7, 8] (snd (mock_create (mock_with_script [7, 8]))) 0"
    by (simp add: mock_live_def mock_create_def mock_with_script_def mock_engine_new_def Let_def)
  from mock_job_replays_script [OF this, of "[5]" gen_config_default 3] show ?thesis
    by (simp add: numeral_3_eq_3)
qed

end
