(* ===== verification/Native.thy ===== *)
theory Native
  imports Runtime
begin

section \<open>The native backend\<close>

text \<open>
  \<open>minicpm-runtime/src/native.rs\<close>: the safe wrapper over the C ABI. The resolved functions of
  the shared library are the parameter \<open>native_api\<close>, over a world \<open>'w\<close> that stands for the
  library's state; a call returns its status and its out-parameters. A handle is a pointer
  word, null is 0. The wrapper's own work is modelled: status checks with the message read at
  once, null checks, argument checks, the truncation of lengths, the clamping of options.
  Loading the library is in \<open>Native_Open\<close>, destruction and ownership in \<open>Native_Own\<close>.
\<close>

type_synonym ptr = "64 word"

definition mc_abi_version :: u32 where "mc_abi_version = 0x00020000"
definition mc_bf16 :: u32 where "mc_bf16 = 0"
definition mc_fp8 :: u32 where "mc_fp8 = 2"
definition mc_kv_bf16 :: u32 where "mc_kv_bf16 = 0"
definition mc_max_batch_slots :: u32 where "mc_max_batch_slots = 8"

record mc_model_options =
  mo_struct_size :: u32
  mo_abi_version :: u32
  mo_device_id :: i32
  mo_max_sessions :: u32
  mo_max_context_tokens :: u32
  mo_precision :: u32
  mo_kv_precision :: u32
  mo_enable_cuda_graph :: u32
  mo_reserve_vram_bytes :: u64

record mc_batch_options =
  mb_struct_size :: u32
  mb_abi_version :: u32
  mb_max_slots :: u32
  mb_max_context_tokens :: u32
  mb_reserved :: "u32 list"

definition default_model_options :: mc_model_options where
  "default_model_options =
     \<lparr>mo_struct_size = of_nat (size_of mc_model_options_c), mo_abi_version = mc_abi_version, mo_device_id = 0, mo_max_sessions = 1,
      mo_max_context_tokens = 8192, mo_precision = mc_bf16, mo_kv_precision = mc_kv_bf16,
      mo_enable_cuda_graph = 0, mo_reserve_vram_bytes = 0\<rparr>"

datatype precision = Bf16 | Fp8

text \<open>\<open>to_ascii_lowercase\<close> on bytes.\<close>

definition ascii_lower :: "string \<Rightarrow> string" where
  "ascii_lower s =
     map (\<lambda>c. let n = of_char c :: nat in if 65 \<le> n \<and> n \<le> 90 then char_of (n + 32) else c) s"

definition precision_parse :: "string \<Rightarrow> precision option" where
  "precision_parse s =
     (if ascii_lower s = ''bf16'' then Some Bf16
      else if ascii_lower s = ''fp8'' then Some Fp8 else None)"

fun precision_as_native :: "precision \<Rightarrow> u32" where
  "precision_as_native Bf16 = mc_bf16"
| "precision_as_native Fp8 = mc_fp8"

definition model_options_for_precision :: "precision \<Rightarrow> mc_model_options" where
  "model_options_for_precision p = default_model_options\<lparr>mo_precision := precision_as_native p\<rparr>"

subsection \<open>The library\<close>

record 'w native_api =
  na_model_load :: "string \<Rightarrow> mc_model_options \<Rightarrow> 'w \<Rightarrow> (u32 \<times> ptr) \<times> 'w"
  na_model_destroy :: "ptr \<Rightarrow> 'w \<Rightarrow> 'w"
  na_session_create :: "ptr \<Rightarrow> 'w \<Rightarrow> (u32 \<times> ptr) \<times> 'w"
  na_session_reset :: "ptr \<Rightarrow> 'w \<Rightarrow> u32 \<times> 'w"
  na_session_destroy :: "ptr \<Rightarrow> 'w \<Rightarrow> 'w"
  na_prefill :: "ptr \<Rightarrow> i32 list \<Rightarrow> u32 \<Rightarrow> 'w \<Rightarrow> u32 \<times> 'w"
  na_decode_one :: "ptr \<Rightarrow> mc_generation_config \<Rightarrow> 'w \<Rightarrow> (u32 \<times> i32) \<times> 'w"
  na_get_stats :: "ptr \<Rightarrow> 'w \<Rightarrow> (u32 \<times> mc_runtime_stats) \<times> 'w"
  na_last_error :: "'w \<Rightarrow> string option"
  na_batch_group_create :: "ptr \<Rightarrow> mc_batch_options \<Rightarrow> 'w \<Rightarrow> (u32 \<times> ptr) \<times> 'w"
  na_batch_group_add :: "ptr \<Rightarrow> ptr \<Rightarrow> 'w \<Rightarrow> (u32 \<times> u32) \<times> 'w"
  na_batch_group_remove :: "ptr \<Rightarrow> u32 \<Rightarrow> 'w \<Rightarrow> u32 \<times> 'w"
  na_batch_step ::
    "ptr \<Rightarrow> u32 list \<Rightarrow> u32 \<Rightarrow> mc_generation_config list \<Rightarrow> 'w \<Rightarrow> (u32 \<times> i32 list) \<times> 'w"
  na_batch_group_destroy :: "ptr \<Rightarrow> 'w \<Rightarrow> 'w"

definition native_check :: "'w native_api \<Rightarrow> u32 \<Rightarrow> 'w \<Rightarrow> runtime_error + unit" where
  "native_check api status w =
     (if status = mc_ok then Inr ()
      else Inl \<lparr>re_status = status,
                re_message = (case na_last_error api w of None \<Rightarrow> ''<no error message>'' | Some s \<Rightarrow> s)\<rparr>)"

text \<open>\<open>map_err(anyhow::Error::new)\<close>: the error keeps its \<open>Display\<close> text.\<close>

definition as_anyhow :: "runtime_error + 'a \<Rightarrow> string + 'a" where
  "as_anyhow r = (case r of Inl e \<Rightarrow> Inl (runtime_error_display e) | Inr x \<Rightarrow> Inr x)"

record native_model =
  nm_handle :: ptr
  nm_max_context_tokens :: u32

definition load_model ::
  "'w native_api \<Rightarrow> string \<Rightarrow> mc_model_options \<Rightarrow> 'w \<Rightarrow> (string + native_model) \<times> 'w" where
  "load_model api dir opts w =
     (if CHR 0x00 \<in> set dir then (Inl ''model dir contains interior NUL'', w)
      else let ((status, h), w1) = na_model_load api dir opts w in
        case as_anyhow (native_check api status w1) of
          Inl e \<Rightarrow> (Inl e, w1)
        | Inr _ \<Rightarrow>
            if h = 0 then (Inl ''mc_model_load returned MC_OK but a null model handle'', w1)
            else (Inr \<lparr>nm_handle = h, nm_max_context_tokens = mo_max_context_tokens opts\<rparr>, w1))"

definition native_create_session ::
  "'w native_api \<Rightarrow> native_model \<Rightarrow> 'w \<Rightarrow> (string + ptr) \<times> 'w" where
  "native_create_session api m w =
     (let ((status, h), w1) = na_session_create api (nm_handle m) w in
      case as_anyhow (native_check api status w1) of
        Inl e \<Rightarrow> (Inl e, w1)
      | Inr _ \<Rightarrow>
          if h = 0 then (Inl ''mc_session_create returned MC_OK but a null session handle'', w1)
          else (Inr h, w1))"

definition native_prefill :: "'w native_api \<Rightarrow> ptr \<Rightarrow> i32 list \<Rightarrow> 'w \<Rightarrow> (string + unit) \<times> 'w" where
  "native_prefill api s ids w =
     (let (status, w1) = na_prefill api s ids (of_nat (length ids)) w
      in (as_anyhow (native_check api status w1), w1))"

definition native_decode_one ::
  "'w native_api \<Rightarrow> ptr \<Rightarrow> gen_config \<Rightarrow> 'w \<Rightarrow> (string + i32) \<times> 'w" where
  "native_decode_one api s c w =
     (let ((status, tok), w1) = na_decode_one api s (to_native c) w in
      case as_anyhow (native_check api status w1) of
        Inl e \<Rightarrow> (Inl e, w1) | Inr _ \<Rightarrow> (Inr tok, w1))"

definition native_reset :: "'w native_api \<Rightarrow> ptr \<Rightarrow> 'w \<Rightarrow> (string + unit) \<times> 'w" where
  "native_reset api s w =
     (let (status, w1) = na_session_reset api s w in (as_anyhow (native_check api status w1), w1))"

definition native_stats :: "'w native_api \<Rightarrow> ptr \<Rightarrow> 'w \<Rightarrow> (string + runtime_stats) \<times> 'w" where
  "native_stats api s w =
     (let ((status, st), w1) = na_get_stats api s w in
      case as_anyhow (native_check api status w1) of
        Inl e \<Rightarrow> (Inl e, w1) | Inr _ \<Rightarrow> (Inr (stats_from st), w1))"

subsection \<open>Batch groups\<close>

definition native_create_batch_group ::
  "'w native_api \<Rightarrow> native_model \<Rightarrow> batch_group_options \<Rightarrow> 'w \<Rightarrow> (string + ptr) \<times> 'w" where
  "native_create_batch_group api m opts w =
     (let tier = nm_max_context_tokens m in
      if bg_max_context_tokens opts \<noteq> 0 \<and> bg_max_context_tokens opts \<noteq> tier
      then (Inl (''mc_batch_group_create: max_context_tokens='' @
                 dec_digits (unat (bg_max_context_tokens opts)) @ '' != model tier '' @
                 dec_digits (unat tier)), w)
      else
        let options = \<lparr>mb_struct_size = of_nat (size_of mc_batch_options_c), mb_abi_version = mc_abi_version,
                       mb_max_slots = min (max (bg_max_slots opts) 1) mc_max_batch_slots,
                       mb_max_context_tokens = tier, mb_reserved = [0, 0, 0, 0]\<rparr>;
            ((status, h), w1) = na_batch_group_create api (nm_handle m) options w
        in case as_anyhow (native_check api status w1) of
             Inl e \<Rightarrow> (Inl e, w1)
           | Inr _ \<Rightarrow>
               if h = 0
               then (Inl ''mc_batch_group_create returned MC_OK but a null group handle'', w1)
               else (Inr h, w1))"

text \<open>The downcast to a native session always succeeds here: every session is native.\<close>

definition native_group_add :: "'w native_api \<Rightarrow> ptr \<Rightarrow> ptr \<Rightarrow> 'w \<Rightarrow> (string + u32) \<times> 'w" where
  "native_group_add api g s w =
     (let ((status, slot), w1) = na_batch_group_add api g s w in
      case as_anyhow (native_check api status w1) of
        Inl e \<Rightarrow> (Inl e, w1) | Inr _ \<Rightarrow> (Inr slot, w1))"

definition native_group_remove :: "'w native_api \<Rightarrow> ptr \<Rightarrow> u32 \<Rightarrow> 'w \<Rightarrow> (string + unit) \<times> 'w" where
  "native_group_remove api g slot w =
     (let (status, w1) = na_batch_group_remove api g slot w
      in (as_anyhow (native_check api status w1), w1))"

text \<open>The position of the first configuration that is not greedy.\<close>

fun first_sampling :: "nat \<Rightarrow> gen_config list \<Rightarrow> nat option" where
  "first_sampling i [] = None"
| "first_sampling i (c # cs) = (if is_greedy c then first_sampling (i + 1) cs else Some i)"

text \<open>The out-vector has one entry per slot; the library fills it in place.\<close>

definition native_group_step ::
  "'w native_api \<Rightarrow> ptr \<Rightarrow> u32 list \<Rightarrow> gen_config list \<Rightarrow> 'w \<Rightarrow> (string + i32 list) \<times> 'w" where
  "native_group_step api g slots cfgs w =
     (if slots = [] \<or> length slots \<noteq> length cfgs
      then (Inl ''mc_batch_step: slots/cfgs must be non-empty and equal length'', w)
      else case first_sampling 0 cfgs of
        Some i \<Rightarrow>
          (Inl (''mc_batch_step: non-greedy cfgs['' @ dec_digits i @ ''] unsupported in B1 '' @
                ''(temperature>0 && top_k!=1); batch path is greedy-only''), w)
      | None \<Rightarrow>
          (let ((status, out), w1) =
                 na_batch_step api g slots (of_nat (length slots)) (map to_native cfgs) w;
               out_tokens = take (length slots) (out @ replicate (length slots) 0)
           in case as_anyhow (native_check api status w1) of
                Inl e \<Rightarrow> (Inl e, w1) | Inr _ \<Rightarrow> (Inr out_tokens, w1)))"

text \<open>The engine the scheduler sees.\<close>

definition native_batch_ops :: "'w native_api \<Rightarrow> native_model \<Rightarrow> ('w, ptr, ptr) batch_ops" where
  "native_batch_ops api m =
     \<lparr>bo_create = native_create_batch_group api m, bo_add = native_group_add api,
      bo_remove = native_group_remove api, bo_step = native_group_step api,
      bo_drop = na_batch_group_destroy api\<rparr>"

definition native_ops :: "'w native_api \<Rightarrow> native_model \<Rightarrow> ('w, ptr, ptr) engine_ops" where
  "native_ops api m =
     \<lparr>eo_create = native_create_session api m, eo_prefill = native_prefill api,
      eo_decode = native_decode_one api, eo_reset = native_reset api,
      eo_stats = native_stats api, eo_drop = na_session_destroy api,
      eo_batch = Some (native_batch_ops api m)\<rparr>"

subsection \<open>Lemmas\<close>

lemma first_sampling_None: "first_sampling i cs = None \<longleftrightarrow> (\<forall>c \<in> set cs. is_greedy c)"
  by (induction cs arbitrary: i) auto

lemma native_check_ok: "as_anyhow (native_check api status w) = Inr u \<longleftrightarrow> status = mc_ok"
  by (auto simp: native_check_def as_anyhow_def)

lemma clamp_slots:
  "1 \<le> unat (min (max n 1) mc_max_batch_slots) \<and> unat (min (max n 1) mc_max_batch_slots) \<le> 8"
proof -
  have "unat (max n (1 :: u32)) \<ge> 1" by (auto simp: max_def word_le_nat_alt)
  then show ?thesis by (auto simp: min_def word_le_nat_alt mc_max_batch_slots_def)
qed

subsection \<open>Properties\<close>

text \<open>A batch step reaches the library only with a non-empty, matching and greedy-only
  request; any other request is refused and leaves the library untouched. A step that
  succeeds returns one token per slot.\<close>

theorem native_step_guarded:
  "(slots = [] \<or> length slots \<noteq> length cfgs \<or> (\<exists>c \<in> set cfgs. \<not> is_greedy c) \<longrightarrow>
     (\<exists>e. native_group_step api g slots cfgs w = (Inl e, w))) \<and>
   (\<forall>toks w'. native_group_step api g slots cfgs w = (Inr toks, w') \<longrightarrow>
     length toks = length slots \<and> slots \<noteq> [] \<and> (\<forall>c \<in> set cfgs. is_greedy c) \<and>
     fst (fst (na_batch_step api g slots (of_nat (length slots)) (map to_native cfgs) w)) = mc_ok)"
proof -
  have "\<exists>i. first_sampling 0 cfgs = Some i" if "\<exists>c \<in> set cfgs. \<not> is_greedy c"
    using that first_sampling_None [of 0 cfgs] by (cases "first_sampling 0 cfgs") auto
  then show ?thesis
    by (auto simp: native_group_step_def Let_def first_sampling_None native_check_ok
             split: option.splits prod.splits sum.splits if_splits)
qed

theorem native_step_guarded_witness:
  "\<forall>(api :: unit native_api) g. \<exists>e. native_group_step api g [0] [gen_config_default] () = (Inl e, ())"
proof (intro allI)
  fix api :: "unit native_api" and g
  show "\<exists>e. native_group_step api g [0] [gen_config_default] () = (Inl e, ())"
    using native_step_guarded [of "[0]" "[gen_config_default]" api g "()"] default_not_greedy by auto
qed

end
