(* ===== verification/Scheduler.thy ===== *)
theory Scheduler
  imports Usage Metrics Runtime
begin

section \<open>The scheduler's worker: jobs, steps and retirement\<close>

text \<open>
  \<open>minicpm-scheduler/src/lib.rs\<close>, the parts that concern one job: the events, the active
  generation, one decode step (\<open>step\<close>, \<open>feed_token\<close>), admission into the active set (\<open>intake\<close>)
  and retirement (\<open>retire\<close>). The worker's mutable state is the record \<open>worker\<close>, threaded through
  every function: the idle pool (a stack, its top at the end), the active set, the batch group,
  the engine's world, the metrics, the waiting counter and the number of clock reads. What is
  not in the repository is a parameter of the record \<open>env\<close>: the engine, the clock, and the
  event channel and cancel flag of a job, which are one \<open>port\<close> 'c whose operations may also let
  the receiver act. \<open>wk_done\<close> only records the ports of jobs that ended.
\<close>

definition max_batch_slots_cap :: nat where "max_batch_slots_cap = 8"

definition eos_ids :: "i32 list" where "eos_ids = [1, 130073]"

datatype gen_event = Ge_Token i32 | Ge_Done finish_reason usage | Ge_Failed string

record generation_job =
  gj_prompt_ids :: "i32 list"
  gj_config :: gen_config

record 'c job =
  job_inner :: generation_job
  job_port :: 'c
  job_enqueued_at :: nat

datatype send_result = Sent | Full | Closed

record 'c port_ops =
  po_try_send :: "gen_event \<Rightarrow> 'c \<Rightarrow> send_result \<times> 'c"
  po_blocking_send :: "gen_event \<Rightarrow> 'c \<Rightarrow> bool \<times> 'c"
  po_cancelled :: "'c \<Rightarrow> bool \<times> 'c"

datatype phase = Decoding

record ('s, 'c) active_gen =
  ag_session :: 's
  ag_config :: gen_config
  ag_port :: 'c
  ag_prompt_tokens :: u64
  ag_generated :: u64
  ag_pending_tok :: "i32 option"
  ag_enqueued_at :: nat
  ag_first_token_at :: "nat option"
  ag_slot_id :: "u32 option"
  ag_batch_held :: bool
  ag_phase :: phase

datatype finish = Fi_Stop | Fi_Length | Fi_Cancelled | Fi_Failed string
datatype step_result = Sr_Continue | Sr_Yield | Sr_Done finish
datatype retire_mode = Serving | Shutdown

record ('e, 's, 'g, 'c) worker =
  wk_idle :: "'s list"
  wk_active :: "('s, 'c) active_gen list"
  wk_group :: "'g option"
  wk_eng :: 'e
  wk_met :: metrics
  wk_waiting :: i64
  wk_reads :: nat
  wk_done :: "'c list"

record ('e, 's, 'g, 'c) env =
  en_ops :: "('e, 's, 'g) engine_ops"
  en_port :: "'c port_ops"
  en_clock :: "nat \<Rightarrow> nat"
  en_wall_ms :: "nat \<Rightarrow> u64"
  en_max_sessions :: nat
  en_queue_timeout :: nat
  en_batching :: bool

text \<open>\<open>Instant::now()\<close>, in nanoseconds: one read of the clock.\<close>

definition now :: "('e, 's, 'g, 'c) env \<Rightarrow> ('e, 's, 'g, 'c) worker \<Rightarrow> nat \<times> ('e, 's, 'g, 'c) worker" where
  "now env w = (en_clock env (wk_reads w), w\<lparr>wk_reads := wk_reads w + 1\<rparr>)"

definition with_met :: "(metrics \<Rightarrow> metrics) \<Rightarrow> ('e, 's, 'g, 'c) worker \<Rightarrow> ('e, 's, 'g, 'c) worker" where
  "with_met f w = w\<lparr>wk_met := f (wk_met w)\<rparr>"

subsection \<open>One step of a stream\<close>

definition feed_token ::
  "('e, 's, 'g, 'c) env \<Rightarrow> ('s, 'c) active_gen \<Rightarrow> i32 \<Rightarrow> ('e, 's, 'g, 'c) worker \<Rightarrow>
   step_result \<times> ('s, 'c) active_gen \<times> ('e, 's, 'g, 'c) worker" where
  "feed_token env gen tok w =
     (if tok \<in> set eos_ids then (Sr_Done Fi_Stop, gen, w)
      else
        let g1 = gen\<lparr>ag_generated := ag_generated gen + 1\<rparr>;
            (g2, w1) =
              (case ag_first_token_at g1 of
                 None \<Rightarrow> (let (t, w') = now env w in (g1\<lparr>ag_first_token_at := Some t\<rparr>, w'))
               | Some _ \<Rightarrow> (g1, w));
            (r, port) = po_try_send (en_port env) (Ge_Token tok) (ag_port g2);
            g3 = g2\<lparr>ag_port := port\<rparr>
        in (case r of
              Full \<Rightarrow> (Sr_Yield, g3\<lparr>ag_pending_tok := Some tok\<rparr>, w1)
            | Closed \<Rightarrow> (Sr_Done Fi_Cancelled, g3, w1)
            | Sent \<Rightarrow>
                if ag_generated g3 \<ge> ucast (gc_max_new_tokens (ag_config g3))
                then (Sr_Done Fi_Length, g3, w1)
                else (Sr_Continue, g3, w1)))"

text \<open>The decode part of \<open>step\<close>: one token of the session, or a failed job.\<close>

definition decode_and_feed ::
  "('e, 's, 'g, 'c) env \<Rightarrow> ('s, 'c) active_gen \<Rightarrow> ('e, 's, 'g, 'c) worker \<Rightarrow>
   step_result \<times> ('s, 'c) active_gen \<times> ('e, 's, 'g, 'c) worker" where
  "decode_and_feed env gen w =
     (let (r, e1) = eo_decode (en_ops env) (ag_session gen) (ag_config gen) (wk_eng w);
          w1 = w\<lparr>wk_eng := e1\<rparr>
      in case r of
           Inl e \<Rightarrow> (Sr_Done (Fi_Failed (''decode_one: '' @ e)), gen, w1)
         | Inr tok \<Rightarrow> feed_token env gen tok w1)"

definition step ::
  "('e, 's, 'g, 'c) env \<Rightarrow> ('s, 'c) active_gen \<Rightarrow> ('e, 's, 'g, 'c) worker \<Rightarrow>
   step_result \<times> ('s, 'c) active_gen \<times> ('e, 's, 'g, 'c) worker" where
  "step env gen w =
     (let (cancelled, port) = po_cancelled (en_port env) (ag_port gen);
          g0 = gen\<lparr>ag_port := port\<rparr>
      in if cancelled then (Sr_Done Fi_Cancelled, g0, w)
         else case ag_pending_tok g0 of
           None \<Rightarrow> decode_and_feed env g0 w
         | Some t \<Rightarrow>
             (let g1 = g0\<lparr>ag_pending_tok := None\<rparr>;
                  (r, port1) = po_try_send (en_port env) (Ge_Token t) (ag_port g1);
                  g2 = g1\<lparr>ag_port := port1\<rparr>
              in case r of
                   Sent \<Rightarrow>
                     if ag_generated g2 \<ge> ucast (gc_max_new_tokens (ag_config g2))
                     then (Sr_Done Fi_Length, g2, w)
                     else decode_and_feed env g2 w
                 | Full \<Rightarrow> (Sr_Yield, g2\<lparr>ag_pending_tok := Some t\<rparr>, w)
                 | Closed \<Rightarrow> (Sr_Done Fi_Cancelled, g2, w)))"

subsection \<open>Sessions back to the pool\<close>

definition return_session ::
  "('e, 's, 'g, 'c) env \<Rightarrow> 's \<Rightarrow> ('e, 's, 'g, 'c) worker \<Rightarrow> ('e, 's, 'g, 'c) worker" where
  "return_session env s w =
     (if length (wk_idle w) + length (wk_active w) < en_max_sessions env
      then w\<lparr>wk_idle := wk_idle w @ [s]\<rparr>
      else w\<lparr>wk_eng := eo_drop (en_ops env) s (wk_eng w)\<rparr>)"

text \<open>\<open>let _ = session.reset()\<close>: the result is ignored.\<close>

definition reset_ignored ::
  "('e, 's, 'g, 'c) env \<Rightarrow> 's \<Rightarrow> ('e, 's, 'g, 'c) worker \<Rightarrow> ('e, 's, 'g, 'c) worker" where
  "reset_ignored env s w = w\<lparr>wk_eng := snd (eo_reset (en_ops env) s (wk_eng w))\<rparr>"

text \<open>\<open>let _ = g.remove(slot)\<close>, when there is a group.\<close>

definition group_remove ::
  "('e, 's, 'g, 'c) env \<Rightarrow> u32 \<Rightarrow> ('e, 's, 'g, 'c) worker \<Rightarrow> ('e, 's, 'g, 'c) worker" where
  "group_remove env slot w =
     (case (eo_batch (en_ops env), wk_group w) of
        (Some bo, Some g) \<Rightarrow> w\<lparr>wk_eng := snd (bo_remove bo g slot (wk_eng w))\<rparr>
      | _ \<Rightarrow> w)"

definition demote_from_group ::
  "('e, 's, 'g, 'c) env \<Rightarrow> ('s, 'c) active_gen \<Rightarrow> ('e, 's, 'g, 'c) worker \<Rightarrow>
   ('s, 'c) active_gen \<times> ('e, 's, 'g, 'c) worker" where
  "demote_from_group env gen w =
     (case ag_slot_id gen of
        None \<Rightarrow> (gen, w)
      | Some slot \<Rightarrow> (gen\<lparr>ag_slot_id := None\<rparr>, group_remove env slot w))"

subsection \<open>Retirement\<close>

text \<open>A terminal or pending event: blocking while serving, best effort at shutdown.\<close>

definition send_by_mode ::
  "('e, 's, 'g, 'c) env \<Rightarrow> retire_mode \<Rightarrow> gen_event \<Rightarrow> 'c \<Rightarrow> 'c" where
  "send_by_mode env mode ev p =
     (case mode of
        Serving \<Rightarrow> snd (po_blocking_send (en_port env) ev p)
      | Shutdown \<Rightarrow> snd (po_try_send (en_port env) ev p))"

definition count_tokens :: "u64 \<Rightarrow> u64 \<Rightarrow> metrics \<Rightarrow> metrics" where
  "count_tokens p g m =
     m\<lparr>prompt_tokens_total := prompt_tokens_total m + p,
       generated_tokens_total := generated_tokens_total m + g\<rparr>"

text \<open>The terminal event, its effect on the counters, and the reason of the recent entry.\<close>

definition finish_event ::
  "finish \<Rightarrow> usage \<Rightarrow> gen_event \<times> (metrics \<Rightarrow> metrics) \<times> string option" where
  "finish_event f u =
     (let cnt = count_tokens (us_prompt_tokens u) (us_completion_tokens u) in
      case f of
        Fi_Stop \<Rightarrow> (Ge_Done Fr_Stop u, cnt, Some ''stop'')
      | Fi_Length \<Rightarrow> (Ge_Done Fr_Length u, cnt, Some ''length'')
      | Fi_Cancelled \<Rightarrow>
          (Ge_Done Fr_Cancelled u,
           (\<lambda>m. cnt (m\<lparr>cancelled_total := cancelled_total m + 1\<rparr>)), Some ''cancelled'')
      | Fi_Failed e \<Rightarrow>
          (Ge_Failed e, (\<lambda>m. m\<lparr>errors_total := errors_total m + 1\<rparr>), None))"

text \<open>Nanoseconds per token after the first, and \<open>u32::try_from(x).unwrap_or(u32::MAX)\<close>.\<close>

definition per_token :: "nat \<Rightarrow> nat \<Rightarrow> u64 \<Rightarrow> nat" where
  "per_token done_at ft generated = (done_at - ft) div unat (ucast generated - 1 :: u32)"

definition sat_u32 :: "u64 \<Rightarrow> u32" where
  "sat_u32 x = (if unat x < 2 ^ 32 then ucast x else - 1)"

definition latency_metrics :: "('s, 'c) active_gen \<Rightarrow> finish \<Rightarrow> nat \<Rightarrow> metrics \<Rightarrow> metrics" where
  "latency_metrics gen f done_at m =
     (case ag_first_token_at gen of
        None \<Rightarrow> m
      | Some ft \<Rightarrow>
          if (case f of Fi_Failed _ \<Rightarrow> True | _ \<Rightarrow> False) then m
          else let m1 = observe_ttft ((ft - ag_enqueued_at gen) div 1000) m in
            if ag_generated gen \<ge> 2
            then observe_tpot (per_token done_at ft (ag_generated gen) div 1000) m1
            else m1)"

definition recent_entry :: "('s, 'c) active_gen \<Rightarrow> string \<Rightarrow> nat \<Rightarrow> u64 \<Rightarrow> recent_req" where
  "recent_entry gen reason done_at ts_ms =
     \<lparr>rr_ttft_us =
        (case ag_first_token_at gen of
           None \<Rightarrow> 0 | Some ft \<Rightarrow> of_nat ((ft - ag_enqueued_at gen) div 1000)),
      rr_tpot_us =
        (case ag_first_token_at gen of
           Some ft \<Rightarrow>
             if ag_generated gen \<ge> 2
             then of_nat (per_token done_at ft (ag_generated gen) div 1000) else 0
         | None \<Rightarrow> 0),
      rr_prompt_tokens = sat_u32 (ag_prompt_tokens gen),
      rr_completion_tokens = sat_u32 (ag_generated gen),
      rr_finish_reason = reason, rr_ts_ms = ts_ms\<rparr>"

definition retire ::
  "('e, 's, 'g, 'c) env \<Rightarrow> ('s, 'c) active_gen \<Rightarrow> finish \<Rightarrow> retire_mode \<Rightarrow>
   ('e, 's, 'g, 'c) worker \<Rightarrow> ('e, 's, 'g, 'c) worker" where
  "retire env gen f mode w =
     (let (done_at, w1) = now env w;
          w2 = (case ag_slot_id gen of None \<Rightarrow> w1 | Some slot \<Rightarrow> group_remove env slot w1);
          u = \<lparr>us_prompt_tokens = ag_prompt_tokens gen, us_completion_tokens = ag_generated gen\<rparr>;
          p1 = (case ag_pending_tok gen of
                  None \<Rightarrow> ag_port gen
                | Some t \<Rightarrow> send_by_mode env mode (Ge_Token t) (ag_port gen));
          w3 = with_met (latency_metrics gen f done_at) w2;
          (ev, upd, reason) = finish_event f u;
          w4 = with_met upd w3;
          p2 = send_by_mode env mode ev p1;
          w5 = (case reason of
                  None \<Rightarrow> w4
                | Some r \<Rightarrow>
                    (let ts = en_wall_ms env (wk_reads w4) in
                     with_met (push_recent (recent_entry gen r done_at ts)) w4));
          w6 = with_met (\<lambda>m. m\<lparr>active_streams := active_streams m - 1\<rparr>) w5;
          w7 = return_session env (ag_session gen) (reset_ignored env (ag_session gen) w6)
      in with_met (\<lambda>m. m\<lparr>active_sessions := of_nat (length (wk_active w7))\<rparr>)
           (w7\<lparr>wk_done := wk_done w7 @ [p2]\<rparr>))"

subsection \<open>Admission into the active set\<close>

definition fail_intake ::
  "('e, 's, 'g, 'c) env \<Rightarrow> 'c \<Rightarrow> 's option \<Rightarrow> string \<Rightarrow> ('e, 's, 'g, 'c) worker \<Rightarrow>
   ('e, 's, 'g, 'c) worker" where
  "fail_intake env p session msg w =
     (let w1 = with_met (\<lambda>m. m\<lparr>errors_total := errors_total m + 1,
                               active_streams := active_streams m - 1\<rparr>) w;
          p1 = snd (po_blocking_send (en_port env) (Ge_Failed msg) p);
          w2 = w1\<lparr>wk_done := wk_done w1 @ [p1]\<rparr>
      in case session of
           None \<Rightarrow> w2
         | Some s \<Rightarrow> return_session env s (reset_ignored env s w2))"

text \<open>\<open>idle.pop()\<close>, or a new session.\<close>

definition take_session ::
  "('e, 's, 'g, 'c) env \<Rightarrow> ('e, 's, 'g, 'c) worker \<Rightarrow> (string + 's) \<times> ('e, 's, 'g, 'c) worker" where
  "take_session env w =
     (if wk_idle w \<noteq> [] then (Inr (last (wk_idle w)), w\<lparr>wk_idle := butlast (wk_idle w)\<rparr>)
      else let (r, e1) = eo_create (en_ops env) (wk_eng w) in (r, w\<lparr>wk_eng := e1\<rparr>))"

definition prefill_us_of ::
  "('e, 's, 'g, 'c) env \<Rightarrow> 's \<Rightarrow> ('e, 's, 'g, 'c) worker \<Rightarrow> (string + u64) \<times> ('e, 's, 'g, 'c) worker" where
  "prefill_us_of env s w =
     (let (r, e1) = eo_stats (en_ops env) s (wk_eng w) in
      (case r of Inl e \<Rightarrow> Inl e | Inr st \<Rightarrow> Inr (rs_prefill_us st), w\<lparr>wk_eng := e1\<rparr>))"

text \<open>Unsigned \<open>saturating_sub\<close>.\<close>

definition sat_sub :: "u64 \<Rightarrow> u64 \<Rightarrow> u64" where
  "sat_sub a b = (if b \<le> a then a - b else 0)"

definition prefill_job ::
  "('e, 's, 'g, 'c) env \<Rightarrow> 's \<Rightarrow> i32 list \<Rightarrow> ('e, 's, 'g, 'c) worker \<Rightarrow>
   (string + unit) \<times> ('e, 's, 'g, 'c) worker" where
  "prefill_job env s ids w =
     (let (b, w1) = prefill_us_of env s w;
          before = (case b of Inl _ \<Rightarrow> 0 | Inr x \<Rightarrow> x);
          (r, e1) = eo_prefill (en_ops env) s ids (wk_eng w1);
          w2 = w1\<lparr>wk_eng := e1\<rparr>
      in case r of
           Inl e \<Rightarrow> (Inl e, w2)
         | Inr _ \<Rightarrow>
             (let (a, w3) = prefill_us_of env s w2 in
              (Inr (),
               case a of
                 Inl _ \<Rightarrow> w3
               | Inr x \<Rightarrow>
                   with_met (\<lambda>m. m\<lparr>prefill_us_total := prefill_us_total m + sat_sub x before\<rparr>) w3)))"

definition intake ::
  "('e, 's, 'g, 'c) env \<Rightarrow> 'c job \<Rightarrow> ('e, 's, 'g, 'c) worker \<Rightarrow> ('e, 's, 'g, 'c) worker" where
  "intake env j w =
     (let w1 = w\<lparr>wk_waiting := wk_waiting w - 1\<rparr>;
          w2 = with_met (\<lambda>m. m\<lparr>queue_depth := wk_waiting w1,
                               active_streams := active_streams m + 1\<rparr>) w1;
          p = job_port j; ids = gj_prompt_ids (job_inner j);
          (t, w3) = now env w2
      in if t - job_enqueued_at j > en_queue_timeout env
         then fail_intake env p None ''queue timeout'' w3
         else case take_session env w3 of
           (Inl e, w4) \<Rightarrow> fail_intake env p None (''create_session: '' @ e) w4
         | (Inr s, w4) \<Rightarrow>
             (case eo_reset (en_ops env) s (wk_eng w4) of
                (Inl e, e5) \<Rightarrow> fail_intake env p (Some s) (''session reset: '' @ e) (w4\<lparr>wk_eng := e5\<rparr>)
              | (Inr _, e5) \<Rightarrow>
                  (case prefill_job env s ids (w4\<lparr>wk_eng := e5\<rparr>) of
                     (Inl e, w6) \<Rightarrow> fail_intake env p (Some s) (''prefill: '' @ e) w6
                   | (Inr _, w6) \<Rightarrow>
                       (let gen = \<lparr>ag_session = s, ag_config = gj_config (job_inner j), ag_port = p,
                                   ag_prompt_tokens = of_nat (length ids), ag_generated = 0,
                                   ag_pending_tok = None, ag_enqueued_at = job_enqueued_at j,
                                   ag_first_token_at = None, ag_slot_id = None,
                                   ag_batch_held = False, ag_phase = Decoding\<rparr>;
                            w7 = w6\<lparr>wk_active := wk_active w6 @ [gen]\<rparr>
                        in with_met (\<lambda>m. m\<lparr>active_sessions := of_nat (length (wk_active w7))\<rparr>) w7))))"

end
