(* ===== verification/Worker.thy ===== *)
theory Worker
  imports Scheduler
begin

section \<open>The scheduler's worker loop\<close>

text \<open>
  \<open>worker_loop\<close> of \<open>minicpm-scheduler/src/lib.rs\<close>: one iteration admits at most one job, then
  runs a quantum: sorting into solo and batch streams, the single hold of a lone batchable
  stream, the solo steps, the batch step with its fallback, and the release of an empty group.
  While a quantum runs, \<open>wk_active\<close> holds only the streams already pushed back, as the deque
  does. What \<open>recv\<close> or \<open>try_recv\<close> returns and whether \<open>closing\<close> is set are inputs of an
  iteration; the theory of the whole system supplies them from the job queue.
\<close>

definition batching_on :: "('e, 's, 'g, 'c) env \<Rightarrow> bool" where
  "batching_on env \<longleftrightarrow> en_batching env \<and> eo_batch (en_ops env) \<noteq> None"

definition max_batch_slots :: "('e, 's, 'g, 'c) env \<Rightarrow> nat" where
  "max_batch_slots env = min (en_max_sessions env) max_batch_slots_cap"

subsection \<open>Sorting and holding\<close>

definition want_batch :: "('e, 's, 'g, 'c) env \<Rightarrow> ('s, 'c) active_gen \<Rightarrow> bool" where
  "want_batch env gen \<longleftrightarrow>
     batching_on env \<and> ag_pending_tok gen = None \<and> is_greedy (ag_config gen)"

type_synonym ('e, 's, 'g, 'c) sorted =
  "('s, 'c) active_gen list \<times> ('s, 'c) active_gen list \<times> ('e, 's, 'g, 'c) worker"

fun sort_gens ::
  "('e, 's, 'g, 'c) env \<Rightarrow> ('s, 'c) active_gen list \<Rightarrow> ('s, 'c) active_gen list \<Rightarrow>
   ('s, 'c) active_gen list \<Rightarrow> ('e, 's, 'g, 'c) worker \<Rightarrow> ('e, 's, 'g, 'c) sorted" where
  "sort_gens env [] solo batch w = (solo, batch, w)"
| "sort_gens env (gen # gens) solo batch w =
     (if want_batch env gen \<and> length batch < max_batch_slots env
      then sort_gens env gens solo (batch @ [gen]) w
      else let (gen1, w1) = demote_from_group env gen w
           in sort_gens env gens (solo @ [gen1]) batch w1)"

definition push_active ::
  "('s, 'c) active_gen \<Rightarrow> ('e, 's, 'g, 'c) worker \<Rightarrow> ('e, 's, 'g, 'c) worker" where
  "push_active gen w = w\<lparr>wk_active := wk_active w @ [gen]\<rparr>"

definition hold_lone ::
  "('e, 's, 'g, 'c) env \<Rightarrow> ('e, 's, 'g, 'c) sorted \<Rightarrow> ('e, 's, 'g, 'c) sorted" where
  "hold_lone env s =
     (case s of (solo, batch, w) \<Rightarrow>
        (case batch of
           [gen] \<Rightarrow>
             if \<not> batching_on env then s
             else if \<not> ag_batch_held gen
             then (solo, [], push_active (gen\<lparr>ag_batch_held := True\<rparr>) w)
             else (let (gen1, w1) = demote_from_group env gen w in (solo @ [gen1], [], w1))
         | _ \<Rightarrow> s))"

subsection \<open>Stepping\<close>

definition settle ::
  "('e, 's, 'g, 'c) env \<Rightarrow> step_result \<times> ('s, 'c) active_gen \<times> ('e, 's, 'g, 'c) worker \<Rightarrow>
   ('e, 's, 'g, 'c) worker" where
  "settle env r =
     (case r of
        (Sr_Done f, gen, w) \<Rightarrow> retire env gen f Serving w
      | (_, gen, w) \<Rightarrow> push_active gen w)"

fun step_all ::
  "('e, 's, 'g, 'c) env \<Rightarrow> ('s, 'c) active_gen list \<Rightarrow> ('e, 's, 'g, 'c) worker \<Rightarrow>
   ('e, 's, 'g, 'c) worker" where
  "step_all env [] w = w"
| "step_all env (gen # gens) w = step_all env gens (settle env (step env gen w))"

text \<open>The fallback: each member leaves the group right before its own solo step.\<close>

fun demote_step_all ::
  "('e, 's, 'g, 'c) env \<Rightarrow> ('s, 'c) active_gen list \<Rightarrow> ('e, 's, 'g, 'c) worker \<Rightarrow>
   ('e, 's, 'g, 'c) worker" where
  "demote_step_all env [] w = w"
| "demote_step_all env (gen # gens) w =
     (let (gen1, w1) = demote_from_group env gen w
      in demote_step_all env gens (settle env (step env gen1 w1)))"

text \<open>The members of a batch step, each with its token.\<close>

fun feed_all ::
  "('e, 's, 'g, 'c) env \<Rightarrow> (('s, 'c) active_gen \<times> i32) list \<Rightarrow> ('e, 's, 'g, 'c) worker \<Rightarrow>
   ('e, 's, 'g, 'c) worker" where
  "feed_all env [] w = w"
| "feed_all env ((gen, tok) # gs) w = feed_all env gs (settle env (feed_token env gen tok w))"

text \<open>The check of the cancel flags before a batch step; cancelled members retire.\<close>

fun drop_cancelled ::
  "('e, 's, 'g, 'c) env \<Rightarrow> ('s, 'c) active_gen list \<Rightarrow> ('e, 's, 'g, 'c) worker \<Rightarrow>
   ('s, 'c) active_gen list \<times> ('e, 's, 'g, 'c) worker" where
  "drop_cancelled env [] w = ([], w)"
| "drop_cancelled env (gen # gens) w =
     (let (c, port) = po_cancelled (en_port env) (ag_port gen);
          gen1 = gen\<lparr>ag_port := port\<rparr>
      in if c then drop_cancelled env gens (retire env gen1 Fi_Cancelled Serving w)
         else (let (gs, w1) = drop_cancelled env gens w in (gen1 # gs, w1)))"

subsection \<open>The batch step\<close>

definition ensure_group ::
  "('e, 's, 'g, 'c) env \<Rightarrow> ('e, 's, 'g) batch_ops \<Rightarrow> ('e, 's, 'g, 'c) worker \<Rightarrow>
   'g option \<times> ('e, 's, 'g, 'c) worker" where
  "ensure_group env bo w =
     (case wk_group w of
        Some g \<Rightarrow> (Some g, w)
      | None \<Rightarrow>
          (case bo_create bo \<lparr>bg_max_slots = of_nat (max_batch_slots env), bg_max_context_tokens = 0\<rparr>
                  (wk_eng w) of
             (Inr g, e1) \<Rightarrow> (Some g, w\<lparr>wk_group := Some g, wk_eng := e1\<rparr>)
           | (Inl _, e1) \<Rightarrow> (None, w\<lparr>wk_eng := e1\<rparr>)))"

text \<open>Members without a slot join; the first refusal stops the loop.\<close>

fun add_missing ::
  "('e, 's, 'g) batch_ops \<Rightarrow> 'g \<Rightarrow> ('s, 'c) active_gen list \<Rightarrow> 'e \<Rightarrow>
   bool \<times> ('s, 'c) active_gen list \<times> 'e" where
  "add_missing bo g [] e = (True, [], e)"
| "add_missing bo g (gen # gens) e =
     (if ag_slot_id gen \<noteq> None
      then (let (ok, gs, e1) = add_missing bo g gens e in (ok, gen # gs, e1))
      else case bo_add bo g (ag_session gen) e of
        (Inl _, e1) \<Rightarrow> (False, gen # gens, e1)
      | (Inr slot, e1) \<Rightarrow>
          (let (ok, gs, e2) = add_missing bo g gens e1
           in (ok, gen\<lparr>ag_slot_id := Some slot\<rparr> # gs, e2)))"

text \<open>The attempt: the tokens of the members, or \<open>None\<close> when any part of it failed.\<close>

definition try_batch ::
  "('e, 's, 'g, 'c) env \<Rightarrow> ('e, 's, 'g) batch_ops \<Rightarrow> ('s, 'c) active_gen list \<Rightarrow>
   ('e, 's, 'g, 'c) worker \<Rightarrow>
   i32 list option \<times> ('s, 'c) active_gen list \<times> ('e, 's, 'g, 'c) worker" where
  "try_batch env bo batch w =
     (case ensure_group env bo w of
        (None, w1) \<Rightarrow> (None, batch, w1)
      | (Some g, w1) \<Rightarrow>
          (case add_missing bo g batch (wk_eng w1) of
             (False, batch1, e1) \<Rightarrow> (None, batch1, w1\<lparr>wk_eng := e1\<rparr>)
           | (True, batch1, e1) \<Rightarrow>
               (case bo_step bo g (map (\<lambda>x. the (ag_slot_id x)) batch1) (map ag_config batch1) e1 of
                  (Inl _, e2) \<Rightarrow> (None, batch1, w1\<lparr>wk_eng := e2\<rparr>)
                | (Inr toks, e2) \<Rightarrow>
                    (if length toks = length batch1 then Some toks else None,
                     batch1, w1\<lparr>wk_eng := e2\<rparr>))))"

definition run_batch ::
  "('e, 's, 'g, 'c) env \<Rightarrow> ('s, 'c) active_gen list \<Rightarrow> ('e, 's, 'g, 'c) worker \<Rightarrow>
   ('e, 's, 'g, 'c) worker" where
  "run_batch env batch w =
     (case eo_batch (en_ops env) of
        None \<Rightarrow> demote_step_all env batch w
      | Some bo \<Rightarrow>
          (case try_batch env bo batch w of
             (None, batch1, w1) \<Rightarrow>
               demote_step_all env batch1
                 (with_met (\<lambda>m. m\<lparr>batch_fallbacks_total := batch_fallbacks_total m + 1\<rparr>) w1)
           | (Some toks, batch1, w1) \<Rightarrow>
               feed_all env (zip batch1 toks)
                 (with_met (\<lambda>m. m\<lparr>batched_steps_total := batched_steps_total m + 1,
                                 batch_size_sum := batch_size_sum m + of_nat (length batch1)\<rparr>) w1)))"

definition batch_phase ::
  "('e, 's, 'g, 'c) env \<Rightarrow> ('s, 'c) active_gen list \<Rightarrow> ('e, 's, 'g, 'c) worker \<Rightarrow>
   ('e, 's, 'g, 'c) worker" where
  "batch_phase env batch w =
     (let (batch1, w1) = (if length batch \<ge> 2 then drop_cancelled env batch w else (batch, w))
      in if length batch1 \<ge> 2 then run_batch env batch1 w1 else demote_step_all env batch1 w1)"

text \<open>\<open>drop(group.take())\<close> when no active stream holds a slot.\<close>

definition release_group :: "('e, 's, 'g, 'c) env \<Rightarrow> ('e, 's, 'g, 'c) worker \<Rightarrow> ('e, 's, 'g, 'c) worker" where
  "release_group env w =
     (case (wk_group w, eo_batch (en_ops env)) of
        (Some g, Some bo) \<Rightarrow>
          if list_all (\<lambda>x. ag_slot_id x = None) (wk_active w)
          then w\<lparr>wk_group := None, wk_eng := bo_drop bo g (wk_eng w)\<rparr> else w
      | _ \<Rightarrow> w)"

definition quantum :: "('e, 's, 'g, 'c) env \<Rightarrow> ('e, 's, 'g, 'c) worker \<Rightarrow> ('e, 's, 'g, 'c) worker" where
  "quantum env w =
     (case hold_lone env (sort_gens env (wk_active w) [] [] (w\<lparr>wk_active := []\<rparr>)) of
        (solo, batch, w1) \<Rightarrow> release_group env (batch_phase env batch (step_all env solo w1)))"

subsection \<open>The loop\<close>

function shutdown_active ::
  "('e, 's, 'g, 'c) env \<Rightarrow> ('s, 'c) active_gen list \<Rightarrow> ('e, 's, 'g, 'c) worker \<Rightarrow>
   ('e, 's, 'g, 'c) worker" where
  "shutdown_active env [] w = w\<lparr>wk_active := []\<rparr>"
| "shutdown_active env (gen # gens) w =
     shutdown_active env gens
       (retire env gen (Fi_Failed ''scheduler shutting down'') Shutdown (w\<lparr>wk_active := gens\<rparr>))"
  by pat_completeness auto
termination
  by (relation "measure (\<lambda>(env, gens, w). length gens)") auto

datatype 'c recv = Rx_Job "'c job" | Rx_Empty | Rx_Disconnected

text \<open>One iteration: whether the loop goes on, and the worker after it. \<open>Rx_Empty\<close> with no active
  stream is a \<open>recv\<close> that still blocks.\<close>

definition worker_iter ::
  "('e, 's, 'g, 'c) env \<Rightarrow> 'c recv \<Rightarrow> bool \<Rightarrow> ('e, 's, 'g, 'c) worker \<Rightarrow>
   bool \<times> ('e, 's, 'g, 'c) worker" where
  "worker_iter env rx closing w =
     (if wk_active w = [] then
        (case rx of
           Rx_Job j \<Rightarrow> (True, quantum env (intake env j w))
         | Rx_Disconnected \<Rightarrow> (False, w)
         | Rx_Empty \<Rightarrow> (True, w))
      else if length (wk_active w) < en_max_sessions env then
        (case rx of
           Rx_Job j \<Rightarrow> (True, quantum env (intake env j w))
         | Rx_Empty \<Rightarrow> (True, quantum env w)
         | Rx_Disconnected \<Rightarrow> (False, shutdown_active env (wk_active w) w))
      else if closing then (False, shutdown_active env (wk_active w) w)
      else (True, quantum env w))"

text \<open>The end of the thread: the group and the idle sessions are dropped.\<close>

definition worker_exit :: "('e, 's, 'g, 'c) env \<Rightarrow> ('e, 's, 'g, 'c) worker \<Rightarrow> ('e, 's, 'g, 'c) worker" where
  "worker_exit env w =
     (let e1 = (case (wk_group w, eo_batch (en_ops env)) of
                  (Some g, Some bo) \<Rightarrow> bo_drop bo g (wk_eng w) | _ \<Rightarrow> wk_eng w);
          e2 = fold (eo_drop (en_ops env)) (wk_idle w) e1
      in with_met (\<lambda>m. m\<lparr>active_sessions := 0\<rparr>)
           (w\<lparr>wk_group := None, wk_idle := [], wk_eng := e2\<rparr>))"

definition worker_init :: "'e \<Rightarrow> metrics \<Rightarrow> ('e, 's, 'g, 'c) worker" where
  "worker_init e m =
     \<lparr>wk_idle = [], wk_active = [], wk_group = None, wk_eng = e, wk_met = m, wk_waiting = 0,
      wk_reads = 0, wk_done = []\<rparr>"

text \<open>Iterations with given inputs; the loop ends at the first that breaks.\<close>

fun worker_run ::
  "('e, 's, 'g, 'c) env \<Rightarrow> ('c recv \<times> bool) list \<Rightarrow> ('e, 's, 'g, 'c) worker \<Rightarrow>
   bool \<times> ('e, 's, 'g, 'c) worker" where
  "worker_run env [] w = (True, w)"
| "worker_run env ((rx, c) # ins) w =
     (case worker_iter env rx c w of
        (True, w1) \<Rightarrow> worker_run env ins w1
      | (False, w1) \<Rightarrow> (False, worker_exit env w1))"

end
