(* ===== verification/Worker_Frame.thy ===== *)
theory Worker_Frame
  imports Worker
begin

section \<open>The frame of the worker's operations\<close>

text \<open>
  Which fields of the worker each operation leaves alone (the collection \<open>wk_simps\<close>), the three
  ways an admission can go, and the locale \<open>quantum_frame\<close>: what one step does to a stream, a
  whole quantum does to every stream.
\<close>

subsection \<open>Fields that operations leave alone\<close>

named_theorems wk_simps \<open>projections of a worker after an operation\<close>

lemma with_met_simps [wk_simps]:
  "wk_idle (with_met f w) = wk_idle w" "wk_active (with_met f w) = wk_active w"
  "wk_group (with_met f w) = wk_group w" "wk_eng (with_met f w) = wk_eng w"
  "wk_waiting (with_met f w) = wk_waiting w" "wk_done (with_met f w) = wk_done w"
  "wk_met (with_met f w) = f (wk_met w)" "wk_reads (with_met f w) = wk_reads w"
  by (simp_all add: with_met_def)

lemma now_simps [wk_simps]:
  "wk_idle (snd (now env w)) = wk_idle w" "wk_active (snd (now env w)) = wk_active w"
  "wk_group (snd (now env w)) = wk_group w" "wk_eng (snd (now env w)) = wk_eng w"
  "wk_waiting (snd (now env w)) = wk_waiting w" "wk_done (snd (now env w)) = wk_done w"
  "wk_met (snd (now env w)) = wk_met w"
  by (simp_all add: now_def)

lemma reset_ignored_simps [wk_simps]:
  "wk_idle (reset_ignored env s w) = wk_idle w" "wk_active (reset_ignored env s w) = wk_active w"
  "wk_group (reset_ignored env s w) = wk_group w" "wk_waiting (reset_ignored env s w) = wk_waiting w"
  "wk_done (reset_ignored env s w) = wk_done w" "wk_met (reset_ignored env s w) = wk_met w"
  by (simp_all add: reset_ignored_def)

lemma group_remove_simps [wk_simps]:
  "wk_idle (group_remove env s w) = wk_idle w" "wk_active (group_remove env s w) = wk_active w"
  "wk_group (group_remove env s w) = wk_group w" "wk_waiting (group_remove env s w) = wk_waiting w"
  "wk_done (group_remove env s w) = wk_done w" "wk_met (group_remove env s w) = wk_met w"
  by (simp_all add: group_remove_def split: option.splits)

lemma return_session_simps [wk_simps]:
  "wk_active (return_session env s w) = wk_active w" "wk_group (return_session env s w) = wk_group w"
  "wk_waiting (return_session env s w) = wk_waiting w" "wk_done (return_session env s w) = wk_done w"
  "wk_met (return_session env s w) = wk_met w"
  by (simp_all add: return_session_def)

lemma push_active_simps [wk_simps]:
  "wk_idle (push_active g w) = wk_idle w" "wk_active (push_active g w) = wk_active w @ [g]"
  "wk_group (push_active g w) = wk_group w" "wk_waiting (push_active g w) = wk_waiting w"
  "wk_done (push_active g w) = wk_done w" "wk_met (push_active g w) = wk_met w"
  by (simp_all add: push_active_def)

lemma demote_worker [wk_simps]:
  "wk_idle (snd (demote_from_group env g w)) = wk_idle w"
  "wk_active (snd (demote_from_group env g w)) = wk_active w"
  "wk_group (snd (demote_from_group env g w)) = wk_group w"
  "wk_waiting (snd (demote_from_group env g w)) = wk_waiting w"
  "wk_done (snd (demote_from_group env g w)) = wk_done w"
  "wk_met (snd (demote_from_group env g w)) = wk_met w"
  by (simp_all add: demote_from_group_def wk_simps split: option.splits)

lemma demote_gen: "fst (demote_from_group env g w) = g\<lparr>ag_slot_id := None\<rparr>"
  by (cases g) (simp add: demote_from_group_def split: option.splits)

definition retire_port :: "('e, 's, 'g, 'c) env \<Rightarrow> ('s, 'c) active_gen \<Rightarrow> finish \<Rightarrow> retire_mode \<Rightarrow> 'c" where
  "retire_port env gen f mode =
     send_by_mode env mode
       (fst (finish_event f \<lparr>us_prompt_tokens = ag_prompt_tokens gen, us_completion_tokens = ag_generated gen\<rparr>))
       (case ag_pending_tok gen of
          None \<Rightarrow> ag_port gen | Some t \<Rightarrow> send_by_mode env mode (Ge_Token t) (ag_port gen))"

lemma retire_simps [wk_simps]:
  "wk_active (retire env g f mode w) = wk_active w"
  "wk_done (retire env g f mode w) = wk_done w @ [retire_port env g f mode]"
  "wk_group (retire env g f mode w) = wk_group w"
  "wk_waiting (retire env g f mode w) = wk_waiting w"
  by (simp_all add: retire_def retire_port_def Let_def wk_simps case_prod_beta split: option.splits)

lemma return_session_idle:
  "length (wk_idle w) + length (wk_active w) < en_max_sessions env \<Longrightarrow>
   wk_idle (return_session env s w) = wk_idle w @ [s]"
  by (simp add: return_session_def)

lemma retire_idle:
  "length (wk_idle w) + length (wk_active w) < en_max_sessions env \<Longrightarrow>
   wk_idle (retire env g f mode w) = wk_idle w @ [ag_session g]"
  by (simp add: retire_def Let_def wk_simps case_prod_beta return_session_def split: option.splits)

lemma decode_worker:
  "feed_token env gen tok w = (r, g, w') \<Longrightarrow>
   wk_idle w' = wk_idle w \<and> wk_active w' = wk_active w \<and> wk_group w' = wk_group w \<and>
   wk_waiting w' = wk_waiting w \<and> wk_done w' = wk_done w \<and> wk_met w' = wk_met w \<and>
   ag_session g = ag_session gen \<and> ag_slot_id g = ag_slot_id gen \<and> ag_batch_held g = ag_batch_held gen \<and>
   ag_config g = ag_config gen"
  by (auto simp: feed_token_def Let_def now_def split: if_splits option.splits prod.splits send_result.splits)

lemma decode_and_feed_worker:
  "decode_and_feed env gen w = (r, g, w') \<Longrightarrow>
   wk_idle w' = wk_idle w \<and> wk_active w' = wk_active w \<and> wk_group w' = wk_group w \<and>
   wk_waiting w' = wk_waiting w \<and> wk_done w' = wk_done w \<and> wk_met w' = wk_met w \<and>
   ag_session g = ag_session gen \<and> ag_slot_id g = ag_slot_id gen \<and> ag_batch_held g = ag_batch_held gen \<and>
   ag_config g = ag_config gen"
  by (auto simp: decode_and_feed_def Let_def dest!: decode_worker split: prod.splits sum.splits)

lemma step_worker:
  "step env gen w = (r, g, w') \<Longrightarrow>
   wk_idle w' = wk_idle w \<and> wk_active w' = wk_active w \<and> wk_group w' = wk_group w \<and>
   wk_waiting w' = wk_waiting w \<and> wk_done w' = wk_done w \<and> wk_met w' = wk_met w \<and>
   ag_session g = ag_session gen \<and> ag_slot_id g = ag_slot_id gen \<and> ag_batch_held g = ag_batch_held gen \<and>
   ag_config g = ag_config gen"
  by (auto simp: step_def Let_def dest!: decode_and_feed_worker
           split: if_splits option.splits prod.splits send_result.splits)

lemma settle_simps [wk_simps]:
  "wk_active (settle env (r, g, w)) = (case r of Sr_Done _ \<Rightarrow> wk_active w | _ \<Rightarrow> wk_active w @ [g])"
  "wk_done (settle env (r, g, w)) =
     (case r of Sr_Done f \<Rightarrow> wk_done w @ [retire_port env g f Serving] | _ \<Rightarrow> wk_done w)"
  "wk_group (settle env (r, g, w)) = wk_group w"
  "wk_waiting (settle env (r, g, w)) = wk_waiting w"
  by (simp_all add: settle_def wk_simps split: step_result.splits)

lemma take_session_fields:
  "take_session env w = (r, w') \<Longrightarrow>
   wk_active w' = wk_active w \<and> wk_done w' = wk_done w \<and> wk_group w' = wk_group w \<and> wk_waiting w' = wk_waiting w \<and>
   wk_met w' = wk_met w"
  by (auto simp: take_session_def split: if_splits prod.splits)

subsection \<open>Admission\<close>

text \<open>\<open>admission w w'\<close>: the worker up to the point where a session is taken or the job fails.\<close>

definition admission :: "('e, 's, 'g, 'c) worker \<Rightarrow> ('e, 's, 'g, 'c) worker \<Rightarrow> bool" where
  "admission w w' \<longleftrightarrow>
     wk_active w' = wk_active w \<and> wk_done w' = wk_done w \<and> wk_group w' = wk_group w \<and>
     wk_waiting w' = wk_waiting w - 1 \<and>
     active_streams (wk_met w') = active_streams (wk_met w) + 1"

definition new_gen :: "'s \<Rightarrow> 'c job \<Rightarrow> ('s, 'c) active_gen" where
  "new_gen s j =
     \<lparr>ag_session = s, ag_config = gj_config (job_inner j), ag_port = job_port j,
      ag_prompt_tokens = of_nat (length (gj_prompt_ids (job_inner j))), ag_generated = 0,
      ag_pending_tok = None, ag_enqueued_at = job_enqueued_at j, ag_first_token_at = None,
      ag_slot_id = None, ag_batch_held = False, ag_phase = Decoding\<rparr>"

text \<open>Where the session of a new stream comes from.\<close>

definition took :: "('e, 's, 'g, 'c) env \<Rightarrow> 's list \<Rightarrow> 's \<Rightarrow> 's list \<Rightarrow> bool" where
  "took env idle s idle' \<longleftrightarrow>
     idle = idle' @ [s] \<or>
     (idle = [] \<and> idle' = [] \<and> (\<exists>e. fst (eo_create (en_ops env) e) = Inr s))"

lemma take_session_took:
  "take_session env w = (r, w') \<Longrightarrow>
   (case r of Inl _ \<Rightarrow> wk_idle w' = wk_idle w | Inr s \<Rightarrow> took env (wk_idle w) s (wk_idle w'))"
proof (cases "wk_idle w = []")
  case True
  moreover assume "take_session env w = (r, w')"
  moreover obtain r1 e1 where "eo_create (en_ops env) (wk_eng w) = (r1, e1)"
    by (cases "eo_create (en_ops env) (wk_eng w)") auto
  ultimately show ?thesis
    by (cases r) (auto simp: take_session_def took_def intro!: exI [of _ "wk_eng w"])
qed (auto simp: take_session_def took_def)

lemma prefill_job_admission:
  "prefill_job env s ids w = (r, w') \<Longrightarrow>
   wk_idle w' = wk_idle w \<and> wk_active w' = wk_active w \<and> wk_done w' = wk_done w \<and>
   wk_group w' = wk_group w \<and> wk_waiting w' = wk_waiting w \<and>
   active_streams (wk_met w') = active_streams (wk_met w)"
  by (auto simp: prefill_job_def prefill_us_of_def wk_simps Let_def split: prod.splits sum.splits)

lemma intake_cases:
  obtains (no_session) msg w1 where "intake env j w = fail_intake env (job_port j) None msg w1"
      "admission w w1" "wk_idle w1 = wk_idle w"
  | (failed) s msg w1 where "intake env j w = fail_intake env (job_port j) (Some s) msg w1"
      "admission w w1" "took env (wk_idle w) s (wk_idle w1)"
  | (admitted) s w1 where
      "intake env j w =
         with_met (\<lambda>m. m\<lparr>active_sessions := of_nat (length (wk_active w1) + 1)\<rparr>) (push_active (new_gen s j) w1)"
      "admission w w1" "took env (wk_idle w) s (wk_idle w1)"
proof -
  define w2 where "w2 = with_met (\<lambda>m. m\<lparr>queue_depth := wk_waiting w - 1, active_streams := active_streams m + 1\<rparr>)
    (w\<lparr>wk_waiting := wk_waiting w - 1\<rparr>)"
  obtain t w3 where t: "now env w2 = (t, w3)" by (cases "now env w2") auto
  have a3: "admission w w3" "wk_idle w3 = wk_idle w"
    using t by (auto simp: admission_def now_def w2_def wk_simps)
  obtain r w4 where ts: "take_session env w3 = (r, w4)" by (cases "take_session env w3") auto
  have a4: "admission w w4" using a3(1) take_session_fields [OF ts] by (simp add: admission_def)
  show thesis
  proof (cases "t - job_enqueued_at j > en_queue_timeout env")
    case True
    with t show thesis by (intro no_session [OF _ a3]) (simp add: intake_def Let_def w2_def)
  next
    case F: False
    show thesis
    proof (cases r)
      case (Inl e)
      have "wk_idle w4 = wk_idle w" using take_session_took [OF ts] Inl a3(2) by simp
      with F t ts Inl show thesis by (intro no_session [OF _ a4]) (simp_all add: intake_def Let_def w2_def)
    next
      case r: (Inr s)
      have tk: "took env (wk_idle w) s (wk_idle w4)" using take_session_took [OF ts] r a3(2) by simp
      obtain rr e5 where rr: "eo_reset (en_ops env) s (wk_eng w4) = (rr, e5)"
        by (cases "eo_reset (en_ops env) s (wk_eng w4)") auto
      have a5: "admission w (w4\<lparr>wk_eng := e5\<rparr>)" using a4 by (simp add: admission_def)
      show thesis
      proof (cases rr)
        case (Inl e)
        with F t ts r rr tk show thesis by (intro failed [OF _ a5]) (simp_all add: intake_def Let_def w2_def)
      next
        case rru: (Inr u')
        obtain pr w6 where pr: "prefill_job env s (gj_prompt_ids (job_inner j)) (w4\<lparr>wk_eng := e5\<rparr>) = (pr, w6)"
          by (cases "prefill_job env s (gj_prompt_ids (job_inner j)) (w4\<lparr>wk_eng := e5\<rparr>)") auto
        note p6 = prefill_job_admission [OF pr]
        have a6: "admission w w6" and tk6: "took env (wk_idle w) s (wk_idle w6)"
          using a4 tk p6 by (simp_all add: admission_def)
        show thesis
        proof (cases pr)
          case (Inl e)
          with F t ts r rr rru pr tk6 show thesis
            by (intro failed [OF _ a6]) (simp_all add: intake_def Let_def w2_def)
        next
          case (Inr x)
          with F t ts r rr rru pr tk6 show thesis
            by (intro admitted [OF _ a6]) (simp_all add: intake_def Let_def w2_def new_gen_def push_active_def)
        qed
      qed
    qed
  qed
qed

lemma fail_intake_simps [wk_simps]:
  "wk_active (fail_intake env p so msg w) = wk_active w"
  "wk_done (fail_intake env p so msg w) =
     wk_done w @ [snd (po_blocking_send (en_port env) (Ge_Failed msg) p)]"
  "wk_group (fail_intake env p so msg w) = wk_group w"
  "wk_waiting (fail_intake env p so msg w) = wk_waiting w"
  "active_streams (wk_met (fail_intake env p so msg w)) = active_streams (wk_met w) - 1"
  by (simp_all add: fail_intake_def Let_def wk_simps split: option.splits)

lemma fail_intake_idle:
  "length (wk_idle w) + length (wk_active w) < en_max_sessions env \<Longrightarrow>
   wk_idle (fail_intake env p so msg w) = wk_idle w @ (case so of None \<Rightarrow> [] | Some s \<Rightarrow> [s])"
  by (simp add: fail_intake_def Let_def wk_simps return_session_def split: option.splits)

lemma fail_intake_None_idle: "wk_idle (fail_intake env p None msg w) = wk_idle w"
  by (simp add: fail_intake_def Let_def wk_simps)

subsection \<open>The token counter\<close>

lemma unat_inc: "unat (g :: u64) < 2 ^ 32 \<Longrightarrow> unat (g + 1) = unat g + 1"
  by (simp add: unat_word_ariths)

lemma ucast_le: "(ucast (m :: u32) \<le> (g :: u64)) \<longleftrightarrow> unat m \<le> unat g"
proof -
  have "unat m < 2 ^ 32" using unsigned_less [of m] by simp
  then have "unat (ucast m :: u64) = unat m"
    by (simp add: unsigned_ucast_eq take_bit_nat_eq_self)
  then show ?thesis by (simp add: word_le_nat_alt)
qed

subsection \<open>What a quantum does to each stream\<close>

text \<open>
  A quantum steps every active stream once. If a step of a stream with \<open>pre\<close> leaves it with \<open>post\<close>
  or ends it with a channel that is \<open>fin\<close>, so does a whole quantum, whichever of the solo, batch,
  fallback and hold paths each stream takes.
\<close>

locale quantum_frame =
  fixes env :: "('e, 's, 'g, 'c) env"
    and pre post :: "('s, 'c) active_gen \<Rightarrow> bool"
    and fin :: "'c \<Rightarrow> bool"
  assumes pre_slot: "pre (g\<lparr>ag_slot_id := x\<rparr>) = pre g"
    and held: "pre g \<Longrightarrow> \<not> ag_batch_held g \<Longrightarrow> post (g\<lparr>ag_batch_held := True\<rparr>)"
    and stepped: "pre gen \<Longrightarrow> step env gen w = (r, g, w') \<Longrightarrow>
      case r of Sr_Done f \<Rightarrow> fin (retire_port env g f Serving) | _ \<Rightarrow> post g"
    and fed: "pre gen \<Longrightarrow> ag_pending_tok gen = None \<Longrightarrow> feed_token env gen tok w = (r, g, w') \<Longrightarrow>
      case r of Sr_Done f \<Rightarrow> fin (retire_port env g f Serving) | _ \<Rightarrow> post g"
    and polled: "pre g \<Longrightarrow> po_cancelled (en_port env) (ag_port g) = (c, q) \<Longrightarrow>
      pre (g\<lparr>ag_port := q\<rparr>) \<and> (c \<longrightarrow> fin (retire_port env (g\<lparr>ag_port := q\<rparr>) Fi_Cancelled Serving))"
begin

definition kept :: "('e, 's, 'g, 'c) worker \<Rightarrow> bool" where
  "kept w \<longleftrightarrow> (\<forall>g \<in> set (wk_active w). post g) \<and> (\<forall>p \<in> set (wk_done w). fin p)"

definition ready :: "('s, 'c) active_gen \<Rightarrow> bool" where
  "ready g \<longleftrightarrow> pre g \<and> ag_pending_tok g = None"

lemma kept_cong: "wk_active w' = wk_active w \<Longrightarrow> wk_done w' = wk_done w \<Longrightarrow> kept w' = kept w"
  by (simp add: kept_def)

lemma ready_pre: "\<forall>g \<in> set gs. ready g \<Longrightarrow> \<forall>g \<in> set gs. pre g"
  by (simp add: ready_def)

lemma kept_settle:
  "kept w \<Longrightarrow> case r of Sr_Done f \<Rightarrow> fin (retire_port env g f Serving) | _ \<Rightarrow> post g \<Longrightarrow>
   kept (settle env (r, g, w))"
  by (cases r) (auto simp: kept_def wk_simps)

lemma settle_step_kept:
  assumes "kept w" "pre gen"
  shows "kept (settle env (step env gen w))"
proof -
  obtain r g w' where st: "step env gen w = (r, g, w')" by (cases "step env gen w") auto
  have "kept w'" using step_worker [OF st] assms(1) kept_cong [of w' w] by blast
  from kept_settle [OF this stepped [OF assms(2) st]] st show ?thesis by simp
qed

lemma settle_feed_kept:
  assumes "kept w" "ready gen"
  shows "kept (settle env (feed_token env gen tok w))"
proof -
  obtain r g w' where st: "feed_token env gen tok w = (r, g, w')" by (cases "feed_token env gen tok w") auto
  have "kept w'" using decode_worker [OF st] assms(1) kept_cong [of w' w] by blast
  from kept_settle [OF this fed [OF _ _ st]] st assms(2) show ?thesis by (simp add: ready_def)
qed

lemma step_all_kept: "\<forall>g \<in> set gens. pre g \<Longrightarrow> kept w \<Longrightarrow> kept (step_all env gens w)"
proof (induction gens arbitrary: w)
  case (Cons g gs)
  then show ?case using settle_step_kept [of w g] by simp
qed simp

lemma demote_kept:
  "demote_from_group env g w = (g1, w1) \<Longrightarrow> pre g1 = pre g \<and> kept w1 = kept w"
  using demote_gen [of env g w] kept_cong [of w1 w] demote_worker [of env g w] pre_slot by auto

lemma demote_step_all_kept: "\<forall>g \<in> set gens. pre g \<Longrightarrow> kept w \<Longrightarrow> kept (demote_step_all env gens w)"
proof (induction gens arbitrary: w)
  case (Cons g gs)
  obtain g1 w1 where d: "demote_from_group env g w = (g1, w1)" by (cases "demote_from_group env g w") auto
  with demote_kept [OF d] Cons show ?case by (auto intro: settle_step_kept)
qed simp

lemma feed_all_kept: "\<forall>(g, t) \<in> set gs. ready g \<Longrightarrow> kept w \<Longrightarrow> kept (feed_all env gs w)"
proof (induction gs arbitrary: w)
  case (Cons gt gs)
  obtain g t where "gt = (g, t)" by (cases gt)
  with Cons settle_feed_kept [of w g t] show ?case by simp
qed simp

lemma drop_cancelled_kept:
  "\<forall>g \<in> set gens. ready g \<Longrightarrow> kept w \<Longrightarrow> drop_cancelled env gens w = (gs, w') \<Longrightarrow>
   (\<forall>g \<in> set gs. ready g) \<and> kept w'"
proof (induction gens arbitrary: w gs w')
  case (Cons g gens)
  obtain c q where c: "po_cancelled (en_port env) (ag_port g) = (c, q)"
    by (cases "po_cancelled (en_port env) (ag_port g)") auto
  have g: "pre g" "ag_pending_tok g = None" and tl: "\<forall>g \<in> set gens. ready g"
    using Cons.prems(1) by (simp_all add: ready_def)
  note p = polled [OF g(1) c]
  show ?case
  proof (cases c)
    case True
    have "kept (retire env (g\<lparr>ag_port := q\<rparr>) Fi_Cancelled Serving w)"
      using p True Cons.prems(2) by (auto simp: kept_def wk_simps)
    from Cons.IH [OF tl this] Cons.prems(3) c True show ?thesis by simp
  next
    case False
    obtain gs1 w1 where d: "drop_cancelled env gens w = (gs1, w1)" by (cases "drop_cancelled env gens w") auto
    with Cons.prems(3) c False have "w1 = w'" "gs = g\<lparr>ag_port := q\<rparr> # gs1" by auto
    with Cons.IH [OF tl Cons.prems(2) d] p g(2) show ?thesis by (simp add: ready_def)
  qed
qed simp

lemma sort_gens_kept:
  "\<forall>g \<in> set gens \<union> set solo. pre g \<Longrightarrow> \<forall>g \<in> set batch. ready g \<Longrightarrow> kept w \<Longrightarrow>
   sort_gens env gens solo batch w = (so, ba, w') \<Longrightarrow>
   (\<forall>g \<in> set so. pre g) \<and> (\<forall>g \<in> set ba. ready g) \<and> kept w'"
proof (induction gens arbitrary: solo batch w)
  case (Cons g gens)
  show ?case
  proof (cases "want_batch env g \<and> length batch < max_batch_slots env")
    case True
    then have "ready g" using Cons.prems(1) by (auto simp: want_batch_def ready_def)
    with True Cons.prems show ?thesis by (intro Cons.IH [of solo "batch @ [g]" w]) auto
  next
    case False
    obtain g1 w1 where d: "demote_from_group env g w = (g1, w1)" by (cases "demote_from_group env g w") auto
    with demote_kept [OF d] False Cons.prems show ?thesis
      by (intro Cons.IH [of "solo @ [g1]" batch w1]) auto
  qed
qed auto

lemma hold_lone_kept:
  assumes "\<forall>g \<in> set so. pre g" "\<forall>g \<in> set ba. ready g" "kept w"
    and "hold_lone env (so, ba, w) = (so', ba', w')"
  shows "(\<forall>g \<in> set so'. pre g) \<and> (\<forall>g \<in> set ba'. ready g) \<and> kept w'"
proof (cases "\<exists>g. ba = [g] \<and> batching_on env")
  case True
  then obtain g where ba: "ba = [g]" and on: "batching_on env" by blast
  then have g: "pre g" using assms(2) by (simp add: ready_def)
  obtain g1 w1 where d: "demote_from_group env g w = (g1, w1)" by (cases "demote_from_group env g w") auto
  with demote_kept [OF d] held [OF g] ba on g assms show ?thesis
    by (auto simp: hold_lone_def kept_def wk_simps split: if_splits)
next
  case False
  with assms show ?thesis by (auto simp: hold_lone_def split: list.splits if_splits)
qed

lemma add_missing_kept:
  "\<forall>g \<in> set gens. ready g \<Longrightarrow> add_missing bo gr gens e = (ok, gs, e') \<Longrightarrow>
   (\<forall>g \<in> set gs. ready g) \<and> length gs = length gens"
proof (induction gens arbitrary: e ok gs e')
  case (Cons g gens)
  have g: "ready (g\<lparr>ag_slot_id := x\<rparr>)" "ready g" for x
    using Cons.prems(1) by (simp_all add: ready_def pre_slot)
  have tl: "(\<forall>g \<in> set gs1. ready g) \<and> length gs1 = length gens"
    if "add_missing bo gr gens e1 = (ok1, gs1, e2)" for e1 ok1 gs1 e2
    using Cons.IH [OF _ that] Cons.prems(1) by simp
  show ?case
    using Cons.prems g tl by (auto split: if_splits prod.splits sum.splits)
qed auto

lemma ensure_group_kept: "ensure_group env bo w = (g, w') \<Longrightarrow> kept w' = kept w"
  by (auto simp: ensure_group_def split: option.splits prod.splits sum.splits intro!: kept_cong)

lemma kept_eng [simp]: "kept (w\<lparr>wk_eng := e\<rparr>) = kept w" "kept (with_met f w) = kept w"
  by (simp_all add: kept_def wk_simps)

lemma try_batch_kept:
  assumes "\<forall>g \<in> set batch. ready g" "kept w" "try_batch env bo batch w = (t, gs, w')"
  shows "(\<forall>g \<in> set gs. ready g) \<and> kept w' \<and> (\<forall>toks. t = Some toks \<longrightarrow> length toks = length gs)"
  using assms
  by (auto simp: try_batch_def dest!: ensure_group_kept dest: add_missing_kept
           split: option.splits prod.splits bool.splits sum.splits if_splits)

lemma run_batch_kept:
  assumes "\<forall>g \<in> set batch. ready g" "kept w"
  shows "kept (run_batch env batch w)"
proof (cases "eo_batch (en_ops env)")
  case None
  with demote_step_all_kept [OF ready_pre [OF assms(1)] assms(2)] show ?thesis by (simp add: run_batch_def)
next
  case (Some bo)
  obtain t gs w1 where tb: "try_batch env bo batch w = (t, gs, w1)" by (cases "try_batch env bo batch w") auto
  note ok = try_batch_kept [OF assms tb]
  show ?thesis
  proof (cases t)
    case None
    have "kept (demote_step_all env gs
        (with_met (\<lambda>m. m\<lparr>batch_fallbacks_total := batch_fallbacks_total m + 1\<rparr>) w1))"
      using ok by (intro demote_step_all_kept ready_pre) simp_all
    with Some tb None show ?thesis by (simp add: run_batch_def)
  next
    case (Some toks)
    have "kept (feed_all env (zip gs toks)
        (with_met (\<lambda>m. m\<lparr>batched_steps_total := batched_steps_total m + 1,
                        batch_size_sum := batch_size_sum m + of_nat (length gs)\<rparr>) w1))"
      using ok by (intro feed_all_kept) (auto dest: set_zip_leftD)
    with \<open>eo_batch (en_ops env) = Some bo\<close> tb Some show ?thesis by (simp add: run_batch_def)
  qed
qed

lemma batch_phase_kept:
  assumes "\<forall>g \<in> set batch. ready g" "kept w"
  shows "kept (batch_phase env batch w)"
proof -
  obtain b1 w1 where d: "(if length batch \<ge> 2 then drop_cancelled env batch w else (batch, w)) = (b1, w1)"
    by fastforce
  then have b1: "(\<forall>g \<in> set b1. ready g) \<and> kept w1"
    using assms drop_cancelled_kept [OF assms] by (cases "length batch \<ge> 2") simp_all
  then show ?thesis
    using run_batch_kept [of b1 w1] demote_step_all_kept [OF ready_pre, of b1 w1] d
    by (simp add: batch_phase_def)
qed

lemma release_group_kept: "kept (release_group env w) = kept w"
  by (rule kept_cong) (auto simp: release_group_def split: option.splits)

lemma quantum_kept:
  assumes "\<forall>g \<in> set (wk_active w). pre g" "\<forall>p \<in> set (wk_done w). fin p"
  shows "(\<forall>g \<in> set (wk_active (quantum env w)). post g) \<and> (\<forall>p \<in> set (wk_done (quantum env w)). fin p)"
proof -
  obtain so ba w1 where s: "sort_gens env (wk_active w) [] [] (w\<lparr>wk_active := []\<rparr>) = (so, ba, w1)"
    by (cases "sort_gens env (wk_active w) [] [] (w\<lparr>wk_active := []\<rparr>)") auto
  obtain so' ba' w2 where h: "hold_lone env (so, ba, w1) = (so', ba', w2)"
    by (cases "hold_lone env (so, ba, w1)") auto
  have "kept (w\<lparr>wk_active := []\<rparr>)" using assms(2) by (simp add: kept_def)
  with assms(1) sort_gens_kept [OF _ _ _ s]
  have "(\<forall>g \<in> set so. pre g) \<and> (\<forall>g \<in> set ba. ready g) \<and> kept w1" by auto
  then have "(\<forall>g \<in> set so'. pre g) \<and> (\<forall>g \<in> set ba'. ready g) \<and> kept w2"
    using hold_lone_kept [OF _ _ _ h] by blast
  then have "kept (batch_phase env ba' (step_all env so' w2))"
    by (intro batch_phase_kept step_all_kept) blast+
  with s h have "kept (quantum env w)" by (simp add: quantum_def release_group_kept)
  then show ?thesis by (simp add: kept_def)
qed

end

end
