(* ===== verification/Worker_Events.thy ===== *)
theory Worker_Events
  imports Worker_Frame
begin

section \<open>What a client of the scheduler receives\<close>

text \<open>
  The contract of a job's event channel as a locale, the invariant of an active stream over
  it, and its preservation by every operation of the worker. A bounded queue whose receiver
  acts between the worker's calls provides the contract.
\<close>

subsection \<open>The channel contract\<close>

text \<open>
  \<open>sent p\<close> is what was put into the channel so far, \<open>closed p\<close> that the receiver is gone, \<open>tag p\<close>
  a label of the job (its token limit) that no operation changes. A send succeeds and appends,
  or reports full, or finds the channel closed; a closed channel stays closed and is reported
  as closed, never as full.
\<close>

locale event_channel =
  fixes po :: "'c port_ops"
    and sent :: "'c \<Rightarrow> gen_event list"
    and closed :: "'c \<Rightarrow> bool"
    and tag :: "'c \<Rightarrow> u32"
  assumes try_send: "po_try_send po ev p = (r, q) \<Longrightarrow>
      tag q = tag p \<and> (closed p \<longrightarrow> r = Closed) \<and>
      (r = Sent \<longrightarrow> sent q = sent p @ [ev]) \<and> (r \<noteq> Sent \<longrightarrow> sent q = sent p) \<and> (r = Closed \<longrightarrow> closed q)"
    and blocking_send: "po_blocking_send po ev p = (b, q) \<Longrightarrow>
      tag q = tag p \<and> (closed p \<longrightarrow> \<not> b) \<and>
      (b \<longrightarrow> sent q = sent p @ [ev]) \<and> (\<not> b \<longrightarrow> sent q = sent p \<and> closed q)"
    and cancelled: "po_cancelled po p = (c, q) \<Longrightarrow>
      tag q = tag p \<and> sent q = sent p \<and> (closed p \<longrightarrow> closed q)"
begin

definition content :: "i32 list \<Rightarrow> bool" where
  "content toks \<longleftrightarrow> set toks \<inter> set eos_ids = {}"

definition limit :: "'c \<Rightarrow> nat" where
  "limit p = max 1 (unat (tag p))"

text \<open>An active stream: what was sent are its content tokens, all that were counted but the
  pending one, and the limit is not exceeded.\<close>

definition gen_inv :: "('s, 'c) active_gen \<Rightarrow> bool" where
  "gen_inv g \<longleftrightarrow>
     (\<exists>toks. sent (ag_port g) = map Ge_Token toks \<and> content toks \<and>
        unat (ag_generated g) = length toks + (if ag_pending_tok g = None then 0 else 1)) \<and>
     (\<forall>t. ag_pending_tok g = Some t \<longrightarrow> t \<notin> set eos_ids) \<and>
     gc_max_new_tokens (ag_config g) = tag (ag_port g) \<and>
     unat (ag_generated g) \<le> limit (ag_port g) \<and>
     (ag_pending_tok g = None \<longrightarrow> ag_generated g = 0 \<or> unat (ag_generated g) < unat (tag (ag_port g)))"

text \<open>A stream that a step ended, with the reason.\<close>

definition end_inv :: "('s, 'c) active_gen \<Rightarrow> finish \<Rightarrow> bool" where
  "end_inv g f \<longleftrightarrow>
     (\<exists>toks. sent (ag_port g) = map Ge_Token toks \<and> content toks \<and> length toks \<le> limit (ag_port g) \<and>
        (closed (ag_port g) \<or>
         unat (ag_generated g) = length toks + (if ag_pending_tok g = None then 0 else 1))) \<and>
     unat (ag_generated g) \<le> limit (ag_port g) \<and>
     (\<forall>t. ag_pending_tok g = Some t \<longrightarrow> t \<notin> set eos_ids) \<and>
     (f = Fi_Length \<longrightarrow> unat (ag_generated g) = limit (ag_port g) \<and> ag_pending_tok g = None)"

text \<open>The whole log of a job: content tokens within the limit, then exactly one terminal event
  whose usage counts them; or the receiver left early.\<close>

definition log_ok :: "'c \<Rightarrow> bool" where
  "log_ok p \<longleftrightarrow>
     (\<exists>toks. content toks \<and> length toks \<le> limit p \<and>
        ((\<exists>r u. sent p = map Ge_Token toks @ [Ge_Done r u] \<and> unat (us_completion_tokens u) = length toks \<and>
             (r = Fr_Length \<longrightarrow> length toks = limit p)) \<or>
         (\<exists>e. sent p = map Ge_Token toks @ [Ge_Failed e]) \<or>
         (closed p \<and> sent p = map Ge_Token toks)))"

lemma limit_same: "tag q = tag p \<Longrightarrow> limit q = limit p"
  by (simp add: limit_def)

lemma limit_pos: "0 < limit p" "unat (tag p) \<le> limit p" "limit p < 2 ^ 32"
proof -
  have "unat (tag p) < 2 ^ 32" using unsigned_less [of "tag p"] by simp
  then show "limit p < 2 ^ 32" by (simp add: limit_def)
qed (simp_all add: limit_def)

lemma content_append: "content toks \<Longrightarrow> t \<notin> set eos_ids \<Longrightarrow> content (toks @ [t])"
  by (auto simp: content_def)

lemma gen_inv_end: "gen_inv g \<Longrightarrow> f \<noteq> Fi_Length \<Longrightarrow> end_inv g f"
  by (auto simp: gen_inv_def end_inv_def)

lemma feed_token_inv:
  assumes inv: "gen_inv gen" "ag_pending_tok gen = None" and po: "en_port env = po"
    and res: "feed_token env gen tok w = (r, g, w')"
  shows "case r of Sr_Done f \<Rightarrow> end_inv g f | _ \<Rightarrow> gen_inv g"
proof (cases "tok \<in> set eos_ids")
  case True
  with res inv(1) show ?thesis by (auto simp: feed_token_def intro: gen_inv_end)
next
  case False
  obtain toks where t: "sent (ag_port gen) = map Ge_Token toks" "content toks"
    "unat (ag_generated gen) = length toks"
    using inv by (auto simp: gen_inv_def)
  obtain sr q where q: "po_try_send po (Ge_Token tok) (ag_port gen) = (sr, q)"
    by (cases "po_try_send po (Ge_Token tok) (ag_port gen)") auto
  note ch = try_send [OF q]
  have lim: "unat (ag_generated gen) + 1 \<le> limit (ag_port gen)"
    and max: "gc_max_new_tokens (ag_config gen) = tag (ag_port gen)"
    using inv limit_pos [of "ag_port gen"] by (auto simp: gen_inv_def limit_def)
  have g1: "unat (ag_generated gen + 1) = length toks + 1"
  proof -
    have "unat (ag_generated gen) < 2 ^ 32" using lim limit_pos(3) [of "ag_port gen"] by linarith
    from unat_inc [OF this] t(3) show ?thesis by simp
  qed
  have tq: "tag q = tag (ag_port gen)" using ch by blast
  note lq = limit_same [OF tq] tq
  show ?thesis
  proof (cases sr)
    case Sent
    with ch t have s: "sent q = map Ge_Token (toks @ [tok])" by simp
    have c: "content (toks @ [tok])" using t(2) False by (rule content_append)
    show ?thesis
    proof (cases "unat (tag (ag_port gen)) \<le> length toks + 1")
      case True
      then have "length toks + 1 = limit q" using lim lq t(3) by (auto simp: limit_def)
      with res False po q Sent True max g1 s c show ?thesis
        by (auto simp: feed_token_def Let_def now_def end_inv_def ucast_le inv(2)
                 intro!: exI [of _ "toks @ [tok]"] split: option.splits prod.splits)
    next
      case False': False
      with res False po q Sent max g1 s c lim lq t(3) inv(2) show ?thesis
        by (auto simp: feed_token_def Let_def now_def gen_inv_def ucast_le
                 intro!: exI [of _ "toks @ [tok]"] split: option.splits prod.splits)
    qed
  next
    case Full
    with ch t have s: "sent q = map Ge_Token toks" by simp
    with res False po q Full max g1 t(2) lim lq t(3) show ?thesis
      by (auto simp: feed_token_def Let_def now_def gen_inv_def
               intro!: exI [of _ toks] split: option.splits prod.splits)
  next
    case Closed
    with ch t have s: "sent q = map Ge_Token toks" "closed q" by simp_all
    with res False po q Closed g1 t(2,3) lim lq inv(2) show ?thesis
      by (auto simp: feed_token_def Let_def now_def end_inv_def
               intro!: exI [of _ toks] split: option.splits prod.splits)
  qed
qed

lemma gen_inv_port:
  "gen_inv g \<Longrightarrow> sent q = sent (ag_port g) \<Longrightarrow> tag q = tag (ag_port g) \<Longrightarrow> gen_inv (g\<lparr>ag_port := q\<rparr>)"
  by (auto simp: gen_inv_def limit_def)

lemma gen_inv_slot [simp]:
  "gen_inv (g\<lparr>ag_slot_id := x\<rparr>) = gen_inv g" "gen_inv (g\<lparr>ag_batch_held := b\<rparr>) = gen_inv g"
  by (simp_all add: gen_inv_def)

lemma decode_and_feed_inv:
  assumes "gen_inv gen" "ag_pending_tok gen = None" "en_port env = po"
    and "decode_and_feed env gen w = (r, g, w')"
  shows "case r of Sr_Done f \<Rightarrow> end_inv g f | _ \<Rightarrow> gen_inv g"
  using assms feed_token_inv [OF assms(1-3)] gen_inv_end [OF assms(1)]
  by (auto simp: decode_and_feed_def Let_def split: prod.splits sum.splits)

lemma step_inv:
  assumes inv: "gen_inv gen" and po: "en_port env = po" and res: "step env gen w = (r, g, w')"
  shows "case r of Sr_Done f \<Rightarrow> end_inv g f | _ \<Rightarrow> gen_inv g"
proof -
  obtain c p0 where c: "po_cancelled po (ag_port gen) = (c, p0)"
    by (cases "po_cancelled po (ag_port gen)") auto
  let ?g0 = "gen\<lparr>ag_port := p0\<rparr>"
  have inv0: "gen_inv ?g0" using gen_inv_port [OF inv] cancelled [OF c] by blast
  show ?thesis
  proof (cases "c \<or> ag_pending_tok gen = None")
    case True
    then show ?thesis
      using res po c inv0 gen_inv_end [OF inv0, of Fi_Cancelled]
        decode_and_feed_inv [OF inv0 _ po, of w r g w']
      by (cases c) (auto simp: step_def Let_def)
  next
    case False
    then obtain t where t: "ag_pending_tok gen = Some t" "\<not> c" by auto
    obtain sr q where q: "po_try_send po (Ge_Token t) p0 = (sr, q)"
      by (cases "po_try_send po (Ge_Token t) p0") auto
    note ch = try_send [OF q]
    obtain toks where toks: "sent p0 = map Ge_Token toks" "content toks"
      "unat (ag_generated gen) = length toks + 1" "t \<notin> set eos_ids"
      and lim: "unat (ag_generated gen) \<le> limit p0" and max: "gc_max_new_tokens (ag_config gen) = tag p0"
      using inv0 t by (auto simp: gen_inv_def)
    have tq: "tag q = tag p0" using ch by blast
    note lq = limit_same [OF tq]
    let ?g2 = "gen\<lparr>ag_pending_tok := None, ag_port := q\<rparr>"
    have c1: "content (toks @ [t])" using toks(2,4) by (rule content_append)
    show ?thesis
    proof (cases sr)
      case Full
      have "gen_inv (gen\<lparr>ag_port := q\<rparr>)" using gen_inv_port [OF inv0] ch Full by simp
      moreover have "g = gen\<lparr>ag_port := q\<rparr>" "r = Sr_Yield"
        using res po c t q Full by (auto simp: step_def Let_def)
      ultimately show ?thesis by simp
    next
      case Closed
      then have "sent q = map Ge_Token toks" "closed q" using ch toks(1) by simp_all
      then have "end_inv ?g2 Fi_Cancelled" using toks lim lq by (auto simp: end_inv_def intro!: exI [of _ toks])
      moreover have "g = ?g2" "r = Sr_Done Fi_Cancelled"
        using res po c t q Closed by (auto simp: step_def Let_def)
      ultimately show ?thesis by simp
    next
      case Sent
      then have s: "sent q = map Ge_Token (toks @ [t])" using ch toks(1) by simp
      show ?thesis
      proof (cases "unat (tag p0) \<le> unat (ag_generated gen)")
        case True
        then have "unat (ag_generated gen) = limit q" using lim lq toks(3) by (auto simp: limit_def)
        then have "end_inv ?g2 Fi_Length"
          using s c1 toks(3) by (auto simp: end_inv_def intro!: exI [of _ "toks @ [t]"])
        moreover have "g = ?g2" "r = Sr_Done Fi_Length"
          using res po c t q Sent True max by (auto simp: step_def Let_def ucast_le)
        ultimately show ?thesis by simp
      next
        case False
        then have inv2: "gen_inv ?g2"
          using s c1 toks(3) max tq lim lq by (auto simp: gen_inv_def intro!: exI [of _ "toks @ [t]"])
        moreover have "decode_and_feed env ?g2 w = (r, g, w')"
          using res po c t q Sent False max by (auto simp: step_def Let_def ucast_le)
        ultimately show ?thesis using decode_and_feed_inv [of ?g2 env w r g w'] po by simp
      qed
    qed
  qed
qed

lemma retire_log:
  assumes e: "end_inv g f" and po: "en_port env = po"
  shows "log_ok (retire_port env g f Serving)"
proof -
  obtain toks where toks: "sent (ag_port g) = map Ge_Token toks" "content toks" "length toks \<le> limit (ag_port g)"
    and cnt: "closed (ag_port g) \<or> unat (ag_generated g) = length toks + (if ag_pending_tok g = None then 0 else 1)"
    using e by (auto simp: end_inv_def)
  have lim: "unat (ag_generated g) \<le> limit (ag_port g)" using e by (simp add: end_inv_def)
  have len: "f = Fi_Length \<Longrightarrow> unat (ag_generated g) = limit (ag_port g)" using e by (simp add: end_inv_def)
  define u where "u = \<lparr>us_prompt_tokens = ag_prompt_tokens g, us_completion_tokens = ag_generated g\<rparr>"
  define p1 where "p1 = (case ag_pending_tok g of None \<Rightarrow> ag_port g
    | Some t \<Rightarrow> snd (po_blocking_send po (Ge_Token t) (ag_port g)))"
  have p1: "tag p1 = tag (ag_port g) \<and> (\<exists>ts. sent p1 = map Ge_Token ts \<and> content ts \<and> length ts \<le> limit (ag_port g) \<and>
      (closed p1 \<or> unat (ag_generated g) = length ts))"
  proof (cases "ag_pending_tok g")
    case None
    with toks cnt show ?thesis by (auto simp: p1_def)
  next
    case (Some t)
    obtain b q where b: "po_blocking_send po (Ge_Token t) (ag_port g) = (b, q)"
      by (cases "po_blocking_send po (Ge_Token t) (ag_port g)") auto
    note ch = blocking_send [OF b]
    have "t \<notin> set eos_ids" using e Some by (auto simp: end_inv_def)
    then have c: "content (toks @ [t])" by (rule content_append [OF toks(2)])
    have p: "p1 = q" using Some b by (simp add: p1_def)
    show ?thesis
    proof (cases b)
      case True
      then have "sent q = map Ge_Token (toks @ [t])" "unat (ag_generated g) = length (toks @ [t])"
        using ch toks(1) cnt Some by auto
      with p c lim ch show ?thesis by metis
    next
      case False
      with p ch toks show ?thesis by auto
    qed
  qed
  then obtain ts where ts: "sent p1 = map Ge_Token ts" "content ts" "length ts \<le> limit (ag_port g)"
    "closed p1 \<or> unat (ag_generated g) = length ts" and tag1: "tag p1 = tag (ag_port g)" by blast
  obtain b q where b: "po_blocking_send po (fst (finish_event f u)) p1 = (b, q)"
    by (cases "po_blocking_send po (fst (finish_event f u)) p1") auto
  note ch = blocking_send [OF b]
  have "tag q = tag (ag_port g)" using ch tag1 by simp
  note lq = limit_same [OF this]
  have q: "retire_port env g f Serving = q"
    using b po by (simp add: retire_port_def send_by_mode_def u_def p1_def split: option.splits)
  show ?thesis
  proof (cases b)
    case False
    with ch ts lq show ?thesis by (auto simp: log_ok_def q)
  next
    case True
    then have g: "unat (ag_generated g) = length ts" and s: "sent q = map Ge_Token ts @ [fst (finish_event f u)]"
      using ch ts by auto
    show ?thesis
    proof (cases f)
      case (Fi_Failed err)
      then have "sent q = map Ge_Token ts @ [Ge_Failed err]" using s by (simp add: finish_event_def)
      then show ?thesis unfolding log_ok_def q lq using ts(2,3) by blast
    next
      case Fi_Length
      then have "sent q = map Ge_Token ts @ [Ge_Done Fr_Length u]" using s by (simp add: finish_event_def)
      then show ?thesis
        unfolding log_ok_def q lq using ts(2,3) g len [OF Fi_Length] by (fastforce simp: u_def)
    next
      case Fi_Stop
      then have "sent q = map Ge_Token ts @ [Ge_Done Fr_Stop u]" using s by (simp add: finish_event_def)
      then show ?thesis unfolding log_ok_def q lq using ts(2,3) g by (fastforce simp: u_def)
    next
      case Fi_Cancelled
      then have "sent q = map Ge_Token ts @ [Ge_Done Fr_Cancelled u]" using s by (simp add: finish_event_def)
      then show ?thesis unfolding log_ok_def q lq using ts(2,3) g by (fastforce simp: u_def)
    qed
  qed
qed

text \<open>The whole worker, and its preservation.\<close>

definition wk_ok :: "('e, 's, 'g, 'c) worker \<Rightarrow> bool" where
  "wk_ok w \<longleftrightarrow> (\<forall>g \<in> set (wk_active w). gen_inv g) \<and> (\<forall>p \<in> set (wk_done w). log_ok p)"

definition uses :: "('e, 's, 'g, 'c) env \<Rightarrow> bool" where
  "uses env \<longleftrightarrow> en_port env = po"

lemma wk_ok_cong:
  "wk_active w' = wk_active w \<Longrightarrow> wk_done w' = wk_done w \<Longrightarrow> wk_ok w' = wk_ok w"
  by (simp add: wk_ok_def)

lemma wk_ok_met [simp]: "wk_ok (with_met f w) = wk_ok w"
  by (rule wk_ok_cong) (simp_all add: wk_simps)

lemma wk_ok_eng [simp]: "wk_ok (w\<lparr>wk_eng := e\<rparr>) = wk_ok w" "wk_ok (w\<lparr>wk_group := x\<rparr>) = wk_ok w"
  "wk_ok (w\<lparr>wk_waiting := n\<rparr>) = wk_ok w" "wk_ok (w\<lparr>wk_idle := ss\<rparr>) = wk_ok w"
  by (simp_all add: wk_ok_def)
lemma frame: "uses env \<Longrightarrow> quantum_frame env gen_inv gen_inv log_ok"
proof (unfold_locales, goal_cases)
  case (3 gen w r g w')
  then show ?case
    using step_inv [of gen env w r g w'] retire_log [of g _ env] by (auto simp: uses_def split: step_result.splits)
next
  case (4 gen tok w r g w')
  then show ?case
    using feed_token_inv [of gen env tok w r g w'] retire_log [of g _ env]
    by (auto simp: uses_def split: step_result.splits)
next
  case (5 g c q)
  then have p: "po_cancelled po (ag_port g) = (c, q)" by (simp add: uses_def)
  have "gen_inv (g\<lparr>ag_port := q\<rparr>)" using gen_inv_port [OF 5(2)] cancelled [OF p] by blast
  with retire_log [OF gen_inv_end, of "g\<lparr>ag_port := q\<rparr>" Fi_Cancelled env] 5(1) show ?case
    by (simp add: uses_def)
qed simp_all

lemma quantum_ok: "uses env \<Longrightarrow> wk_ok w \<Longrightarrow> wk_ok (quantum env w)"
  using quantum_frame.quantum_kept [OF frame, of env w] by (simp add: wk_ok_def)

subsection \<open>Admission, shutdown and whole runs\<close>

definition job_ok :: "'c job \<Rightarrow> bool" where
  "job_ok j \<longleftrightarrow> sent (job_port j) = [] \<and> gc_max_new_tokens (gj_config (job_inner j)) = tag (job_port j)"

lemma fail_intake_ok:
  assumes "uses env" "sent p = []" "wk_ok w"
  shows "wk_ok (fail_intake env p s msg w)"
proof -
  obtain b q where b: "po_blocking_send po (Ge_Failed msg) p = (b, q)"
    by (cases "po_blocking_send po (Ge_Failed msg) p") auto
  have "log_ok q"
    using blocking_send [OF b] assms(2) by (cases b) (auto simp: log_ok_def content_def intro!: exI [of _ "[]"])
  moreover have "po_blocking_send (en_port env) (Ge_Failed msg) p = (b, q)" using b assms(1) by (simp add: uses_def)
  ultimately show ?thesis
    using assms(3) by (auto simp: fail_intake_def Let_def wk_ok_def wk_simps split: option.splits)
qed

lemma wk_ok_fields: "wk_ok w \<Longrightarrow> wk_active w' = wk_active w \<and> wk_done w' = wk_done w \<Longrightarrow> wk_ok w'"
  by (simp add: wk_ok_def)

lemma intake_ok:
  assumes u: "uses env" and j: "job_ok j" and ok: "wk_ok w"
  shows "wk_ok (intake env j w)"
proof -
  have p: "sent (job_port j) = []" using j by (simp add: job_ok_def)
  have ok1: "wk_ok w1" if "admission w w1" for w1
    using ok that by (simp add: admission_def wk_ok_def)
  have gi: "gen_inv (new_gen s j)" for s
    using j by (simp add: gen_inv_def job_ok_def content_def new_gen_def)
  note fl = fail_intake_ok [OF u p ok1]
  have pu: "wk_ok (push_active (new_gen s j) w1)" if "admission w w1" for s w1
    using ok1 [OF that] gi by (auto simp: wk_ok_def wk_simps)
  show ?thesis
    by (rule intake_cases [of env j w]) (simp_all add: fl pu)
qed

text \<open>At shutdown the receiver may miss pending and terminal events, but sees nothing else.\<close>

definition log_cut :: "'c \<Rightarrow> bool" where
  "log_cut p \<longleftrightarrow> (\<exists>toks. content toks \<and> length toks \<le> limit p \<and> sent p = map Ge_Token toks)"

lemma shutdown_log:
  assumes inv: "gen_inv g" and u: "uses env"
  shows "log_ok (retire_port env g (Fi_Failed e) Shutdown) \<or> log_cut (retire_port env g (Fi_Failed e) Shutdown)"
proof -
  obtain toks where toks: "sent (ag_port g) = map Ge_Token toks" "content toks"
    "unat (ag_generated g) = length toks + (if ag_pending_tok g = None then 0 else 1)"
    and lim: "unat (ag_generated g) \<le> limit (ag_port g)"
    using inv by (auto simp: gen_inv_def)
  define p1 where "p1 = (case ag_pending_tok g of None \<Rightarrow> ag_port g
    | Some t \<Rightarrow> snd (po_try_send po (Ge_Token t) (ag_port g)))"
  have "tag p1 = tag (ag_port g) \<and> (\<exists>ts. sent p1 = map Ge_Token ts \<and> content ts \<and> length ts \<le> limit (ag_port g))"
  proof (cases "ag_pending_tok g")
    case None
    with toks lim show ?thesis by (auto simp: p1_def)
  next
    case (Some t)
    obtain r q where r: "po_try_send po (Ge_Token t) (ag_port g) = (r, q)"
      by (cases "po_try_send po (Ge_Token t) (ag_port g)") auto
    have "t \<notin> set eos_ids" using inv Some by (auto simp: gen_inv_def)
    then have c: "content (toks @ [t])" by (rule content_append [OF toks(2)])
    have p: "p1 = q" using Some r by (simp add: p1_def)
    show ?thesis
    proof (cases "r = Sent")
      case True
      then have "sent q = map Ge_Token (toks @ [t])" "length (toks @ [t]) \<le> limit (ag_port g)"
        using try_send [OF r] toks Some lim by auto
      with p c try_send [OF r] show ?thesis by metis
    next
      case False
      then have "sent q = map Ge_Token toks" "length toks \<le> limit (ag_port g)"
        using try_send [OF r] toks Some lim by auto
      with p toks(2) try_send [OF r] show ?thesis by metis
    qed
  qed
  then obtain ts where ts: "tag p1 = tag (ag_port g)" "sent p1 = map Ge_Token ts" "content ts" "length ts \<le> limit (ag_port g)"
    by blast
  obtain r q where r: "po_try_send po (Ge_Failed e) p1 = (r, q)"
    by (cases "po_try_send po (Ge_Failed e) p1") auto
  have q: "retire_port env g (Fi_Failed e) Shutdown = q"
    using r u by (simp add: retire_port_def send_by_mode_def p1_def finish_event_def uses_def split: option.splits)
  have "tag q = tag (ag_port g)" using try_send [OF r] ts(1) by simp
  note lq = limit_same [OF this]
  show ?thesis
  proof (cases "r = Sent")
    case True
    then have "sent q = map Ge_Token ts @ [Ge_Failed e]" using try_send [OF r] ts(2) by simp
    with ts(3,4) have "log_ok q" unfolding log_ok_def lq by blast
    with q show ?thesis by simp
  next
    case False
    then have "sent q = map Ge_Token ts" using try_send [OF r] ts(2) by simp
    with ts(3,4) have "log_cut q" unfolding log_cut_def lq by blast
    with q show ?thesis by simp
  qed
qed

definition logs_final :: "('e, 's, 'g, 'c) worker \<Rightarrow> bool" where
  "logs_final w \<longleftrightarrow> wk_active w = [] \<and> (\<forall>p \<in> set (wk_done w). log_ok p \<or> log_cut p)"

lemma shutdown_active_ok:
  "uses env \<Longrightarrow> \<forall>g \<in> set gens. gen_inv g \<Longrightarrow> \<forall>p \<in> set (wk_done w). log_ok p \<or> log_cut p \<Longrightarrow>
   logs_final (shutdown_active env gens w)"
proof (induction env gens w rule: shutdown_active.induct)
  case (2 env gen gens w)
  then show ?case using shutdown_log [of gen env] by (simp add: wk_simps)
qed (simp add: logs_final_def)

lemma worker_iter_ok:
  assumes u: "uses env" and ok: "wk_ok w" and j: "\<forall>j. rx = Rx_Job j \<longrightarrow> job_ok j"
    and it: "worker_iter env rx c w = (b, w')"
  shows "if b then wk_ok w' else logs_final w'"
proof -
  have sh: "logs_final (shutdown_active env (wk_active w) w)"
    using shutdown_active_ok [OF u] ok by (auto simp: wk_ok_def)
  have q: "wk_ok (quantum env w)" using quantum_ok u ok by blast
  have qi: "wk_ok (quantum env (intake env j w))" if "rx = Rx_Job j" for j
    using quantum_ok [OF u intake_ok [OF u _ ok]] j that by blast
  show ?thesis
    using it sh q qi ok
    by (auto simp: worker_iter_def logs_final_def wk_ok_def split: if_splits recv.splits)
qed

lemma worker_run_ok:
  "uses env \<Longrightarrow> \<forall>(rx, c) \<in> set ins. \<forall>j. rx = Rx_Job j \<longrightarrow> job_ok j \<Longrightarrow> wk_ok w \<Longrightarrow>
   worker_run env ins w = (b, w') \<Longrightarrow> if b then wk_ok w' else logs_final w'"
proof (induction ins arbitrary: w)
  case (Cons i ins)
  obtain rx c where i: "i = (rx, c)" by (cases i)
  obtain b1 w1 where it: "worker_iter env rx c w = (b1, w1)" by (cases "worker_iter env rx c w") auto
  have "\<forall>j. rx = Rx_Job j \<longrightarrow> job_ok j" using Cons.prems(2) i by simp
  note s = worker_iter_ok [OF Cons.prems(1,3) this it]
  show ?case
  proof (cases b1)
    case True
    with s Cons i it show ?thesis by simp
  next
    case False
    with s Cons.prems i it show ?thesis
      by (auto simp: logs_final_def worker_exit_def with_met_def Let_def)
  qed
qed simp

lemma wk_ok_init: "wk_ok (worker_init e m)"
  by (simp add: wk_ok_def worker_init_def)

end

end
