(* ===== verification/Worker_Pool.thy ===== *)
theory Worker_Pool
  imports Worker_Events "HOL-Library.Multiset"
begin

section \<open>What a quantum of the worker conserves\<close>

text \<open>
  A quantum takes the active streams out of the deque, sorts and steps them, and puts each back
  or retires it. A measure of the worker that grows by the same weight when a stream is put
  back and when it is retired is the same before and after the quantum: the locale \<open>conserved\<close>
  proves it once. Its instances are the sessions (none is lost or used twice, the pool stays
  within \<open>max_sessions\<close>), the \<open>active_streams\<close> gauge (it equals the number of active streams),
  the number of jobs (ended or active), and, by a sublocale, their tags. The theory ends with the same facts of \<open>intake\<close> and of
  an iteration.
\<close>

definition same_core :: "('e, 's, 'g, 'c) worker \<Rightarrow> ('e, 's, 'g, 'c) worker \<Rightarrow> bool" where
  "same_core w' w \<longleftrightarrow>
     wk_idle w' = wk_idle w \<and> wk_active w' = wk_active w \<and> wk_done w' = wk_done w \<and>
     wk_waiting w' = wk_waiting w \<and> active_streams (wk_met w') = active_streams (wk_met w)"

text \<open>The channel of a stream only changes by the operations on it.\<close>

inductive port_moves :: "('e, 's, 'g, 'c) env \<Rightarrow> 'c \<Rightarrow> 'c \<Rightarrow> bool" for env where
  stay: "port_moves env p p"
| tried: "port_moves env p q \<Longrightarrow> port_moves env p (snd (po_try_send (en_port env) ev q))"
| blocked: "port_moves env p q \<Longrightarrow> port_moves env p (snd (po_blocking_send (en_port env) ev q))"
| polled: "port_moves env p q \<Longrightarrow> port_moves env p (snd (po_cancelled (en_port env) q))"

declare port_moves.stay [simp]

definition same_stream :: "('e, 's, 'g, 'c) env \<Rightarrow> ('s, 'c) active_gen \<Rightarrow> ('s, 'c) active_gen \<Rightarrow> bool" where
  "same_stream env g' g \<longleftrightarrow> ag_session g' = ag_session g \<and> port_moves env (ag_port g) (ag_port g')"

lemma port_moves_trans: "port_moves env q r \<Longrightarrow> port_moves env p q \<Longrightarrow> port_moves env p r"
  by (induction rule: port_moves.induct) (auto intro: port_moves.intros)

lemma same_stream_trans: "same_stream env a b \<Longrightarrow> same_stream env b c \<Longrightarrow> same_stream env a c"
  by (auto simp: same_stream_def intro: port_moves_trans)

lemma port_moves_op:
  "po_try_send (en_port env) ev p = (sr, q) \<Longrightarrow> port_moves env p q"
  "po_cancelled (en_port env) p = (c, q) \<Longrightarrow> port_moves env p q"
  using port_moves.tried [of env p p ev] port_moves.polled [of env p p] by auto

lemma feed_port: "feed_token env gen tok w = (r, g, w') \<Longrightarrow> port_moves env (ag_port gen) (ag_port g)"
  by (auto simp: feed_token_def Let_def now_def dest: port_moves_op
      split: if_splits option.splits prod.splits send_result.splits)

lemma step_port: "step env gen w = (r, g, w') \<Longrightarrow> port_moves env (ag_port gen) (ag_port g)"
  by (fastforce simp: step_def decode_and_feed_def Let_def
      dest!: feed_port port_moves_op intro: port_moves_trans
      split: if_splits option.splits prod.splits send_result.splits sum.splits)

lemma core_step: "step env gen w = (r, g, w') \<Longrightarrow> same_core w' w \<and> same_stream env g gen"
  using step_worker [of env gen w r g w'] step_port [of env gen w r g w'] by (simp add: same_core_def same_stream_def)

lemma core_feed: "feed_token env gen tok w = (r, g, w') \<Longrightarrow> same_core w' w \<and> same_stream env g gen"
  using decode_worker [of env gen tok w r g w'] feed_port [of env gen tok w r g w'] by (simp add: same_core_def same_stream_def)

lemma core_demote: "same_core (snd (demote_from_group env g w)) w"
  by (simp add: same_core_def wk_simps)

lemma core_ensure: "ensure_group env bo w = (g, w') \<Longrightarrow> same_core w' w"
  by (auto simp: ensure_group_def same_core_def split: option.splits prod.splits sum.splits)

lemma core_release: "same_core (release_group env w) w"
  by (auto simp: release_group_def same_core_def split: option.splits)

lemma core_eng: "same_core (w\<lparr>wk_eng := e\<rparr>) w"
  by (simp add: same_core_def)

lemma core_trans: "same_core a b \<Longrightarrow> same_core b c \<Longrightarrow> same_core a c"
  by (simp add: same_core_def)

lemma demote_stream: "same_stream env (fst (demote_from_group env g w)) g"
  by (simp add: demote_gen same_stream_def)

lemma add_missing_streams:
  "add_missing bo gr gens e = (ok, gs, e') \<Longrightarrow>
   map ag_session gs = map ag_session gens \<and> map ag_port gs = map ag_port gens"
  by (induction gens arbitrary: e ok gs e')
     (fastforce split: if_splits prod.splits sum.splits)+

lemma try_batch_core:
  assumes "try_batch env bo batch w = (t, gs, w')"
  shows "map ag_session gs = map ag_session batch \<and> map ag_port gs = map ag_port batch \<and> same_core w' w \<and>
    (\<forall>toks. t = Some toks \<longrightarrow> length toks = length gs)"
proof -
  obtain go w1 where g: "ensure_group env bo w = (go, w1)" by (cases "ensure_group env bo w") auto
  note p1 = core_ensure [OF g]
  show ?thesis
  proof (cases go)
    case None
    with g p1 assms show ?thesis by (auto simp: try_batch_def)
  next
    case (Some gr)
    obtain ok b1 e1 where a: "add_missing bo gr batch (wk_eng w1) = (ok, b1, e1)"
      by (cases "add_missing bo gr batch (wk_eng w1)") auto
    note m = add_missing_streams [OF a]
    from assms g Some a show ?thesis
      using p1 m core_trans [OF core_eng p1]
      by (auto simp: try_batch_def split: bool.splits prod.splits sum.splits if_splits)
  qed
qed

subsection \<open>The conservation law\<close>

text \<open>\<open>fits w n\<close> says that \<open>n\<close> more streams have room in \<open>w\<close>.\<close>

locale conserved =
  fixes env :: "('e, 's, 'g, 'c) env"
    and mu :: "('e, 's, 'g, 'c) worker \<Rightarrow> 'm :: comm_monoid_add"
    and wt :: "('s, 'c) active_gen \<Rightarrow> 'm"
    and fits :: "('e, 's, 'g, 'c) worker \<Rightarrow> nat \<Rightarrow> bool"
  assumes core: "same_core w' w \<Longrightarrow> mu w' = mu w \<and> fits w' n = fits w n"
    and wt_stream: "same_stream env g' g \<Longrightarrow> wt g' = wt g"
    and push: "fits w (Suc n) \<Longrightarrow>
      mu (push_active g w) = mu w + wt g \<and> fits (push_active g w) n"
    and retired: "fits w (Suc n) \<Longrightarrow>
      mu (retire env g f mode w) = mu w + wt g \<and> fits (retire env g f mode w) n"
    and clear: "mu w = mu (w\<lparr>wk_active := []\<rparr>) + sum_list (map wt (wk_active w)) \<and>
      fits (w\<lparr>wk_active := []\<rparr>) (n + length (wk_active w)) = fits w n"
begin

lemma settled:
  assumes "same_core w' w" "same_stream env g gen" "fits w (Suc n)"
  shows "mu (settle env (r, g, w')) = mu w + wt gen \<and> fits (settle env (r, g, w')) n"
proof -
  have f: "fits w' (Suc n)" and m: "mu w' = mu w" using core [OF assms(1)] assms(3) by simp_all
  show ?thesis
    using push [OF f, of g] retired [OF f, of g] wt_stream [OF assms(2)] m
    by (cases r) (simp_all add: settle_def)
qed

lemma settle_step:
  "fits w (Suc n) \<Longrightarrow>
   mu (settle env (step env gen w)) = mu w + wt gen \<and> fits (settle env (step env gen w)) n"
  by (cases "step env gen w") (metis core_step settled)

lemma settle_feed:
  "fits w (Suc n) \<Longrightarrow>
   mu (settle env (feed_token env gen tok w)) = mu w + wt gen \<and>
   fits (settle env (feed_token env gen tok w)) n"
  by (cases "feed_token env gen tok w") (metis core_feed settled)

lemma step_all_conserves:
  "fits w (n + length gens) \<Longrightarrow>
   mu (step_all env gens w) = mu w + sum_list (map wt gens) \<and> fits (step_all env gens w) n"
proof (induction gens arbitrary: w)
  case (Cons g gs)
  then have "fits w (Suc (n + length gs))" by simp
  from settle_step [OF this, of g] Cons.IH show ?case by (simp add: add.assoc)
qed simp

lemma demoted:
  "demote_from_group env g w = (g1, w1) \<Longrightarrow> mu w1 = mu w \<and> fits w1 n = fits w n \<and> wt g1 = wt g"
  by (metis core core_demote demote_stream fst_conv snd_conv wt_stream)

lemma demote_step_all_conserves:
  "fits w (n + length gens) \<Longrightarrow>
   mu (demote_step_all env gens w) = mu w + sum_list (map wt gens) \<and>
   fits (demote_step_all env gens w) n"
proof (induction gens arbitrary: w)
  case (Cons g gs)
  obtain g1 w1 where d: "demote_from_group env g w = (g1, w1)" by (cases "demote_from_group env g w") auto
  have "fits w1 (Suc (n + length gs))" using Cons.prems demoted [OF d] by simp
  from settle_step [OF this, of g1] Cons.IH d demoted [OF d] show ?case by (simp add: add.assoc)
qed simp

lemma feed_all_conserves:
  "fits w (n + length gs) \<Longrightarrow>
   mu (feed_all env gs w) = mu w + sum_list (map wt (map fst gs)) \<and> fits (feed_all env gs w) n"
proof (induction gs arbitrary: w)
  case (Cons gt gs)
  obtain g t where gt: "gt = (g, t)" by (cases gt)
  have "fits w (Suc (n + length gs))" using Cons.prems by simp
  from settle_feed [OF this, of g t] Cons.IH gt show ?case by (simp add: add.assoc)
qed simp

lemma drop_cancelled_conserves:
  "fits w (n + length gens) \<Longrightarrow> drop_cancelled env gens w = (gs, w') \<Longrightarrow>
   mu w' + sum_list (map wt gs) = mu w + sum_list (map wt gens) \<and> fits w' (n + length gs)"
proof (induction gens arbitrary: w gs w' n)
  case (Cons g gens)
  obtain c q where c: "po_cancelled (en_port env) (ag_port g) = (c, q)"
    by (cases "po_cancelled (en_port env) (ag_port g)") auto
  have wt: "wt (g\<lparr>ag_port := q\<rparr>) = wt g" by (rule wt_stream) (simp add: same_stream_def port_moves_op(2) [OF c])
  show ?case
  proof (cases c)
    case True
    have "fits w (Suc (n + length gens))" using Cons.prems(1) by simp
    note r = retired [OF this, of "g\<lparr>ag_port := q\<rparr>" Fi_Cancelled Serving]
    have "drop_cancelled env gens (retire env (g\<lparr>ag_port := q\<rparr>) Fi_Cancelled Serving w) = (gs, w')"
      using Cons.prems(2) c True by simp
    from Cons.IH [OF conjunct2 [OF r] this] r wt show ?thesis by (simp add: add.assoc)
  next
    case False
    obtain gs1 w1 where d: "drop_cancelled env gens w = (gs1, w1)" by (cases "drop_cancelled env gens w") auto
    have "fits w (Suc n + length gens)" using Cons.prems(1) by simp
    from Cons.IH [OF this d] have
      "wt g + (mu w' + sum_list (map wt gs1)) = wt g + (mu w + sum_list (map wt gens)) \<and>
       fits w' (Suc n + length gs1)" if "w1 = w'" using that by simp
    then show ?thesis using Cons.prems(2) c False d wt by (auto simp: add_ac)
  qed
qed simp

lemma sort_gens_conserves:
  "sort_gens env gens solo batch w = (so, ba, w') \<Longrightarrow>
   sum_list (map wt so) + sum_list (map wt ba) =
     sum_list (map wt solo) + sum_list (map wt batch) + sum_list (map wt gens) \<and>
   length so + length ba = length solo + length batch + length gens \<and>
   mu w' = mu w \<and> fits w' n = fits w n"
proof (induction gens arbitrary: solo batch w)
  case (Cons g gens)
  show ?case
  proof (cases "want_batch env g \<and> length batch < max_batch_slots env")
    case True
    with Cons.prems Cons.IH [of solo "batch @ [g]" w] show ?thesis by (simp add: add_ac)
  next
    case False
    obtain g1 w1 where d: "demote_from_group env g w = (g1, w1)" by (cases "demote_from_group env g w") auto
    have "sort_gens env gens (solo @ [g1]) batch w1 = (so, ba, w')"
      using Cons.prems d by (simp only: sort_gens.simps if_not_P [OF False] Let_def prod.case)
    from Cons.IH [OF this] demoted [OF d] show ?thesis by (simp add: add_ac)
  qed
qed auto

lemma hold_lone_conserves:
  assumes "hold_lone env (so, ba, w) = (so', ba', w')" "fits w (length so + length ba)"
  shows "mu w' + sum_list (map wt so') + sum_list (map wt ba') =
      mu w + sum_list (map wt so) + sum_list (map wt ba) \<and> fits w' (length so' + length ba')"
proof (cases "\<exists>g. ba = [g] \<and> batching_on env")
  case True
  then obtain g where ba: "ba = [g]" and on: "batching_on env" by blast
  obtain g1 w1 where d: "demote_from_group env g w = (g1, w1)" by (cases "demote_from_group env g w") auto
  have h: "wt (g\<lparr>ag_batch_held := True\<rparr>) = wt g" by (rule wt_stream) (simp add: same_stream_def)
  have f: "fits w (Suc (length so))" using assms(2) ba by simp
  note p = push [OF f, of "g\<lparr>ag_batch_held := True\<rparr>"]
  show ?thesis
  proof (cases "ag_batch_held g")
    case True
    with assms(1) ba on d have "so' = so @ [g1]" "ba' = []" "w' = w1" by (simp_all add: hold_lone_def)
    with demoted [OF d] f ba show ?thesis by (simp add: add.assoc)
  next
    case False
    with assms(1) ba on have "so' = so" "ba' = []" "w' = push_active (g\<lparr>ag_batch_held := True\<rparr>) w"
      by (simp_all add: hold_lone_def)
    with p h ba show ?thesis by (simp add: add.assoc add.commute [of "wt g"])
  qed
next
  case False
  then have "hold_lone env (so, ba, w) = (so, ba, w)"
    by (cases ba; cases "tl ba") (auto simp: hold_lone_def)
  with assms show ?thesis by simp
qed

lemma wt_streams:
  "map ag_session gs = map ag_session gens \<Longrightarrow> map ag_port gs = map ag_port gens \<Longrightarrow> map wt gs = map wt gens"
proof (induction gens arbitrary: gs)
  case (Cons g gens)
  then obtain g1 gs1 where g: "gs = g1 # gs1" "ag_session g1 = ag_session g" "ag_port g1 = ag_port g"
    "map ag_session gs1 = map ag_session gens" "map ag_port gs1 = map ag_port gens" by auto
  with Cons.IH [of gs1] wt_stream [of g1 g] show ?case by (simp add: same_stream_def)
qed simp

lemma run_batch_conserves:
  assumes "fits w (length batch)"
  shows "mu (run_batch env batch w) = mu w + sum_list (map wt batch) \<and> fits (run_batch env batch w) 0"
proof (cases "eo_batch (en_ops env)")
  case None
  with assms demote_step_all_conserves [of w 0] show ?thesis by (simp add: run_batch_def)
next
  case (Some bo)
  obtain t gs w1 where tb: "try_batch env bo batch w = (t, gs, w1)" by (cases "try_batch env bo batch w") auto
  note p = try_batch_core [OF tb]
  let ?c = "\<lambda>f. with_met f w1"
  have len: "length gs = length batch" using p by (metis length_map)
  have wt: "map wt gs = map wt batch" using p wt_streams by blast
  have k: "mu (with_met f w1) = mu w \<and> fits (with_met f w1) n = fits w n"
    if "\<And>m. active_streams (f m) = active_streams m" for f n
    using core [of "with_met f w1" w] p that by (simp add: same_core_def wk_simps)
  show ?thesis
  proof (cases t)
    case None
    let ?f = "\<lambda>m. m\<lparr>batch_fallbacks_total := batch_fallbacks_total m + 1\<rparr>"
    have c: "mu (with_met ?f w1) = mu w" "fits (with_met ?f w1) (0 + length gs)"
      using k [of ?f] assms len by simp_all
    have "run_batch env batch w = demote_step_all env gs (with_met ?f w1)"
      using None Some tb by (simp add: run_batch_def)
    with demote_step_all_conserves [OF c(2)] c(1) wt show ?thesis by simp
  next
    case s: (Some toks)
    let ?f = "\<lambda>m. m\<lparr>batched_steps_total := batched_steps_total m + 1,
                     batch_size_sum := batch_size_sum m + of_nat (length gs)\<rparr>"
    have z: "length (zip gs toks) = length batch" "map fst (zip gs toks) = gs" using s p len by simp_all
    have c: "mu (with_met ?f w1) = mu w" "fits (with_met ?f w1) (0 + length (zip gs toks))"
      using k [of ?f] assms z by simp_all
    have "run_batch env batch w = feed_all env (zip gs toks) (with_met ?f w1)"
      using s Some tb by (simp add: run_batch_def)
    with feed_all_conserves [OF c(2)] c(1) wt show ?thesis unfolding z(2) by simp
  qed
qed

lemma batch_phase_conserves:
  assumes "fits w (length batch)"
  shows "mu (batch_phase env batch w) = mu w + sum_list (map wt batch) \<and> fits (batch_phase env batch w) 0"
proof -
  obtain b1 w1 where d: "(if length batch \<ge> 2 then drop_cancelled env batch w else (batch, w)) = (b1, w1)"
    by fastforce
  have e: "mu w1 + sum_list (map wt b1) = mu w + sum_list (map wt batch) \<and> fits w1 (length b1)"
    using d drop_cancelled_conserves [of w 0] assms by (cases "length batch \<ge> 2") auto
  with run_batch_conserves [of w1 b1] demote_step_all_conserves [of w1 0 b1] d
  show ?thesis by (simp add: batch_phase_def)
qed

lemma quantum_conserves:
  assumes "fits w 0"
  shows "mu (quantum env w) = mu w \<and> fits (quantum env w) 0"
proof -
  let ?w0 = "w\<lparr>wk_active := []\<rparr>"
  obtain so ba w1 where s: "sort_gens env (wk_active w) [] [] ?w0 = (so, ba, w1)"
    by (cases "sort_gens env (wk_active w) [] [] ?w0") auto
  obtain so' ba' w2 where h: "hold_lone env (so, ba, w1) = (so', ba', w2)"
    by (cases "hold_lone env (so, ba, w1)") auto
  have c: "mu w = mu ?w0 + sum_list (map wt (wk_active w)) \<and> fits ?w0 (length (wk_active w))"
    using clear [of w 0] assms by simp
  have f1: "fits w1 (length so + length ba)" using sort_gens_conserves [OF s] c by simp
  have b: "mu w2 + sum_list (map wt so') + sum_list (map wt ba') = mu w \<and>
      fits w2 (length ba' + length so')"
    using conjunct1 [OF sort_gens_conserves [OF s]] sort_gens_conserves [OF s]
      hold_lone_conserves [OF h f1] c
    by (simp add: add.commute add.left_commute) (metis add.commute add.left_commute)
  note st = step_all_conserves [OF conjunct2 [OF b]]
  have "mu (batch_phase env ba' (step_all env so' w2)) = mu w \<and>
      fits (batch_phase env ba' (step_all env so' w2)) 0"
    using st batch_phase_conserves [of "step_all env so' w2" ba'] b by simp
  with core [OF core_release, of env "batch_phase env ba' (step_all env so' w2)"] s h
  show ?thesis by (simp add: quantum_def)
qed

lemma shutdown_conserves:
  "fits (w\<lparr>wk_active := []\<rparr>) (n + length gens) \<Longrightarrow>
   mu (shutdown_active env gens w) = mu (w\<lparr>wk_active := []\<rparr>) + sum_list (map wt gens) \<and>
   fits (shutdown_active env gens w) n"
proof (induction gens arbitrary: w)
  case (Cons g gs)
  let ?w1 = "w\<lparr>wk_active := gs\<rparr>"
  let ?w2 = "retire env g (Fi_Failed ''scheduler shutting down'') Shutdown ?w1"
  have "fits ?w1 (Suc n)" using clear [of ?w1 "Suc n"] Cons.prems by simp
  note r = retired [OF this, of g "Fi_Failed ''scheduler shutting down''" Shutdown]
  have "wk_active ?w2 = gs" by (simp add: wk_simps)
  with clear [of ?w2 n] r have
    "mu ?w2 = mu (?w2\<lparr>wk_active := []\<rparr>) + sum_list (map wt gs) \<and>
     fits (?w2\<lparr>wk_active := []\<rparr>) (n + length gs)" by simp
  with Cons.IH [of ?w2] r clear [of ?w1 n] show ?case by (simp add: add_ac)
qed simp

lemma shutdown_active_conserves:
  "fits w 0 \<Longrightarrow>
   mu (shutdown_active env (wk_active w) w) = mu w \<and> fits (shutdown_active env (wk_active w) w) 0"
  using clear [of w 0] shutdown_conserves [of w 0 "wk_active w"] by simp

end

subsection \<open>Sessions\<close>

text \<open>Every session the worker owns between quanta is idle or held by one active stream.\<close>

definition pool :: "('e, 's, 'g, 'c) worker \<Rightarrow> 's multiset" where
  "pool w = mset (wk_idle w) + mset (map ag_session (wk_active w))"

definition has_room :: "('e, 's, 'g, 'c) env \<Rightarrow> ('e, 's, 'g, 'c) worker \<Rightarrow> nat \<Rightarrow> bool" where
  "has_room env w n \<longleftrightarrow> size (pool w) + n \<le> en_max_sessions env"

lemma size_pool: "size (pool w) = length (wk_idle w) + length (wk_active w)"
  by (simp add: pool_def)

lemma mset_sum_list_sessions: "sum_list (map (\<lambda>g. {#ag_session g#}) gs) = mset (map ag_session gs)"
  by (induction gs) simp_all

lemma pool_core: "same_core w' w \<Longrightarrow> pool w' = pool w"
  by (simp add: same_core_def pool_def)

lemma pool_push: "pool (push_active g w) = pool w + {#ag_session g#}"
  by (simp add: pool_def wk_simps)

lemma pool_retire: "has_room env w (Suc n) \<Longrightarrow> pool (retire env g f mode w) = pool w + {#ag_session g#}"
  by (simp add: has_room_def pool_def wk_simps retire_idle)

lemma pool_clear:
  "pool w = pool (w\<lparr>wk_active := []\<rparr>) + sum_list (map (\<lambda>g. {#ag_session g#}) (wk_active w))"
  unfolding mset_sum_list_sessions by (simp add: pool_def)

interpretation pool: conserved env pool "\<lambda>g. {#ag_session g#}" "has_room env" for env
proof (unfold_locales, goal_cases)
  case (1 w' w n)
  then show ?case by (simp add: pool_core has_room_def)
next
  case (3 w n g)
  then show ?case by (simp add: pool_push has_room_def)
next
  case (4 w n g f mode)
  then show ?case by (simp add: pool_retire) (simp add: pool_retire has_room_def)
next
  case (5 w n)
  show ?case using pool_clear [of w] by (auto simp: has_room_def size_pool)
qed (simp add: same_stream_def)

subsection \<open>The \<open>active_streams\<close> gauge and the count of jobs\<close>

definition stream_gap :: "('e, 's, 'g, 'c) worker \<Rightarrow> i64" where
  "stream_gap w = active_streams (wk_met w) - of_nat (length (wk_active w))"

definition jobs_seen :: "('e, 's, 'g, 'c) worker \<Rightarrow> nat" where
  "jobs_seen w = length (wk_done w) + length (wk_active w)"

lemma finish_event_streams:
  "finish_event f u = (ev, upd, reason) \<Longrightarrow> active_streams (upd m) = active_streams m"
  by (cases f) (auto simp: finish_event_def count_tokens_def)

lemma latency_streams: "active_streams (latency_metrics g f t m) = active_streams m"
  by (simp add: latency_metrics_def observe_ttft_def observe_tpot_def Let_def split: option.splits finish.splits)

lemma push_recent_streams: "active_streams (push_recent r m) = active_streams m"
  by (simp add: push_recent_def)

lemma retire_streams:
  "active_streams (wk_met (retire env g f mode w)) = active_streams (wk_met w) - 1"
  by (cases f)
     (simp_all add: retire_def Let_def wk_simps case_prod_beta finish_event_def count_tokens_def
       latency_streams push_recent_streams split: option.splits)

interpretation streams: conserved env stream_gap "\<lambda>_. - 1" "\<lambda>_ _. True" for env
  by unfold_locales
     (simp_all add: same_core_def stream_gap_def wk_simps retire_streams sum_list_triv)

interpretation jobs: conserved env jobs_seen "\<lambda>_. 1" "\<lambda>_ _. True" for env
  by unfold_locales (simp_all add: same_core_def jobs_seen_def wk_simps sum_list_triv)

text \<open>A quantum leaves the waiting counter alone.\<close>

interpretation waits: conserved env wk_waiting "\<lambda>_. 0" "\<lambda>_ _. True" for env
  by unfold_locales (simp_all add: same_core_def wk_simps)

subsection \<open>Admission keeps the pool\<close>

lemma intake_streams: "stream_gap (intake env j w) = stream_gap w"
  by (rule intake_cases [of env j w]) (simp_all add: stream_gap_def admission_def wk_simps)

lemma intake_jobs: "jobs_seen (intake env j w) = Suc (jobs_seen w)"
  by (rule intake_cases [of env j w]) (simp_all add: jobs_seen_def admission_def wk_simps)

lemma intake_waiting: "wk_waiting (intake env j w) = wk_waiting w - 1"
  by (rule intake_cases [of env j w]) (simp_all add: admission_def wk_simps)

text \<open>The pool gains at most the one session the engine has just created.\<close>

lemma intake_pool:
  assumes "has_room env w 0" "length (wk_active w) < en_max_sessions env"
  shows "has_room env (intake env j w) 0 \<and>
    (pool (intake env j w) = pool w \<or>
     wk_idle w = [] \<and>
     (\<exists>s e. fst (eo_create (en_ops env) e) = Inr s \<and> pool (intake env j w) = add_mset s (pool w)))"
proof -
  have room: "length idle' + length (wk_active w) < en_max_sessions env"
    if "took env (wk_idle w) s idle'" for s idle'
    using that assms by (auto simp: took_def has_room_def size_pool)
  have grows: "has_room env (intake env j w) 0 \<and>
      (pool (intake env j w) = pool w \<or>
       wk_idle w = [] \<and>
       (\<exists>s e. fst (eo_create (en_ops env) e) = Inr s \<and> pool (intake env j w) = add_mset s (pool w)))"
    if t: "took env (wk_idle w) s idle'"
      and e: "pool (intake env j w) = mset (idle' @ [s]) + mset (map ag_session (wk_active w))" for s idle'
  proof (cases "wk_idle w = idle' @ [s]")
    case True
    then have "pool (intake env j w) = pool w" using e by (simp add: pool_def)
    with assms(1) show ?thesis by (simp add: has_room_def)
  next
    case False
    with t have n: "wk_idle w = []" "idle' = []" "\<exists>e. fst (eo_create (en_ops env) e) = Inr s"
      by (auto simp: took_def)
    then have "pool (intake env j w) = add_mset s (pool w)" using e by (simp add: pool_def)
    with n room [OF t] show ?thesis by (auto simp: has_room_def size_pool)
  qed
  show ?thesis
  proof (rule intake_cases [of env j w])
    fix msg w1 assume *: "intake env j w = fail_intake env (job_port j) None msg w1"
      "admission w w1" "wk_idle w1 = wk_idle w"
    then have "pool (intake env j w) = pool w"
      by (simp add: pool_def fail_intake_None_idle wk_simps admission_def)
    then show ?thesis using assms(1) by (simp add: has_room_def)
  next
    fix s msg w1 assume *: "intake env j w = fail_intake env (job_port j) (Some s) msg w1"
      "admission w w1" "took env (wk_idle w) s (wk_idle w1)"
    have r: "length (wk_idle w1) + length (wk_active w1) < en_max_sessions env"
      using room [OF *(3)] *(2) by (simp add: admission_def)
    have "wk_idle (intake env j w) = wk_idle w1 @ [s]" "wk_active (intake env j w) = wk_active w"
      using * fail_intake_idle [OF r] by (simp_all add: wk_simps admission_def)
    then have e: "pool (intake env j w) = mset (wk_idle w1 @ [s]) + mset (map ag_session (wk_active w))"
      by (simp add: pool_def)
    with grows [OF *(3)] show ?thesis by blast
  next
    fix s w1 assume *: "intake env j w =
         with_met (\<lambda>m. m\<lparr>active_sessions := of_nat (length (wk_active w1) + 1)\<rparr>) (push_active (new_gen s j) w1)"
      "admission w w1" "took env (wk_idle w) s (wk_idle w1)"
    then have e: "pool (intake env j w) = mset (wk_idle w1 @ [s]) + mset (map ag_session (wk_active w))"
      by (simp add: pool_def wk_simps admission_def new_gen_def)
    with grows [OF *(3)] show ?thesis by blast
  qed
qed

subsection \<open>An iteration\<close>

lemma worker_iter_pool:
  assumes m: "0 < en_max_sessions env" and f: "has_room env w 0" and it: "worker_iter env rx c w = (b, w')"
  shows "has_room env w' 0 \<and> (pool w' = pool w \<or>
    wk_idle w = [] \<and> (\<exists>s e. fst (eo_create (en_ops env) e) = Inr s \<and> pool w' = add_mset s (pool w)))"
proof -
  have q: "pool (quantum env w) = pool w \<and> has_room env (quantum env w) 0"
    by (rule pool.quantum_conserves [OF f])
  have s: "pool (shutdown_active env (wk_active w) w) = pool w \<and>
      has_room env (shutdown_active env (wk_active w) w) 0"
    by (rule pool.shutdown_active_conserves [OF f])
  show ?thesis
  proof (cases "\<exists>j. w' = quantum env (intake env j w) \<and> length (wk_active w) < en_max_sessions env")
    case True
    then obtain j where j: "w' = quantum env (intake env j w)" "length (wk_active w) < en_max_sessions env"
      by blast
    note i = intake_pool [OF f j(2)]
    from pool.quantum_conserves [of env "intake env j w"] i j(1) show ?thesis by metis
  next
    case False
    have "w' = w \<or> w' = quantum env w \<or> w' = shutdown_active env (wk_active w) w"
      using it False m by (auto simp: worker_iter_def split: if_splits recv.splits)
    with q s f show ?thesis by auto
  qed
qed

lemma worker_iter_streams:
  "worker_iter env rx c w = (b, w') \<Longrightarrow> stream_gap w' = stream_gap w"
  using streams.quantum_conserves [of env] streams.shutdown_active_conserves [of env w] intake_streams [of env _ w]
  by (auto simp: worker_iter_def split: if_splits recv.splits)

text \<open>\<open>takes env rx w\<close>: the iteration takes a job from the queue.\<close>

definition takes :: "('e, 's, 'g, 'c) env \<Rightarrow> 'c recv \<Rightarrow> ('e, 's, 'g, 'c) worker \<Rightarrow> bool" where
  "takes env rx w \<longleftrightarrow>
     (\<exists>j. rx = Rx_Job j) \<and> (wk_active w = [] \<or> length (wk_active w) < en_max_sessions env)"

lemma worker_iter_jobs:
  "worker_iter env rx c w = (b, w') \<Longrightarrow>
   jobs_seen w' = jobs_seen w + of_bool (takes env rx w)"
  using jobs.quantum_conserves [of env] jobs.shutdown_active_conserves [of env w] intake_jobs [of env _ w]
  by (auto simp: worker_iter_def takes_def split: if_splits recv.splits)

lemma worker_iter_waiting:
  "worker_iter env rx c w = (b, w') \<Longrightarrow>
   wk_waiting w' = wk_waiting w - of_bool (takes env rx w)"
  using waits.quantum_conserves [of env] waits.shutdown_active_conserves [of env w] intake_waiting [of env _ w]
  by (auto simp: worker_iter_def takes_def split: if_splits recv.splits)

lemma worker_run_jobs:
  "worker_run env (replicate n (Rx_Empty, c)) w = (b, w') \<Longrightarrow> jobs_seen w' = jobs_seen w"
proof (induction n arbitrary: w)
  case (Suc n)
  obtain b1 w1 where it: "worker_iter env Rx_Empty c w = (b1, w1)" by (cases "worker_iter env Rx_Empty c w") auto
  have "jobs_seen w1 = jobs_seen w" using worker_iter_jobs [OF it] by (simp add: takes_def)
  moreover have "jobs_seen (worker_exit env w1) = jobs_seen w1"
    by (simp add: jobs_seen_def worker_exit_def with_met_def Let_def)
  ultimately show ?case using Suc it by (cases b1) auto
qed simp

subsection \<open>Whose jobs\<close>

text \<open>When the operations on a channel keep its tag, the tags of the jobs that are active or have ended are
  a conserved quantity too, to which an admission adds the tag of the job it takes.\<close>

locale tagged_port =
  fixes env :: "('e, 's, 'g, 'c) env" and tag :: "'c \<Rightarrow> 't"
  assumes tried_tag: "tag (snd (po_try_send (en_port env) ev p)) = tag p"
    and blocked_tag: "tag (snd (po_blocking_send (en_port env) ev p)) = tag p"
    and polled_tag: "tag (snd (po_cancelled (en_port env) p)) = tag p"
begin

definition tags :: "('e, 's, 'g, 'c) worker \<Rightarrow> 't multiset" where
  "tags w = image_mset tag (mset (wk_done w)) + image_mset (\<lambda>g. tag (ag_port g)) (mset (wk_active w))"

lemma moved_tag: "port_moves env p q \<Longrightarrow> tag q = tag p"
  by (induction rule: port_moves.induct) (simp_all add: tried_tag blocked_tag polled_tag)

lemma send_by_mode_tag: "tag (send_by_mode env mode ev p) = tag p"
  by (simp add: send_by_mode_def tried_tag blocked_tag split: retire_mode.split)

lemma retire_port_tag: "tag (retire_port env g f mode) = tag (ag_port g)"
  by (simp add: retire_port_def send_by_mode_tag split: option.split)

lemma tags_sum: "sum_list (map (\<lambda>g. {#tag (ag_port g)#}) gs) = image_mset (\<lambda>g. tag (ag_port g)) (mset gs)"
  by (induction gs) simp_all

end

sublocale tagged_port \<subseteq> tags: conserved env tags "\<lambda>g. {#tag (ag_port g)#}" "\<lambda>_ _. True"
  by unfold_locales
     (auto simp: tags_def same_core_def same_stream_def wk_simps retire_port_tag tags_sum dest: moved_tag)

context tagged_port
begin

lemma intake_tags: "tags (intake env j w) = add_mset (tag (job_port j)) (tags w)"
  by (rule intake_cases [of env j w])
     (simp_all add: tags_def admission_def wk_simps blocked_tag new_gen_def)

lemma worker_iter_tags:
  "worker_iter env rx c w = (b, w') \<Longrightarrow>
   tags w' = tags w + (if takes env rx w then {#tag (job_port (case rx of Rx_Job j \<Rightarrow> j))#} else {#})"
  using tags.quantum_conserves tags.shutdown_active_conserves [of w] intake_tags [of _ w]
  by (auto simp: worker_iter_def takes_def split: if_splits recv.splits)

lemma worker_exit_tags: "tags (worker_exit env w) = tags w"
  by (simp add: tags_def worker_exit_def with_met_def Let_def)

end

end
