(* ===== verification/Scheduler_Props.thy ===== *)
theory Scheduler_Props
  imports Worker_Pool Mock
begin

section \<open>Properties of the scheduler's worker\<close>

subsection \<open>A bounded channel with an acting receiver\<close>

text \<open>
  An instance of the channel contract: a queue of bounded capacity, and the receiver's actions
  that happen before each of the worker's calls. A blocking send on a full queue waits for the
  receiver to take an event.
\<close>

datatype rcv_action = Act_Recv nat | Act_Close | Act_Cancel

record fifo_port =
  fp_cap :: nat
  fp_queue :: "gen_event list"
  fp_sent :: "gen_event list"
  fp_closed :: bool
  fp_cancel :: bool
  fp_tag :: u32
  fp_script :: "rcv_action list"

fun receiver_act :: "rcv_action \<Rightarrow> fifo_port \<Rightarrow> fifo_port" where
  "receiver_act (Act_Recv n) p = p\<lparr>fp_queue := drop n (fp_queue p)\<rparr>"
| "receiver_act Act_Close p = p\<lparr>fp_closed := True\<rparr>"
| "receiver_act Act_Cancel p = p\<lparr>fp_cancel := True\<rparr>"

definition receiver_turn :: "fifo_port \<Rightarrow> fifo_port" where
  "receiver_turn p =
     (case fp_script p of [] \<Rightarrow> p | a # as \<Rightarrow> receiver_act a (p\<lparr>fp_script := as\<rparr>))"

definition fifo_put :: "gen_event \<Rightarrow> fifo_port \<Rightarrow> fifo_port" where
  "fifo_put ev p = p\<lparr>fp_queue := fp_queue p @ [ev], fp_sent := fp_sent p @ [ev]\<rparr>"

definition fifo_try_send :: "gen_event \<Rightarrow> fifo_port \<Rightarrow> send_result \<times> fifo_port" where
  "fifo_try_send ev p =
     (let q = receiver_turn p in
      if fp_closed q then (Closed, q)
      else if length (fp_queue q) \<ge> fp_cap q then (Full, q)
      else (Sent, fifo_put ev q))"

definition fifo_blocking_send :: "gen_event \<Rightarrow> fifo_port \<Rightarrow> bool \<times> fifo_port" where
  "fifo_blocking_send ev p =
     (let q = receiver_turn p in
      if fp_closed q then (False, q)
      else if length (fp_queue q) \<ge> fp_cap q
      then (True, fifo_put ev (receiver_act (Act_Recv 1) q))
      else (True, fifo_put ev q))"

definition fifo_cancelled :: "fifo_port \<Rightarrow> bool \<times> fifo_port" where
  "fifo_cancelled p = (let q = receiver_turn p in (fp_cancel q, q))"

definition fifo_ops :: "fifo_port port_ops" where
  "fifo_ops = \<lparr>po_try_send = fifo_try_send, po_blocking_send = fifo_blocking_send, po_cancelled = fifo_cancelled\<rparr>"

definition fifo_new :: "nat \<Rightarrow> u32 \<Rightarrow> rcv_action list \<Rightarrow> fifo_port" where
  "fifo_new cap n script =
     \<lparr>fp_cap = cap, fp_queue = [], fp_sent = [], fp_closed = False, fp_cancel = False, fp_tag = n,
      fp_script = script\<rparr>"

lemma receiver_act_simps [simp]:
  "fp_sent (receiver_act a p) = fp_sent p" "fp_tag (receiver_act a p) = fp_tag p"
  "fp_closed p \<Longrightarrow> fp_closed (receiver_act a p)"
  by (cases a; simp)+

lemma receiver_turn_simps [simp]:
  "fp_sent (receiver_turn p) = fp_sent p" "fp_tag (receiver_turn p) = fp_tag p"
  "fp_closed p \<Longrightarrow> fp_closed (receiver_turn p)"
  by (auto simp: receiver_turn_def split: list.splits)

lemma fifo_put_simps [simp]:
  "fp_sent (fifo_put ev p) = fp_sent p @ [ev]" "fp_tag (fifo_put ev p) = fp_tag p"
  "fp_closed (fifo_put ev p) = fp_closed p"
  by (simp_all add: fifo_put_def)

interpretation fifo: event_channel fifo_ops fp_sent fp_closed fp_tag
  by unfold_locales
     (auto simp: fifo_ops_def fifo_try_send_def fifo_blocking_send_def fifo_cancelled_def Let_def
           simp del: receiver_act.simps split: if_splits)

subsection \<open>A concrete scheduler\<close>

text \<open>A clock that counts its reads, one or two sessions of a scripted mock engine, batching on
  (the mock supports none).\<close>

definition demo_env :: "nat \<Rightarrow> (mock_world, nat, unit, fifo_port) env" where
  "demo_env n =
     \<lparr>en_ops = mock_ops, en_port = fifo_ops, en_clock = id, en_wall_ms = (\<lambda>_. 0),
      en_max_sessions = n, en_queue_timeout = 1000, en_batching = True\<rparr>"

interpretation fifo_quantum: quantum_frame "demo_env n" fifo.gen_inv fifo.gen_inv fifo.log_ok for n
  by (rule fifo.frame) (simp add: fifo.uses_def demo_env_def)

interpretation fifo_tags: tagged_port "demo_env n" fp_tag for n
  by unfold_locales
     (simp_all add: demo_env_def fifo_ops_def fifo_try_send_def fifo_blocking_send_def fifo_cancelled_def Let_def
        del: receiver_act.simps)

definition demo_job :: "nat \<Rightarrow> u32 \<Rightarrow> rcv_action list \<Rightarrow> fifo_port job" where
  "demo_job cap n script =
     \<lparr>job_inner = \<lparr>gj_prompt_ids = [5, 6], gj_config = gen_config_default\<lparr>gc_max_new_tokens := n\<rparr>\<rparr>,
      job_port = fifo_new cap n script, job_enqueued_at = 0\<rparr>"

definition demo_init :: "i32 list \<Rightarrow> (mock_world, nat, unit, fifo_port) worker" where
  "demo_init script = worker_init (mock_with_script script) metrics_default"

lemmas step_run_defs =
  feed_token_def decode_and_feed_def step_def return_session_def reset_ignored_def group_remove_def
  demote_from_group_def send_by_mode_def count_tokens_def finish_event_def per_token_def
  latency_metrics_def retire_def now_def with_met_def

lemmas worker_run_defs =
  batching_on_def max_batch_slots_def max_batch_slots_cap_def want_batch_def push_active_def
  hold_lone_def settle_def batch_phase_def release_group_def quantum_def worker_iter_def
  fail_intake_def take_session_def prefill_us_of_def prefill_job_def intake_def

lemmas demo_defs =
  demo_env_def demo_job_def demo_init_def worker_init_def mock_with_script_def mock_engine_new_def
  mock_ops_def mock_create_def mock_prefill_def mock_decode_def mock_token_def mock_reset_def
  mock_session_stats_def fifo_ops_def fifo_try_send_def fifo_blocking_send_def fifo_cancelled_def
  fifo_put_def fifo_new_def receiver_turn_def eos_ids_def mock_eos_def gen_config_default_def

lemma demo_run:
  "map fp_sent (wk_done (snd (worker_run (demo_env 1) [(Rx_Job (demo_job 8 2 []), False), (Rx_Empty, False)]
      (demo_init [101, 102, 103])))) =
   [[Ge_Token 101, Ge_Token 102, Ge_Done Fr_Length \<lparr>us_prompt_tokens = 2, us_completion_tokens = 2\<rparr>]]"
  by (simp add: worker_run_defs step_run_defs demo_defs Let_def word_le_nat_alt)

subsection \<open>What each client sees\<close>

text \<open>The log of a job: content tokens within its limit, then, when the job ended, one terminal event
  whose usage counts them. \<open>n\<close> is \<open>max_new_tokens\<close> (0 behaves as 1).\<close>

definition token_log :: "u32 \<Rightarrow> i32 list \<Rightarrow> bool" where
  "token_log n toks \<longleftrightarrow> set toks \<inter> set eos_ids = {} \<and> length toks \<le> max 1 (unat n)"

definition ended_log :: "u32 \<Rightarrow> gen_event list \<Rightarrow> bool" where
  "ended_log n evs \<longleftrightarrow>
     (\<exists>toks. token_log n toks \<and>
        ((\<exists>r u. evs = map Ge_Token toks @ [Ge_Done r u] \<and> unat (us_completion_tokens u) = length toks \<and>
             (r = Fr_Length \<longrightarrow> length toks = max 1 (unat n))) \<or>
         (\<exists>e. evs = map Ge_Token toks @ [Ge_Failed e])))"

lemma job_log:
  assumes "event_channel (en_port env) sent closed tag"
    and "\<forall>(rx, c) \<in> set ins. \<forall>j. rx = Rx_Job j \<longrightarrow>
      sent (job_port j) = [] \<and> gc_max_new_tokens (gj_config (job_inner j)) = tag (job_port j)"
    and "worker_run env ins (worker_init e m) = (True, w)" "p \<in> set (wk_done w)"
  shows "ended_log (tag p) (sent p) \<or>
    closed p \<and> (\<exists>toks. token_log (tag p) toks \<and> sent p = map Ge_Token toks)"
proof -
  note ch = assms(1)
  have "if True then event_channel.wk_ok sent closed tag w else event_channel.logs_final sent closed tag w"
    by (rule event_channel.worker_run_ok [OF ch _ _ event_channel.wk_ok_init [OF ch] assms(3)])
       (use assms(2) in \<open>auto simp: event_channel.uses_def [OF ch] event_channel.job_ok_def [OF ch]\<close>)
  then have "event_channel.log_ok sent closed tag p"
    using assms(4) by (simp add: event_channel.wk_ok_def [OF ch])
  then show ?thesis
    by (auto simp: event_channel.log_ok_def [OF ch] ended_log_def token_log_def
        event_channel.content_def [OF ch] event_channel.limit_def [OF ch])
qed

text \<open>C1: Whatever the engine answers, whatever the clock says and whenever a receiver reads, cancels or leaves: after any number of iterations of the worker loop, every job that left the active set has received its content tokens (no end-of-sequence id, at most \<open>max_new_tokens\<close> of them) followed by exactly one terminal event, which is the last and counts them; only a receiver that is gone may have missed the end.\<close>

theorem every_job_ends_once:
  assumes "event_channel (en_port env) sent closed tag"
    and "\<forall>(rx, c) \<in> set ins. \<forall>j. rx = Rx_Job j \<longrightarrow>
      sent (job_port j) = [] \<and> gc_max_new_tokens (gj_config (job_inner j)) = tag (job_port j)"
    and "worker_run env ins (worker_init e m) = (True, w)" "p \<in> set (wk_done w)"
  shows "ended_log (tag p) (sent p) \<or>
    closed p \<and> (\<exists>toks. token_log (tag p) toks \<and> sent p = map Ge_Token toks)"
  by (rule job_log [OF assms])

theorem every_job_ends_once_witness:
  "ended_log 2 [Ge_Token 101, Ge_Token 102, Ge_Done Fr_Length \<lparr>us_prompt_tokens = 2, us_completion_tokens = 2\<rparr>]"
proof -
  let ?r = "worker_run (demo_env 1) [(Rx_Job (demo_job 8 2 []), False), (Rx_Empty, False)] (demo_init [101, 102, 103])"
  have r: "?r = (True, snd ?r)"
    by (simp add: worker_run_defs step_run_defs demo_defs Let_def word_le_nat_alt)
  then obtain p where p: "wk_done (snd ?r) = [p]" "fp_sent p =
      [Ge_Token 101, Ge_Token 102, Ge_Done Fr_Length \<lparr>us_prompt_tokens = 2, us_completion_tokens = 2\<rparr>]"
    using demo_run by auto
  have d: "fp_tag p = 2 \<and> \<not> fp_closed p"
    using p(1) by (simp add: worker_run_defs step_run_defs demo_defs Let_def word_le_nat_alt) auto
  have e: "event_channel (en_port (demo_env 1)) fp_sent fp_closed fp_tag"
    using fifo.event_channel_axioms by (simp add: demo_env_def)
  have "ended_log (fp_tag p) (fp_sent p) \<or>
      fp_closed p \<and> (\<exists>toks. token_log (fp_tag p) toks \<and> fp_sent p = map Ge_Token toks)"
    by (rule every_job_ends_once [OF e _ r [unfolded demo_init_def]])
       (use p(1) in \<open>auto simp: demo_job_def fifo_new_def demo_init_def\<close>)
  then show ?thesis using d p(2) by simp
qed

subsection \<open>Sessions and gauges\<close>

lemma worker_exit_simps [wk_simps]:
  "wk_idle (worker_exit env w) = []" "wk_active (worker_exit env w) = wk_active w"
  "wk_done (worker_exit env w) = wk_done w"
  "active_streams (wk_met (worker_exit env w)) = active_streams (wk_met w)"
  "active_sessions (wk_met (worker_exit env w)) = 0" "wk_waiting (worker_exit env w) = wk_waiting w"
  by (simp_all add: worker_exit_def with_met_def Let_def)

lemma worker_run_room:
  "0 < en_max_sessions env \<Longrightarrow> has_room env w 0 \<Longrightarrow> worker_run env ins w = (b, w') \<Longrightarrow> has_room env w' 0"
proof (induction ins arbitrary: w)
  case (Cons i ins)
  obtain rx c where i: "i = (rx, c)" by (cases i)
  obtain b1 w1 where it: "worker_iter env rx c w = (b1, w1)" by (cases "worker_iter env rx c w") auto
  note s = worker_iter_pool [OF Cons.prems(1,2) it]
  have "has_room env (worker_exit env w1) 0" using s by (auto simp: has_room_def size_pool wk_simps)
  with s Cons i it show ?case by (cases b1) auto
qed simp

lemma worker_run_streams:
  "worker_run env ins w = (b, w') \<Longrightarrow> stream_gap w' = stream_gap w"
proof (induction ins arbitrary: w)
  case (Cons i ins)
  obtain rx c where i: "i = (rx, c)" by (cases i)
  obtain b1 w1 where it: "worker_iter env rx c w = (b1, w1)" by (cases "worker_iter env rx c w") auto
  have "stream_gap (worker_exit env w1) = stream_gap w1" by (simp add: stream_gap_def wk_simps)
  with worker_iter_streams [OF it] Cons i it show ?case by (cases b1) auto
qed simp

text \<open>The session pool never grows past \<open>max_sessions\<close>: after any iterations, the idle sessions and those of active streams are at most that many.\<close>

theorem session_pool_bounded:
  assumes "0 < en_max_sessions env" "worker_run env ins (worker_init e m) = (b, w)"
  shows "length (wk_idle w) + length (wk_active w) \<le> en_max_sessions env"
proof -
  have "has_room env (worker_init e m) 0" by (simp add: has_room_def size_pool worker_init_def)
  from worker_run_room [OF assms(1) this assms(2)] show ?thesis by (simp add: has_room_def size_pool)
qed

theorem session_pool_bounded_witness:
  "length (wk_idle (snd (worker_run (demo_env 2) [] (demo_init [7])))) \<le> 2"
  using session_pool_bounded [of "demo_env 2" "[]" "mock_with_script [7]" metrics_default True "demo_init [7]"]
  by (simp add: demo_env_def demo_init_def)

text \<open>C14: An iteration neither loses a session nor hands one to two streams: the multiset of the sessions that are idle or in use is the one before it, but for the one session that admission may have just created, and only when none was idle.\<close>

theorem sessions_conserved:
  assumes "0 < en_max_sessions env" "length (wk_idle w) + length (wk_active w) \<le> en_max_sessions env"
    and "worker_iter env rx c w = (b, w')"
  shows "mset (wk_idle w') + mset (map ag_session (wk_active w')) =
      mset (wk_idle w) + mset (map ag_session (wk_active w)) \<or>
    wk_idle w = [] \<and>
    (\<exists>s e. fst (eo_create (en_ops env) e) = Inr s \<and>
       mset (wk_idle w') + mset (map ag_session (wk_active w')) =
         add_mset s (mset (map ag_session (wk_active w))))"
  using worker_iter_pool [OF assms(1) _ assms(3)] assms(2)
  by (auto simp: has_room_def size_pool) (auto simp: pool_def)

theorem sessions_conserved_witness:
  "let w = demo_init [7, 8, 9, 10];
       w' = snd (worker_iter (demo_env 2) (Rx_Job (demo_job 8 4 [])) False w)
   in mset (wk_idle w') + mset (map ag_session (wk_active w')) = {#} \<or>
     (\<exists>s e. fst (eo_create mock_ops e) = Inr s \<and>
        mset (wk_idle w') + mset (map ag_session (wk_active w')) = {#s#})"
proof -
  let ?w = "demo_init [7, 8, 9, 10]"
  let ?r = "worker_iter (demo_env 2) (Rx_Job (demo_job 8 4 [])) False ?w"
  have i: "wk_idle ?w = []" "wk_active ?w = []" by (simp_all add: demo_init_def worker_init_def)
  have e: "en_max_sessions (demo_env 2) = 2" "en_ops (demo_env 2) = mock_ops" by (simp_all add: demo_env_def)
  from sessions_conserved [of "demo_env 2" ?w "Rx_Job (demo_job 8 4 [])" False "fst ?r" "snd ?r"]
  show ?thesis unfolding Let_def by (simp add: i e)
qed

text \<open>C1: The gauge \<open>active_streams\<close> is right between quanta: from a fresh registry, after any iterations it is the number of active streams.\<close>

theorem active_streams_exact:
  assumes "worker_run env ins (worker_init e metrics_default) = (b, w)"
  shows "active_streams (wk_met w) = of_nat (length (wk_active w))"
  using worker_run_streams [OF assms] by (simp add: stream_gap_def worker_init_def metrics_default_def)

theorem active_streams_exact_witness:
  "active_streams (wk_met (snd (worker_run (demo_env 2) [(Rx_Job (demo_job 8 4 []), False)] (demo_init [7, 8, 9, 10])))) = 1"
proof -
  let ?r = "worker_run (demo_env 2) [(Rx_Job (demo_job 8 4 []), False)] (demo_init [7, 8, 9, 10])"
  have "length (wk_active (snd ?r)) = 1"
    by (simp add: worker_run_defs step_run_defs demo_defs Let_def word_le_nat_alt)
  with active_streams_exact [of "demo_env 2" "[(Rx_Job (demo_job 8 4 []), False)]"
      "mock_with_script [7, 8, 9, 10]" "fst ?r" "snd ?r"]
  show ?thesis by (simp add: demo_init_def)
qed


subsection \<open>Batching switched off\<close>

definition solo_ready :: "('e, 's, 'g, 'c) worker \<Rightarrow> bool" where
  "solo_ready w \<longleftrightarrow> wk_group w = None \<and> (\<forall>g \<in> set (wk_active w). ag_slot_id g = None)"

lemma solo_ready_fields:
  "wk_group w' = wk_group w \<Longrightarrow> wk_active w' = wk_active w \<Longrightarrow> solo_ready w' = solo_ready w"
  by (simp add: solo_ready_def)

lemma step_all_solo:
  "solo_ready w \<Longrightarrow> \<forall>g \<in> set gens. ag_slot_id g = None \<Longrightarrow> solo_ready (step_all env gens w)"
proof (induction gens arbitrary: w)
  case (Cons gen gens)
  obtain r g w1 where st: "step env gen w = (r, g, w1)" by (cases "step env gen w") auto
  from step_worker [OF st] Cons.prems
  have "solo_ready (settle env (r, g, w1))"
    by (auto simp: solo_ready_def wk_simps split: step_result.splits)
  with Cons st show ?case by simp
qed simp

lemma sort_gens_off:
  "\<not> batching_on env \<Longrightarrow> \<forall>g \<in> set gens. ag_slot_id g = None \<Longrightarrow>
   sort_gens env gens solo batch w = (solo @ gens, batch, w)"
  by (induction gens arbitrary: solo) (simp_all add: want_batch_def demote_from_group_def)

lemma quantum_off:
  "\<not> batching_on env \<Longrightarrow> solo_ready w \<Longrightarrow>
   quantum env w = step_all env (wk_active w) (w\<lparr>wk_active := []\<rparr>) \<and> solo_ready (quantum env w)"
  using step_all_solo [of "w\<lparr>wk_active := []\<rparr>" "wk_active w" env]
  by (auto simp: quantum_def sort_gens_off solo_ready_def hold_lone_def batch_phase_def release_group_def)

lemma intake_solo: "solo_ready w \<Longrightarrow> solo_ready (intake env j w)"
  by (rule intake_cases [of env j w]) (auto simp: solo_ready_def wk_simps admission_def new_gen_def)

lemma worker_run_solo:
  "\<not> batching_on env \<Longrightarrow> solo_ready w \<Longrightarrow> worker_run env ins w = (b, w') \<Longrightarrow> b \<Longrightarrow> solo_ready w'"
proof (induction ins arbitrary: w)
  case (Cons i ins)
  obtain rx c where i: "i = (rx, c)" by (cases i)
  obtain b1 w1 where it: "worker_iter env rx c w = (b1, w1)" by (cases "worker_iter env rx c w") auto
  have "solo_ready w1" if b1
    using it that Cons.prems(2) conjunct2 [OF quantum_off [OF Cons.prems(1)]] intake_solo [OF Cons.prems(2), of env]
    by (auto simp: worker_iter_def split: if_splits recv.splits)
  with Cons i it show ?case by (cases b1) auto
qed simp

text \<open>The escape hatch: with batching switched off (or an engine without it), every quantum is exactly one solo step of each active stream in order, whatever happened before; no group is created, nothing is held back and no other engine call is made.\<close>

theorem batching_off_is_solo:
  assumes "\<not> batching_on env" "worker_run env ins (worker_init e m) = (True, w)"
  shows "quantum env w = step_all env (wk_active w) (w\<lparr>wk_active := []\<rparr>)"
proof -
  have "solo_ready (worker_init e m)" by (simp add: solo_ready_def worker_init_def)
  from worker_run_solo [OF assms(1) this assms(2)] quantum_off [OF assms(1)] show ?thesis by simp
qed

theorem batching_off_is_solo_witness:
  "quantum (demo_env 1) (demo_init [7]) = demo_init [7]"
  using batching_off_is_solo [of "demo_env 1" "[]" "mock_with_script [7]" metrics_default "demo_init [7]"]
  by (simp add: demo_init_def batching_on_def demo_env_def mock_ops_def worker_init_def)

end
