(* ===== verification/Scheduler_System.thy ===== *)
theory Scheduler_System
  imports Scheduler_Props
begin

section \<open>The scheduler as a whole: submitters, queue and worker thread\<close>

text \<open>
  \<open>minicpm-scheduler/src/lib.rs\<close>: \<open>Scheduler\<close>, \<open>SchedulerHandle\<close> and \<open>SchedulerInner\<close>, the side that
  the HTTP handlers call, running against the worker thread. A call of \<open>try_generate\<close> or
  \<open>generate\<close> is a \<open>submit\<close> thread whose program counter stops between any two accesses to a
  shared atomic, so every interleaving of the compare-and-swap loop, of the gauge mirror and of
  the send is a run. The worker thread alternates a receive with an iteration of its loop. The
  waiting counter and the metrics registry are those of the worker record, which all threads
  share. \<open>sy_sent\<close> and \<open>sy_taken\<close> only record history. A job's channel is the parameter \<open>'c\<close>.
\<close>

subsection \<open>Configuration\<close>

record sched_config =
  sc_max_sessions :: nat
  sc_event_channel_capacity :: nat
  sc_queue_limit :: nat
  sc_queue_timeout :: nat
  sc_batching :: bool

text \<open>\<open>MC_BATCH_OFF\<close>, read from the environment.\<close>

definition batch_env_off :: "string option \<Rightarrow> bool" where
  "batch_env_off var = (let v = (case var of None \<Rightarrow> '''' | Some v \<Rightarrow> v) in v = ''1'' \<or> v = ''true'')"

definition sched_config_default :: "string option \<Rightarrow> sched_config" where
  "sched_config_default var =
     \<lparr>sc_max_sessions = 1, sc_event_channel_capacity = 1024, sc_queue_limit = 32,
      sc_queue_timeout = 120 * 10 ^ 9, sc_batching = \<not> batch_env_off var\<rparr>"

datatype submit_error = Queue_Full

subsection \<open>State\<close>

text \<open>Where a submitting thread is. \<open>Pc_Cas cur\<close>: \<open>cur\<close> was loaded and passed the guard; \<open>Pc_Add\<close>:
  \<open>generate\<close> was refused and adds one unguarded; \<open>Pc_Store v\<close>: the mirror loaded \<open>v\<close>.\<close>

datatype submit_pc =
  Pc_Load | Pc_Cas i64 | Pc_Add | Pc_Mirror | Pc_Store i64 | Pc_Send | Pc_Sent | Pc_Refused submit_error

record 'c submit =
  sb_job :: generation_job
  sb_port :: 'c
  sb_forced :: bool
  sb_pc :: submit_pc

record ('e, 's, 'g, 'c) sys =
  sy_worker :: "('e, 's, 'g, 'c) worker"
  sy_running :: bool
  sy_rx :: "'c recv option"
  sy_queue :: "'c job list"
  sy_threads :: "'c submit list"
  sy_open :: bool
  sy_closing :: bool
  sy_tx :: bool
  sy_sent :: "'c job list"
  sy_taken :: "'c job list"

text \<open>\<open>with_config\<close>: the two assertions, then a worker thread over an empty channel.\<close>

definition with_config :: "sched_config \<Rightarrow> 'e \<Rightarrow> metrics \<Rightarrow> ('e, 's, 'g, 'c) sys option" where
  "with_config cfg e m =
     (if sc_max_sessions cfg \<ge> 1 \<and> sc_event_channel_capacity cfg \<ge> 1
      then Some \<lparr>sy_worker = worker_init e m, sy_running = True, sy_rx = None, sy_queue = [],
                 sy_threads = [], sy_open = True, sy_closing = False, sy_tx = True,
                 sy_sent = [], sy_taken = []\<rparr>
      else None)"

text \<open>What \<open>with_config\<close> hands to the worker thread.\<close>

definition sched_env ::
  "sched_config \<Rightarrow> ('e, 's, 'g) engine_ops \<Rightarrow> 'c port_ops \<Rightarrow> (nat \<Rightarrow> nat) \<Rightarrow> (nat \<Rightarrow> u64) \<Rightarrow>
   ('e, 's, 'g, 'c) env" where
  "sched_env cfg ops po clk wall =
     \<lparr>en_ops = ops, en_port = po, en_clock = clk, en_wall_ms = wall,
      en_max_sessions = sc_max_sessions cfg, en_queue_timeout = sc_queue_timeout cfg,
      en_batching = sc_batching cfg\<rparr>"

subsection \<open>A submitting thread\<close>

definition set_waiting :: "i64 \<Rightarrow> ('e, 's, 'g, 'c) sys \<Rightarrow> ('e, 's, 'g, 'c) sys" where
  "set_waiting n s = s\<lparr>sy_worker := (sy_worker s)\<lparr>wk_waiting := n\<rparr>\<rparr>"

text \<open>\<open>queue_depth\<close>: one load of the counter.\<close>

definition sys_waiting :: "('e, 's, 'g, 'c) sys \<Rightarrow> i64" where
  "sys_waiting s = wk_waiting (sy_worker s)"

text \<open>The guard of \<open>admit\<close>: a signed comparison with \<open>limit as i64\<close>.\<close>

definition queue_full :: "nat \<Rightarrow> i64 \<Rightarrow> bool" where
  "queue_full limit cur \<longleftrightarrow> limit = 0 \<or> sint (of_nat limit :: i64) \<le> sint cur"

definition submit_raw ::
  "generation_job \<Rightarrow> 'c \<Rightarrow> nat \<Rightarrow> ('e, 's, 'g, 'c) sys \<Rightarrow> ('e, 's, 'g, 'c) sys" where
  "submit_raw job p t s =
     (let j = \<lparr>job_inner = job, job_port = p, job_enqueued_at = t\<rparr>
      in if sy_running s then s\<lparr>sy_queue := sy_queue s @ [j], sy_sent := sy_sent s @ [j]\<rparr> else s)"

definition submit_step ::
  "('e, 's, 'g, 'c) env \<Rightarrow> nat \<Rightarrow> 'c submit \<Rightarrow> ('e, 's, 'g, 'c) sys \<Rightarrow>
   submit_pc \<times> ('e, 's, 'g, 'c) sys" where
  "submit_step env limit b s =
     (case sb_pc b of
        Pc_Load \<Rightarrow>
          (if queue_full limit (sys_waiting s)
           then (if sb_forced b then Pc_Add else Pc_Refused Queue_Full, s)
           else (Pc_Cas (sys_waiting s), s))
      | Pc_Cas cur \<Rightarrow>
          (if sys_waiting s = cur then (Pc_Mirror, set_waiting (cur + 1) s) else (Pc_Load, s))
      | Pc_Add \<Rightarrow> (Pc_Mirror, set_waiting (sys_waiting s + 1) s)
      | Pc_Mirror \<Rightarrow> (Pc_Store (sys_waiting s), s)
      | Pc_Store v \<Rightarrow>
          (Pc_Send, s\<lparr>sy_worker := with_met (\<lambda>m. m\<lparr>queue_depth := v\<rparr>) (sy_worker s)\<rparr>)
      | Pc_Send \<Rightarrow>
          (let (t, w) = now env (sy_worker s)
           in (Pc_Sent, submit_raw (sb_job b) (sb_port b) t (s\<lparr>sy_worker := w\<rparr>)))
      | pc \<Rightarrow> (pc, s))"

fun returned :: "submit_pc \<Rightarrow> bool" where
  "returned Pc_Sent = True"
| "returned (Pc_Refused _) = True"
| "returned _ = False"

subsection \<open>The worker thread\<close>

definition receives :: "('e, 's, 'g, 'c) env \<Rightarrow> ('e, 's, 'g, 'c) worker \<Rightarrow> bool" where
  "receives env w \<longleftrightarrow> wk_active w = [] \<or> length (wk_active w) < en_max_sessions env"

text \<open>\<open>recv\<close> or \<open>try_recv\<close>; a \<open>recv\<close> on an empty open channel blocks (\<open>None\<close>).\<close>

definition channel_recv :: "('e, 's, 'g, 'c) sys \<Rightarrow> ('c recv \<times> 'c job list) option" where
  "channel_recv s =
     (case sy_queue s of
        j # q \<Rightarrow> Some (Rx_Job j, q)
      | [] \<Rightarrow>
          if \<not> sy_tx s then Some (Rx_Disconnected, [])
          else if wk_active (sy_worker s) = [] then None else Some (Rx_Empty, []))"

fun rx_jobs :: "'c recv option \<Rightarrow> 'c job list" where
  "rx_jobs (Some (Rx_Job j)) = [j]"
| "rx_jobs _ = []"

definition loop_turn :: "('e, 's, 'g, 'c) env \<Rightarrow> ('e, 's, 'g, 'c) sys \<Rightarrow> ('e, 's, 'g, 'c) sys" where
  "loop_turn env s =
     (let rx = (case sy_rx s of None \<Rightarrow> Rx_Empty | Some r \<Rightarrow> r);
          (go, w) = worker_iter env rx (sy_closing s) (sy_worker s)
      in s\<lparr>sy_worker := (if go then w else worker_exit env w), sy_running := go, sy_rx := None,
           sy_taken := sy_taken s @ rx_jobs (sy_rx s)\<rparr>)"

subsection \<open>Steps of the system\<close>

text \<open>A call of \<open>generate\<close> (forced) or \<open>try_generate\<close> starts; a thread moves; the worker receives, or
  runs an iteration; the last handle is dropped (which no call can outlive), setting the flag
  and then closing the channel.\<close>

datatype 'c label =
    L_Call generation_job 'c bool
  | L_Thread nat
  | L_Recv
  | L_Loop
  | L_Drop
  | L_Hangup

fun sys_do ::
  "('e, 's, 'g, 'c) env \<Rightarrow> nat \<Rightarrow> 'c label \<Rightarrow> ('e, 's, 'g, 'c) sys \<Rightarrow> ('e, 's, 'g, 'c) sys option" where
  "sys_do env limit (L_Call job p forced) s =
     (if sy_open s
      then Some (s\<lparr>sy_threads := sy_threads s @
                   [\<lparr>sb_job = job, sb_port = p, sb_forced = forced, sb_pc = Pc_Load\<rparr>]\<rparr>)
      else None)"
| "sys_do env limit (L_Thread i) s =
     (if i < length (sy_threads s)
      then (let b = sy_threads s ! i; (pc, s1) = submit_step env limit b s
            in Some (s1\<lparr>sy_threads := (sy_threads s)[i := b\<lparr>sb_pc := pc\<rparr>]\<rparr>))
      else None)"
| "sys_do env limit L_Recv s =
     (if sy_running s \<and> sy_rx s = None \<and> receives env (sy_worker s)
      then map_option (\<lambda>(r, q). s\<lparr>sy_rx := Some r, sy_queue := q\<rparr>) (channel_recv s)
      else None)"
| "sys_do env limit L_Loop s =
     (if sy_running s \<and> (receives env (sy_worker s) \<longrightarrow> sy_rx s \<noteq> None)
      then Some (loop_turn env s) else None)"
| "sys_do env limit L_Drop s =
     (if sy_open s \<and> list_all (\<lambda>b. returned (sb_pc b)) (sy_threads s)
      then Some (s\<lparr>sy_open := False, sy_closing := True\<rparr>) else None)"
| "sys_do env limit L_Hangup s =
     (if sy_closing s \<and> sy_tx s then Some (s\<lparr>sy_tx := False\<rparr>) else None)"

fun sys_run ::
  "('e, 's, 'g, 'c) env \<Rightarrow> nat \<Rightarrow> 'c label list \<Rightarrow> ('e, 's, 'g, 'c) sys \<Rightarrow> ('e, 's, 'g, 'c) sys option" where
  "sys_run env limit [] s = Some s"
| "sys_run env limit (l # ls) s =
     (case sys_do env limit l s of None \<Rightarrow> None | Some s1 \<Rightarrow> sys_run env limit ls s1)"

inductive sys_reach ::
  "('e, 's, 'g, 'c) env \<Rightarrow> nat \<Rightarrow> ('e, 's, 'g, 'c) sys \<Rightarrow> ('e, 's, 'g, 'c) sys \<Rightarrow> bool"
  for env limit s0 where
  start: "sys_reach env limit s0 s0"
| move: "sys_reach env limit s0 s \<Longrightarrow> sys_do env limit l s = Some s' \<Longrightarrow> sys_reach env limit s0 s'"

lemma sys_run_reach: "sys_reach env limit s0 s \<Longrightarrow> sys_run env limit ls s = Some s' \<Longrightarrow> sys_reach env limit s0 s'"
  by (induction ls arbitrary: s) (auto split: option.splits intro: sys_reach.move)

end
