(* ===== verification/Scheduler_System_Props.thy ===== *)
theory Scheduler_System_Props
  imports Scheduler_System
begin

section \<open>Properties of the scheduler as a whole\<close>

text \<open>
  One invariant of every reachable state ties the waiting counter to the jobs it counts, the
  history to the queue, and the shutdown flags to each other; each label keeps it. The
  properties read it off.
\<close>

subsection \<open>The invariant\<close>

text \<open>A thread that has counted itself in and has not sent its job yet; one that has counted itself in.\<close>

fun counted :: "submit_pc \<Rightarrow> bool" where
  "counted Pc_Mirror = True"
| "counted (Pc_Store _) = True"
| "counted Pc_Send = True"
| "counted _ = False"

definition tally :: "('c submit \<Rightarrow> bool) \<Rightarrow> ('e, 's, 'g, 'c) sys \<Rightarrow> nat" where
  "tally P s = length (filter P (sy_threads s))"

definition pending :: "('e, 's, 'g, 'c) sys \<Rightarrow> nat" where
  "pending s = length (rx_jobs (sy_rx s)) + length (sy_queue s) + tally (\<lambda>b. counted (sb_pc b)) s"

definition overdraft :: "('e, 's, 'g, 'c) sys \<Rightarrow> nat" where
  "overdraft s = tally (\<lambda>b. sb_forced b \<and> (counted (sb_pc b) \<or> sb_pc b = Pc_Sent)) s"

text \<open>What a thread knows at its program counter.\<close>

fun pc_ok :: "nat \<Rightarrow> bool \<Rightarrow> submit_pc \<Rightarrow> bool" where
  "pc_ok limit forced (Pc_Cas cur) = (\<not> queue_full limit cur)"
| "pc_ok limit forced Pc_Add = forced"
| "pc_ok limit forced (Pc_Refused _) = (\<not> forced)"
| "pc_ok limit forced _ = True"

definition history_ok :: "('e, 's, 'g, 'c) sys \<Rightarrow> bool" where
  "history_ok s \<longleftrightarrow>
     sy_sent s = sy_taken s @ rx_jobs (sy_rx s) @ sy_queue s \<and>
     jobs_seen (sy_worker s) = length (sy_taken s) \<and>
     tally (\<lambda>b. sb_pc b = Pc_Sent) s = length (sy_sent s)"

definition flags_ok :: "('e, 's, 'g, 'c) env \<Rightarrow> ('e, 's, 'g, 'c) sys \<Rightarrow> bool" where
  "flags_ok env s \<longleftrightarrow>
     (sy_open s = (\<not> sy_closing s)) \<and> (\<not> sy_tx s \<longrightarrow> sy_closing s) \<and> (\<not> sy_running s \<longrightarrow> sy_closing s) \<and>
     (sy_closing s \<longrightarrow> (\<forall>b \<in> set (sy_threads s). returned (sb_pc b))) \<and>
     (sy_rx s = Some Rx_Disconnected \<longrightarrow> \<not> sy_tx s) \<and>
     (sy_rx s \<noteq> None \<longrightarrow> receives env (sy_worker s))"

definition waiting_ok :: "nat \<Rightarrow> ('e, 's, 'g, 'c) sys \<Rightarrow> bool" where
  "waiting_ok limit s \<longleftrightarrow>
     sys_waiting s = of_nat (pending s) \<and>
     (\<forall>b \<in> set (sy_threads s). pc_ok limit (sb_forced b) (sb_pc b)) \<and>
     (limit + length (sy_threads s) < 2 ^ 63 \<longrightarrow> pending s \<le> limit + overdraft s)"

definition sys_inv :: "('e, 's, 'g, 'c) env \<Rightarrow> nat \<Rightarrow> ('e, 's, 'g, 'c) sys \<Rightarrow> bool" where
  "sys_inv env limit s \<longleftrightarrow> history_ok s \<and> flags_ok env s \<and> waiting_ok limit s"

lemma tally_update:
  "i < length xs \<Longrightarrow>
   length (filter P (xs[i := y])) + of_bool (P (xs ! i)) = length (filter P xs) + of_bool (P y)"
proof (induction xs arbitrary: i)
  case (Cons x xs)
  then show ?case by (cases i) auto
qed simp

lemma tally_le: "tally P s \<le> length (sy_threads s)"
  by (simp add: tally_def)

lemma overdraft_le: "overdraft s \<le> length (sy_threads s)"
  by (simp add: overdraft_def tally_le)

lemma with_config_inv: "with_config cfg e m = Some s \<Longrightarrow> sys_inv env limit s"
  by (auto simp: with_config_def sys_inv_def history_ok_def flags_ok_def waiting_ok_def pending_def
      tally_def worker_init_def jobs_seen_def sys_waiting_def split: if_splits)

subsection \<open>The worker's steps\<close>

lemma rx_takes:
  "sy_rx s \<noteq> None \<longrightarrow> receives env (sy_worker s) \<Longrightarrow>
   takes env (case sy_rx s of None \<Rightarrow> Rx_Empty | Some r \<Rightarrow> r) (sy_worker s) \<longleftrightarrow> rx_jobs (sy_rx s) \<noteq> []"
  by (cases "sy_rx s"; cases "the (sy_rx s)") (auto simp: takes_def receives_def)

lemma rx_jobs_length: "length (rx_jobs r) = of_bool (rx_jobs r \<noteq> [])"
  by (cases r rule: rx_jobs.cases) auto

lemma loop_turn_fields:
  "sy_queue (loop_turn env s) = sy_queue s" "sy_threads (loop_turn env s) = sy_threads s"
  "sy_rx (loop_turn env s) = None" "sy_sent (loop_turn env s) = sy_sent s"
  "sy_taken (loop_turn env s) = sy_taken s @ rx_jobs (sy_rx s)" "sy_open (loop_turn env s) = sy_open s"
  "sy_closing (loop_turn env s) = sy_closing s" "sy_tx (loop_turn env s) = sy_tx s"
  by (simp_all add: loop_turn_def Let_def split: prod.splits)

lemma loop_turn_worker:
  assumes "sy_rx s \<noteq> None \<longrightarrow> receives env (sy_worker s)"
  shows "wk_waiting (sy_worker (loop_turn env s)) = wk_waiting (sy_worker s) - of_bool (rx_jobs (sy_rx s) \<noteq> [])"
    and "jobs_seen (sy_worker (loop_turn env s)) = jobs_seen (sy_worker s) + of_bool (rx_jobs (sy_rx s) \<noteq> [])"
proof -
  let ?rx = "case sy_rx s of None \<Rightarrow> Rx_Empty | Some r \<Rightarrow> r"
  obtain go w where it: "worker_iter env ?rx (sy_closing s) (sy_worker s) = (go, w)" by fastforce
  then have w: "sy_worker (loop_turn env s) = (if go then w else worker_exit env w)"
    by (simp add: loop_turn_def)
  show "wk_waiting (sy_worker (loop_turn env s)) = wk_waiting (sy_worker s) - of_bool (rx_jobs (sy_rx s) \<noteq> [])"
    using worker_iter_waiting [OF it] rx_takes [OF assms] by (simp add: w wk_simps)
  show "jobs_seen (sy_worker (loop_turn env s)) = jobs_seen (sy_worker s) + of_bool (rx_jobs (sy_rx s) \<noteq> [])"
    using worker_iter_jobs [OF it] rx_takes [OF assms] by (simp add: w jobs_seen_def wk_simps)
qed

lemma worker_iter_stops:
  "worker_iter env rx c w = (False, w') \<Longrightarrow> rx = Rx_Disconnected \<or> c"
  by (auto simp: worker_iter_def split: if_splits recv.splits)

lemma loop_turn_running:
  "flags_ok env s \<Longrightarrow> \<not> sy_running (loop_turn env s) \<Longrightarrow> sy_closing s"
  using worker_iter_stops [of env "case sy_rx s of None \<Rightarrow> Rx_Empty | Some r \<Rightarrow> r" "sy_closing s" "sy_worker s"]
  by (auto simp: loop_turn_def flags_ok_def Let_def split: prod.splits option.splits)

lemma loop_inv:
  assumes "sys_inv env limit s"
  shows "sys_inv env limit (loop_turn env s)"
proof -
  have f: "flags_ok env s" and rx: "sy_rx s \<noteq> None \<longrightarrow> receives env (sy_worker s)"
    using assms by (auto simp: sys_inv_def flags_ok_def)
  note w = loop_turn_worker [OF rx]
  have t: "tally P (loop_turn env s) = tally P s" for P by (simp add: tally_def loop_turn_fields)
  have "history_ok (loop_turn env s)"
    using assms w(2) rx_jobs_length [of "sy_rx s"] by (simp add: sys_inv_def history_ok_def loop_turn_fields t)
  moreover have "flags_ok env (loop_turn env s)"
    using f loop_turn_running [OF f] by (auto simp: flags_ok_def loop_turn_fields)
  moreover have "waiting_ok limit (loop_turn env s)"
    using assms w(1) rx_jobs_length [of "sy_rx s"]
    by (auto simp: sys_inv_def waiting_ok_def loop_turn_fields sys_waiting_def pending_def overdraft_def t)
  ultimately show ?thesis by (simp add: sys_inv_def)
qed

lemma recv_inv:
  assumes "sys_inv env limit s" "sys_do env limit L_Recv s = Some s'"
  shows "sys_inv env limit s'"
proof -
  obtain r q where r: "channel_recv s = Some (r, q)" "s' = s\<lparr>sy_rx := Some r, sy_queue := q\<rparr>"
    and e: "sy_rx s = None" "receives env (sy_worker s)"
    using assms(2) by (auto split: if_splits)
  have "rx_jobs (Some r) @ q = sy_queue s \<and> (r = Rx_Disconnected \<longrightarrow> \<not> sy_tx s)"
    using r(1) by (auto simp: channel_recv_def split: list.splits if_splits)
  moreover from this have "length (rx_jobs (Some r)) + length q = length (sy_queue s)"
    by (metis length_append)
  ultimately show ?thesis
    using assms(1) e r(2)
    by (auto simp: sys_inv_def history_ok_def flags_ok_def waiting_ok_def pending_def overdraft_def
        tally_def sys_waiting_def)
qed

subsection \<open>A submitter's steps\<close>

lemma tally_thread:
  "i < length (sy_threads s) \<Longrightarrow>
   tally P (s1\<lparr>sy_threads := (sy_threads s)[i := y]\<rparr>) + of_bool (P (sy_threads s ! i)) =
   tally P s + of_bool (P y)"
  by (simp add: tally_def tally_update)

lemma set_waiting_simps [simp]:
  "sy_queue (set_waiting n s) = sy_queue s" "sy_threads (set_waiting n s) = sy_threads s"
  "sy_rx (set_waiting n s) = sy_rx s" "sy_sent (set_waiting n s) = sy_sent s"
  "sy_taken (set_waiting n s) = sy_taken s" "sy_open (set_waiting n s) = sy_open s"
  "sy_closing (set_waiting n s) = sy_closing s" "sy_tx (set_waiting n s) = sy_tx s"
  "sy_running (set_waiting n s) = sy_running s" "sys_waiting (set_waiting n s) = n"
  "wk_active (sy_worker (set_waiting n s)) = wk_active (sy_worker s)"
  "jobs_seen (sy_worker (set_waiting n s)) = jobs_seen (sy_worker s)"
  by (simp_all add: set_waiting_def sys_waiting_def jobs_seen_def)

text \<open>What a step of a thread changes: its counter, the waiting counter, the queue.\<close>

lemma submit_step_frame:
  assumes "submit_step env limit b s = (pc, s1)" "sy_running s \<or> sb_pc b \<noteq> Pc_Send"
  shows "sy_rx s1 = sy_rx s" "sy_open s1 = sy_open s" "sy_closing s1 = sy_closing s"
    "sy_tx s1 = sy_tx s" "sy_running s1 = sy_running s" "sy_taken s1 = sy_taken s"
    "wk_active (sy_worker s1) = wk_active (sy_worker s)"
    "jobs_seen (sy_worker s1) = jobs_seen (sy_worker s)"
    "\<exists>js. sy_queue s1 = sy_queue s @ js \<and> sy_sent s1 = sy_sent s @ js \<and>
       length js = of_bool (sb_pc b = Pc_Send)"
    "sys_waiting s1 = sys_waiting s + of_bool (counted pc \<and> \<not> counted (sb_pc b))"
    "pc = Pc_Sent \<longleftrightarrow> sb_pc b = Pc_Send \<or> sb_pc b = Pc_Sent"
    "counted (sb_pc b) \<longrightarrow> counted pc \<or> sb_pc b = Pc_Send"
  using assms
  by (auto simp: submit_step_def submit_raw_def now_def sys_waiting_def set_waiting_def jobs_seen_def with_met_def Let_def
      split: submit_pc.splits if_splits)

lemma submit_step_pc:
  assumes "submit_step env limit b s = (pc, s1)" "pc_ok limit (sb_forced b) (sb_pc b)"
  shows "pc_ok limit (sb_forced b) pc"
    "counted pc \<and> \<not> counted (sb_pc b) \<longrightarrow> sb_forced b \<or> \<not> queue_full limit (sys_waiting s)"
  using assms by (cases "sb_pc b"; auto simp: submit_step_def split: if_splits prod.splits)+

lemma returned_stays: "submit_step env limit b s = (pc, s1) \<Longrightarrow> returned (sb_pc b) \<Longrightarrow> pc = sb_pc b"
  by (cases "sb_pc b") (auto simp: submit_step_def)

lemma not_full_room:
  assumes "\<not> queue_full limit (of_nat n)" "limit + k < 2 ^ 63" "n \<le> limit + k"
  shows "n < limit"
proof -
  have small: "sint (of_nat m :: i64) = int m" if "m < 2 ^ 63" for m
    using that by (simp add: signed_of_nat take_bit_int_eq_self signed_take_bit_int_eq_self)
  show ?thesis using assms small [of limit] small [of n] by (simp add: queue_full_def)
qed

lemma send_running: "sys_inv env limit s \<Longrightarrow> b \<in> set (sy_threads s) \<Longrightarrow> sy_running s \<or> sb_pc b \<noteq> Pc_Send"
  by (auto simp: sys_inv_def flags_ok_def)

lemma thread_inv:
  assumes inv: "sys_inv env limit s" and go: "sys_do env limit (L_Thread i) s = Some s'"
  shows "sys_inv env limit s'"
proof -
  let ?b = "sy_threads s ! i"
  obtain pc s1 where st: "submit_step env limit ?b s = (pc, s1)" and i: "i < length (sy_threads s)"
    and s': "s' = s1\<lparr>sy_threads := (sy_threads s)[i := ?b\<lparr>sb_pc := pc\<rparr>]\<rparr>"
    using go by (auto simp: Let_def split: if_splits prod.splits)
  have b: "?b \<in> set (sy_threads s)" using i by simp
  have run: "sy_running s \<or> sb_pc ?b \<noteq> Pc_Send"
    by (rule send_running [OF inv b])
  note fr = submit_step_frame [OF st run]
  obtain js where js: "sy_queue s1 = sy_queue s @ js" "sy_sent s1 = sy_sent s @ js"
    "length js = of_bool (sb_pc ?b = Pc_Send)" using fr(9) by blast
  have ok: "pc_ok limit (sb_forced ?b) (sb_pc ?b)" using inv b by (simp add: sys_inv_def waiting_ok_def)
  note pc = submit_step_pc [OF st ok]
  note tl = tally_thread [OF i, where y = "?b\<lparr>sb_pc := pc\<rparr>" and ?s1.0 = s1, folded s']
  have set': "set (sy_threads s') \<subseteq> insert (?b\<lparr>sb_pc := pc\<rparr>) (set (sy_threads s))"
    by (simp add: s' set_update_subset_insert)
  have hist: "history_ok s'"
    using inv fr(6,8,11) js tl [of "\<lambda>b. sb_pc b = Pc_Sent"]
    by (auto simp: sys_inv_def history_ok_def s' fr(1) split: if_splits)
  have flags: "flags_ok env s'"
  proof -
    have "returned pc" if "sy_closing s"
      using that inv b returned_stays [OF st] by (auto simp: sys_inv_def flags_ok_def)
    then show ?thesis
      using inv set' fr(1-5,7) by (auto simp: sys_inv_def flags_ok_def s' receives_def)
  qed
  have cnt: "pending s' = pending s + of_bool (counted pc \<and> \<not> counted (sb_pc ?b))"
    using tl [of "\<lambda>b. counted (sb_pc b)"] fr(1,11,12) js by (auto simp: pending_def s')
  have wait: "sys_waiting s' = of_nat (pending s')"
    using inv fr(10) by (simp add: cnt sys_inv_def waiting_ok_def) (simp add: s' sys_waiting_def)
  have over: "overdraft s' = overdraft s + of_bool (counted pc \<and> \<not> counted (sb_pc ?b) \<and> sb_forced ?b)"
    using tl [of "\<lambda>b. sb_forced b \<and> (counted (sb_pc b) \<or> sb_pc b = Pc_Sent)"] fr(11,12)
    by (auto simp: overdraft_def)
  have bound: "pending s' \<le> limit + overdraft s'" if "limit + length (sy_threads s) < 2 ^ 63"
  proof (cases "counted pc \<and> \<not> counted (sb_pc ?b) \<and> \<not> sb_forced ?b")
    case False
    then show ?thesis using inv that by (auto simp: sys_inv_def waiting_ok_def cnt over)
  next
    case True
    then have "\<not> queue_full limit (of_nat (pending s))"
      using pc(2) inv by (auto simp: sys_inv_def waiting_ok_def)
    moreover have "pending s \<le> limit + overdraft s" using inv that by (simp add: sys_inv_def waiting_ok_def)
    ultimately have "pending s < limit" using not_full_room that overdraft_le [of s] by (meson add_le_cancel_left le_less_trans)
    then show ?thesis by (simp add: cnt)
  qed
  have "waiting_ok limit s'"
    using wait bound inv set' pc(1) by (auto simp: waiting_ok_def sys_inv_def s')
  with hist flags show ?thesis by (simp add: sys_inv_def)
qed

lemma sys_do_inv: "sys_inv env limit s \<Longrightarrow> sys_do env limit l s = Some s' \<Longrightarrow> sys_inv env limit s'"
proof (cases l)
  case (L_Call job p forced)
  assume "sys_inv env limit s" "sys_do env limit l s = Some s'"
  with L_Call show ?thesis
    by (auto simp: sys_inv_def history_ok_def flags_ok_def waiting_ok_def pending_def overdraft_def
        tally_def sys_waiting_def split: if_splits)
next
  case L_Drop
  assume "sys_inv env limit s" "sys_do env limit l s = Some s'"
  with L_Drop show ?thesis
    by (auto simp: sys_inv_def history_ok_def flags_ok_def waiting_ok_def pending_def overdraft_def
        tally_def sys_waiting_def list_all_iff split: if_splits)
next
  case L_Hangup
  assume "sys_inv env limit s" "sys_do env limit l s = Some s'"
  with L_Hangup show ?thesis
    by (auto simp: sys_inv_def history_ok_def flags_ok_def waiting_ok_def pending_def overdraft_def
        tally_def sys_waiting_def split: if_splits)
qed (auto intro: thread_inv recv_inv loop_inv split: if_splits)

lemma sys_reach_inv:
  "sys_reach env limit s0 s \<Longrightarrow> with_config cfg e m = Some s0 \<Longrightarrow> sys_inv env limit s"
  by (induction rule: sys_reach.induct) (auto intro: with_config_inv sys_do_inv)

text \<open>The pool's bound, for the whole system.\<close>

lemma with_config_room: "with_config cfg e m = Some s \<Longrightarrow> has_room env (sy_worker s) 0"
  by (auto simp: with_config_def worker_init_def has_room_def size_pool split: if_splits)

lemma submit_step_pool:
  "submit_step env limit b s = (pc, s1) \<Longrightarrow> pool (sy_worker s1) = pool (sy_worker s)"
  by (auto simp: submit_step_def submit_raw_def now_def set_waiting_def with_met_def pool_def Let_def
      split: submit_pc.splits if_splits)

lemma loop_turn_room:
  assumes "0 < en_max_sessions env" "has_room env (sy_worker s) 0"
  shows "has_room env (sy_worker (loop_turn env s)) 0"
proof -
  let ?rx = "case sy_rx s of None \<Rightarrow> Rx_Empty | Some r \<Rightarrow> r"
  obtain go w where it: "worker_iter env ?rx (sy_closing s) (sy_worker s) = (go, w)" by fastforce
  then have w: "sy_worker (loop_turn env s) = (if go then w else worker_exit env w)"
    by (simp add: loop_turn_def)
  have "has_room env w 0" using worker_iter_pool [OF assms it] by simp
  then show ?thesis by (auto simp: w has_room_def size_pool wk_simps)
qed

lemma sys_reach_room:
  "sys_reach env limit s0 s \<Longrightarrow> with_config cfg e m = Some s0 \<Longrightarrow> 0 < en_max_sessions env \<Longrightarrow>
   has_room env (sy_worker s) 0"
proof (induction rule: sys_reach.induct)
  case start
  then show ?case by (simp add: with_config_room)
next
  case (move s l s')
  then have r: "has_room env (sy_worker s) 0" by simp
  show ?case
  proof (cases l)
    case (L_Thread i)
    with move r show ?thesis
      by (auto simp: has_room_def Let_def dest: submit_step_pool split: if_splits prod.splits)
  next
    case L_Loop
    with move r show ?thesis by (auto intro: loop_turn_room split: if_splits)
  qed (use move r in \<open>auto split: if_splits\<close>)
qed

subsection \<open>Admission control\<close>

text \<open>C1: The waiting counter is exact under every interleaving of submitting threads and the worker: it always is the number of jobs counted in but not yet taken in by an iteration (those between their count and their send, queued, or received). The compare-and-swap loop keeps that number within \<open>queue_limit\<close>; only calls of \<open>generate\<close> can go past it, by one each.\<close>

theorem waiting_counter_exact:
  assumes "with_config cfg e m = Some s0" "sys_reach env limit s0 s"
  shows "sys_waiting s = of_nat (pending s) \<and>
    (limit + length (sy_threads s) < 2 ^ 63 \<longrightarrow> pending s \<le> limit + overdraft s)"
  using sys_reach_inv [OF assms(2,1)] by (simp add: sys_inv_def waiting_ok_def)

definition demo_gen_job :: generation_job where
  "demo_gen_job = \<lparr>gj_prompt_ids = [5, 6], gj_config = gen_config_default\<lparr>gc_max_new_tokens := 2\<rparr>\<rparr>"

definition demo_call :: "bool \<Rightarrow> fifo_port label" where
  "demo_call forced = L_Call demo_gen_job (fifo_new 8 2 []) forced"

definition demo_cfg :: sched_config where
  "demo_cfg = \<lparr>sc_max_sessions = 1, sc_event_channel_capacity = 8, sc_queue_limit = 1,
     sc_queue_timeout = 1000, sc_batching = True\<rparr>"

definition demo_start :: "(mock_world, nat, unit, fifo_port) sys" where
  "demo_start = the (with_config demo_cfg (mock_with_script [101, 102, 103]) metrics_default)"

definition demo_sys :: "fifo_port label list \<Rightarrow> (mock_world, nat, unit, fifo_port) sys" where
  "demo_sys ls = (case sys_run (demo_env 1) 1 ls demo_start of None \<Rightarrow> demo_start | Some s \<Rightarrow> s)"

lemma demo_config:
  "with_config demo_cfg (mock_with_script [101, 102, 103]) metrics_default = Some demo_start"
  by (simp add: demo_start_def with_config_def demo_cfg_def)

lemma demo_reach: "sys_reach (demo_env 1) 1 demo_start (demo_sys ls)"
  by (auto simp: demo_sys_def intro: sys_reach.start sys_run_reach [OF sys_reach.start] split: option.splits)

text \<open>Two racing callers with one place: both load 0, the first swaps, the second retries and is refused.\<close>

definition demo_race :: "fifo_port label list" where
  "demo_race = [demo_call False, demo_call False, L_Thread 0, L_Thread 1, L_Thread 0, L_Thread 1,
     L_Thread 1, L_Thread 0, L_Thread 0]"

theorem waiting_counter_exact_witness:
  "sys_waiting (demo_sys demo_race) = 1 \<and> map sb_pc (sy_threads (demo_sys demo_race)) = [Pc_Send, Pc_Refused Queue_Full]"
proof -
  have p: "pending (demo_sys demo_race) = 1" by code_simp
  from waiting_counter_exact [OF demo_config demo_reach] have "sys_waiting (demo_sys demo_race) = 1"
    by (simp add: p)
  moreover have "map sb_pc (sy_threads (demo_sys demo_race)) = [Pc_Send, Pc_Refused Queue_Full]" by code_simp
  ultimately show ?thesis by simp
qed

text \<open>C1: A caller of \<open>try_generate\<close> that loads the counter is refused exactly when the limit is 0 or that many jobs are waiting at that moment; a refused call returns and has changed nothing.\<close>

theorem try_generate_refusal:
  assumes "with_config cfg e m = Some s0" "sys_reach env limit s0 s" "limit + length (sy_threads s) < 2 ^ 63"
    and "i < length (sy_threads s)" "sb_pc (sy_threads s ! i) = Pc_Load" "\<not> sb_forced (sy_threads s ! i)"
  shows "sys_do env limit (L_Thread i) s =
    Some (s\<lparr>sy_threads := (sy_threads s)[i := (sy_threads s ! i)\<lparr>sb_pc :=
      (if limit = 0 \<or> limit \<le> pending s then Pc_Refused Queue_Full else Pc_Cas (sys_waiting s))\<rparr>]\<rparr>)"
proof -
  have w: "sys_waiting s = of_nat (pending s)" and p: "pending s \<le> limit + overdraft s"
    using sys_reach_inv [OF assms(2,1)] assms(3) by (simp_all add: sys_inv_def waiting_ok_def)
  have "queue_full limit (sys_waiting s) \<longleftrightarrow> limit = 0 \<or> limit \<le> pending s"
  proof -
    have small: "sint (of_nat k :: i64) = int k" if "k < 2 ^ 63" for k
      using that by (simp add: signed_of_nat take_bit_int_eq_self signed_take_bit_int_eq_self)
    have "pending s < 2 ^ 63" using p overdraft_le [of s] assms(3) by linarith
    with small assms(3) show ?thesis by (simp add: queue_full_def w)
  qed
  with assms(4-6) show ?thesis by (simp add: submit_step_def)
qed

theorem try_generate_refusal_witness:
  "let s = demo_sys [demo_call False, demo_call False, L_Thread 0, L_Thread 0]
   in sys_do (demo_env 1) 1 (L_Thread 1) s =
      Some (s\<lparr>sy_threads := (sy_threads s)[1 := (sy_threads s ! 1)\<lparr>sb_pc := Pc_Refused Queue_Full\<rparr>]\<rparr>)"
proof -
  let ?ls = "[demo_call False, demo_call False, L_Thread 0, L_Thread 0]"
  have f: "length (sy_threads (demo_sys ?ls)) = 2" "sb_pc (sy_threads (demo_sys ?ls) ! 1) = Pc_Load"
    "sb_forced (sy_threads (demo_sys ?ls) ! 1) = False" "pending (demo_sys ?ls) = 1" by code_simp+
  have "1 + length (sy_threads (demo_sys ?ls)) < 2 ^ 63" "1 < length (sy_threads (demo_sys ?ls))"
    "\<not> sb_forced (sy_threads (demo_sys ?ls) ! 1)" by (simp_all only: f) simp_all
  from try_generate_refusal [OF demo_config demo_reach this(1,2) f(2) this(3)] show ?thesis
    by (simp only: Let_def f order_refl simp_thms if_True)
qed

text \<open>The guard compares with \<open>queue_limit as i64\<close>: a limit of 2^63 or more, \<open>usize::MAX\<close> say, turns negative and refuses every call while nothing is waiting.\<close>

theorem huge_queue_limit_refuses_all:
  assumes "2 ^ 63 \<le> limit" "limit < 2 ^ 64" "0 \<le> sint cur"
  shows "queue_full limit cur"
proof -
  have "(int limit + 2 ^ 63) mod 2 ^ 64 = (int limit - 2 ^ 63 + 2 ^ 64) mod 2 ^ 64" by (simp add: add.commute)
  also have "\<dots> = int limit - 2 ^ 63" using assms(1,2) by (simp only: mod_add_self2) simp
  finally have "sint (of_nat limit :: i64) = int limit - 2 ^ 64"
    by (simp add: signed_of_nat signed_take_bit_eq_take_bit_shift take_bit_eq_mod)
  with assms show ?thesis by (simp add: queue_full_def)
qed

theorem huge_queue_limit_refuses_all_witness: "queue_full (2 ^ 64 - 1) 0"
  by (rule huge_queue_limit_refuses_all) simp_all

subsection \<open>No job is lost or reordered while the scheduler is up\<close>

lemma update_filter_mset:
  "i < length xs \<Longrightarrow> \<not> P (xs ! i) \<Longrightarrow>
   mset (filter P (xs[i := y])) = mset (filter P xs) + (if P y then {#y#} else {#})"
proof (induction xs arbitrary: i)
  case (Cons x xs)
  then show ?case by (cases i) auto
qed simp

text \<open>The jobs sent are those of the calls that returned a stream.\<close>

definition call_of :: "'c submit \<Rightarrow> generation_job \<times> 'c" where
  "call_of b = (sb_job b, sb_port b)"

definition job_call :: "'c job \<Rightarrow> generation_job \<times> 'c" where
  "job_call j = (job_inner j, job_port j)"

lemma thread_calls:
  assumes inv: "sys_inv env limit s" and go: "sys_do env limit (L_Thread i) s = Some s'"
    and c: "mset (map job_call (sy_sent s)) = mset (map call_of (filter (\<lambda>b. sb_pc b = Pc_Sent) (sy_threads s)))"
  shows "mset (map job_call (sy_sent s')) = mset (map call_of (filter (\<lambda>b. sb_pc b = Pc_Sent) (sy_threads s')))"
proof -
  let ?b = "sy_threads s ! i" and ?P = "\<lambda>b. sb_pc b = Pc_Sent"
  obtain pc s1 where st: "submit_step env limit ?b s = (pc, s1)" and i: "i < length (sy_threads s)"
    and s': "s' = s1\<lparr>sy_threads := (sy_threads s)[i := ?b\<lparr>sb_pc := pc\<rparr>]\<rparr>"
    using go by (auto simp: Let_def split: if_splits prod.splits)
  have run: "sy_running s \<or> sb_pc ?b \<noteq> Pc_Send"
    by (rule send_running [OF inv]) (simp add: i)
  show ?thesis
  proof (cases "?P ?b")
    case True
    then have "pc = Pc_Sent" "s1 = s" using st by (simp_all add: submit_step_def)
    moreover from this True have "?b\<lparr>sb_pc := pc\<rparr> = ?b" by simp
    ultimately show ?thesis using c by (simp add: s' list_update_id)
  next
    case False
    have "sy_sent s1 = sy_sent s @ (if pc = Pc_Sent then [the_job s1] else []) \<and>
        (pc = Pc_Sent \<longrightarrow> job_call (the_job s1) = call_of ?b)" if "the_job = (\<lambda>s. last (sy_sent s))" for the_job
      using st run False that
      by (auto simp: submit_step_def submit_raw_def now_def set_waiting_def job_call_def call_of_def with_met_def Let_def
          split: submit_pc.splits if_splits)
    then obtain j where "sy_sent s1 = sy_sent s @ (if pc = Pc_Sent then [j] else [])" "pc = Pc_Sent \<longrightarrow> job_call j = call_of ?b"
      by blast
    moreover have "call_of (?b\<lparr>sb_pc := x\<rparr>) = call_of ?b" for x by (simp add: call_of_def)
    ultimately show ?thesis using c update_filter_mset [OF i, of ?P "?b\<lparr>sb_pc := pc\<rparr>"] False by (simp add: s')
  qed
qed

lemma reach_calls:
  "sys_reach env limit s0 s \<Longrightarrow> with_config cfg e m = Some s0 \<Longrightarrow>
   mset (map job_call (sy_sent s)) = mset (map call_of (filter (\<lambda>b. sb_pc b = Pc_Sent) (sy_threads s)))"
proof (induction rule: sys_reach.induct)
  case start
  then show ?case by (auto simp: with_config_def split: if_splits)
next
  case (move s l s')
  note inv = sys_reach_inv [OF move.hyps(1) move.prems]
  show ?case
  proof (cases l)
    case (L_Thread i)
    with move thread_calls [OF inv] show ?thesis by blast
  qed (use move in \<open>auto simp: loop_turn_fields split: if_splits\<close>)
qed

lemma loop_turn_tags:
  assumes "tagged_port env tag" "flags_ok env s"
  shows "tagged_port.tags tag (sy_worker (loop_turn env s)) =
    tagged_port.tags tag (sy_worker s) + mset (map (\<lambda>j. tag (job_port j)) (rx_jobs (sy_rx s)))"
proof -
  let ?rx = "case sy_rx s of None \<Rightarrow> Rx_Empty | Some r \<Rightarrow> r"
  obtain go w where it: "worker_iter env ?rx (sy_closing s) (sy_worker s) = (go, w)" by fastforce
  have t: "takes env ?rx (sy_worker s) \<longleftrightarrow> rx_jobs (sy_rx s) \<noteq> []"
    using rx_takes [of s env] assms(2) by (simp add: flags_ok_def)
  have "tagged_port.tags tag (sy_worker (loop_turn env s)) = tagged_port.tags tag w"
    using it tagged_port.worker_exit_tags [OF assms(1), of w] by (simp add: loop_turn_def)
  also have "\<dots> = tagged_port.tags tag (sy_worker s) + mset (map (\<lambda>j. tag (job_port j)) (rx_jobs (sy_rx s)))"
    using tagged_port.worker_iter_tags [OF assms(1) it] t
    by (cases "sy_rx s"; cases "the (sy_rx s)") (simp_all split: if_splits)
  finally show ?thesis .
qed

lemma reach_tags:
  assumes "tagged_port env tag"
  shows "sys_reach env limit s0 s \<Longrightarrow> with_config cfg e m = Some s0 \<Longrightarrow>
    tagged_port.tags tag (sy_worker s) = mset (map (\<lambda>j. tag (job_port j)) (sy_taken s))"
proof (induction rule: sys_reach.induct)
  case start
  then show ?case by (auto simp: with_config_def worker_init_def tagged_port.tags_def [OF assms] split: if_splits)
next
  case (move s l s')
  note inv = sys_reach_inv [OF move.hyps(1) move.prems]
  show ?case
  proof (cases l)
    case (L_Thread i)
    with move have "wk_done (sy_worker s') = wk_done (sy_worker s) \<and> wk_active (sy_worker s') = wk_active (sy_worker s) \<and>
        sy_taken s' = sy_taken s"
      by (auto simp: submit_step_def submit_raw_def now_def set_waiting_def with_met_def Let_def
          split: submit_pc.splits if_splits prod.splits)
    with move show ?thesis by (simp add: tagged_port.tags_def [OF assms])
  next
    case L_Loop
    with move loop_turn_tags [OF assms, of s] inv show ?thesis
      by (auto simp: loop_turn_fields sys_inv_def split: if_splits)
  qed (use move in \<open>auto split: if_splits\<close>)
qed

text \<open>C13: The queue is first in, first out and loses nothing: the jobs of the calls that returned a stream, in the order of their sends, are those the worker took in, in that order, then the one it has just received, then those still queued. Each of those jobs is the job of exactly one such call, with its channel, and the channels of the streams that are active or have ended are exactly those of the jobs taken in, one each: none is dropped, doubled or handed to another client.\<close>

theorem jobs_fifo_and_conserved:
  assumes "with_config cfg e m = Some s0" "sys_reach env limit s0 s" "tagged_port env tag"
  shows "sy_sent s = sy_taken s @ rx_jobs (sy_rx s) @ sy_queue s \<and>
    mset (map (\<lambda>j. (job_inner j, job_port j)) (sy_sent s)) =
      mset (map (\<lambda>b. (sb_job b, sb_port b)) (filter (\<lambda>b. sb_pc b = Pc_Sent) (sy_threads s))) \<and>
    mset (map tag (wk_done (sy_worker s) @ map ag_port (wk_active (sy_worker s)))) =
      mset (map (\<lambda>j. tag (job_port j)) (sy_taken s))"
proof -
  have "tagged_port.tags tag (sy_worker s) =
      mset (map tag (wk_done (sy_worker s) @ map ag_port (wk_active (sy_worker s))))"
    by (simp add: tagged_port.tags_def [OF assms(3)] multiset.map_comp comp_def)
  with reach_tags [OF assms(3,2,1)] reach_calls [OF assms(2,1)] sys_reach_inv [OF assms(2,1)] show ?thesis
    by (simp add: sys_inv_def history_ok_def job_call_def [abs_def] call_of_def [abs_def])
qed

text \<open>Two calls that both send: \<open>generate\<close> goes past the limit of 1.\<close>

definition demo_two :: "fifo_port label list" where
  "demo_two = [demo_call False, demo_call True] @ replicate 5 (L_Thread 0) @ replicate 5 (L_Thread 1)"

theorem jobs_fifo_and_conserved_witness:
  "let s = demo_sys (demo_two @ [L_Recv, L_Loop])
   in sy_sent s = sy_taken s @ sy_queue s \<and> length (sy_queue s) = 1 \<and>
     mset (map fp_tag (wk_done (sy_worker s) @ map ag_port (wk_active (sy_worker s)))) = {#2#}"
proof -
  let ?s = "demo_sys (demo_two @ [L_Recv, L_Loop])"
  have f: "length (sy_queue ?s) = 1" "map (\<lambda>j. fp_tag (job_port j)) (sy_taken ?s) = [2]" "rx_jobs (sy_rx ?s) = []" by code_simp+
  from jobs_fifo_and_conserved [OF demo_config demo_reach [of "demo_two @ [L_Recv, L_Loop]"] fifo_tags.tagged_port_axioms]
  show ?thesis unfolding Let_def f by (simp add: f)
qed

subsection \<open>Shutdown\<close>

text \<open>The worker's own moves: it receives when it has to, then runs an iteration.\<close>

fun worker_turns ::
  "('e, 's, 'g, 'c) env \<Rightarrow> nat \<Rightarrow> nat \<Rightarrow> ('e, 's, 'g, 'c) sys \<Rightarrow> ('e, 's, 'g, 'c) sys option" where
  "worker_turns env limit 0 s = Some s"
| "worker_turns env limit (Suc n) s =
     (if \<not> sy_running s then Some s
      else case (if receives env (sy_worker s) \<and> sy_rx s = None then sys_do env limit L_Recv s else Some s) of
        None \<Rightarrow> None
      | Some s1 \<Rightarrow>
          (case sys_do env limit L_Loop s1 of None \<Rightarrow> None | Some s2 \<Rightarrow> worker_turns env limit n s2))"

lemma shutdown_active_empty: "wk_active (shutdown_active env gens w) = []"
  by (induction env gens w rule: shutdown_active.induct) simp_all

lemma iter_stop_active: "worker_iter env rx c w = (False, w') \<Longrightarrow> wk_active w' = []"
  by (auto simp: worker_iter_def shutdown_active_empty split: if_splits recv.splits)

lemma iter_disconnected: "receives env w \<Longrightarrow> \<not> fst (worker_iter env Rx_Disconnected c w)"
  by (auto simp: worker_iter_def receives_def)

lemma iter_closing: "\<not> receives env w \<Longrightarrow> \<not> fst (worker_iter env rx True w)"
  by (auto simp: worker_iter_def receives_def)

lemma loop_turn_goes:
  "sy_running (loop_turn env s) \<longleftrightarrow>
   fst (worker_iter env (case sy_rx s of None \<Rightarrow> Rx_Empty | Some r \<Rightarrow> r) (sy_closing s) (sy_worker s))"
  by (simp add: loop_turn_def split: prod.splits)

lemma loop_turn_stops:
  assumes "\<not> sy_running (loop_turn env s)"
  shows "wk_active (sy_worker (loop_turn env s)) = []" "wk_idle (sy_worker (loop_turn env s)) = []"
    "wk_group (sy_worker (loop_turn env s)) = None"
proof -
  let ?rx = "case sy_rx s of None \<Rightarrow> Rx_Empty | Some r \<Rightarrow> r"
  obtain go w where it: "worker_iter env ?rx (sy_closing s) (sy_worker s) = (go, w)" by fastforce
  with assms have "\<not> go" "sy_worker (loop_turn env s) = worker_exit env w" by (auto simp: loop_turn_def)
  with it iter_stop_active show "wk_active (sy_worker (loop_turn env s)) = []"
    "wk_idle (sy_worker (loop_turn env s)) = []" "wk_group (sy_worker (loop_turn env s)) = None"
    by (auto simp: wk_simps worker_exit_def with_met_def Let_def)
qed

text \<open>One turn after the channel is closed stops the worker or takes a job off the queue.\<close>

definition backlog :: "('e, 's, 'g, 'c) sys \<Rightarrow> nat" where
  "backlog s = length (sy_queue s) + of_bool (sy_rx s \<noteq> None)"

definition stopped_clean :: "('e, 's, 'g, 'c) sys \<Rightarrow> bool" where
  "stopped_clean s \<longleftrightarrow>
     \<not> sy_running s \<and> wk_active (sy_worker s) = [] \<and> wk_idle (sy_worker s) = [] \<and> wk_group (sy_worker s) = None"

lemma loop_result:
  "if sy_running (loop_turn env s) then True else stopped_clean (loop_turn env s)"
  using loop_turn_stops [of env s] by (auto simp: stopped_clean_def)

lemma worker_turn_closed:
  assumes inv: "sys_inv env limit s" and tx: "\<not> sy_tx s" and run: "sy_running s"
  shows "\<exists>s1 s2. (if receives env (sy_worker s) \<and> sy_rx s = None then sys_do env limit L_Recv s else Some s) = Some s1 \<and>
    sys_do env limit L_Loop s1 = Some s2 \<and> sys_inv env limit s2 \<and> \<not> sy_tx s2 \<and>
    (if sy_running s2 then Suc (backlog s2) = backlog s else stopped_clean s2)"
proof -
  have cl: "sy_closing s" and rx: "sy_rx s \<noteq> None \<longrightarrow> receives env (sy_worker s)"
    using inv tx by (auto simp: sys_inv_def flags_ok_def)
  show ?thesis
  proof (cases "receives env (sy_worker s) \<and> sy_rx s = None")
    case False
    have "sys_do env limit L_Loop s = Some (loop_turn env s)" using False run rx by auto
    moreover have "Suc (backlog (loop_turn env s)) = backlog s" if r: "sy_running (loop_turn env s)"
    proof -
      have "receives env (sy_worker s)"
        using r iter_closing [of env "sy_worker s"] cl by (auto simp: loop_turn_goes)
      then show ?thesis using False by (simp add: backlog_def loop_turn_fields)
    qed
    ultimately show ?thesis
      using False loop_inv [OF inv] loop_result [of env s] tx by (auto simp: loop_turn_fields)
  next
    case True
    obtain r q where q: "channel_recv s = Some (r, q)"
      "(r = Rx_Disconnected \<and> sy_queue s = []) \<or> (\<exists>j. sy_queue s = j # q)"
      using tx by (cases "sy_queue s") (auto simp: channel_recv_def)
    let ?s1 = "s\<lparr>sy_rx := Some r, sy_queue := q\<rparr>"
    have rv: "sys_do env limit L_Recv s = Some ?s1" using True run q(1) by simp
    have lp: "sys_do env limit L_Loop ?s1 = Some (loop_turn env ?s1)" using run by simp
    have "Suc (backlog (loop_turn env ?s1)) = backlog s" if "sy_running (loop_turn env ?s1)"
    proof -
      have "r \<noteq> Rx_Disconnected"
        using that iter_disconnected [of env "sy_worker s" "sy_closing s"] True
        by (auto simp: loop_turn_goes)
      then show ?thesis using q(2) True by (auto simp: backlog_def loop_turn_fields)
    qed
    then show ?thesis
      using True rv lp loop_inv [OF recv_inv [OF inv rv]] loop_result [of env ?s1] tx
      by (auto simp: loop_turn_fields)
  qed
qed

lemma worker_turns_stop:
  "sys_inv env limit s \<Longrightarrow> \<not> sy_tx s \<Longrightarrow> sy_running s \<Longrightarrow> backlog s < n \<Longrightarrow>
   \<exists>s'. worker_turns env limit n s = Some s' \<and> stopped_clean s'"
proof (induction n arbitrary: s)
  case (Suc n)
  from worker_turn_closed [OF Suc.prems(1-3)] obtain s1 s2 where
    s: "(if receives env (sy_worker s) \<and> sy_rx s = None then sys_do env limit L_Recv s else Some s) = Some s1"
    "sys_do env limit L_Loop s1 = Some s2" "sys_inv env limit s2" "\<not> sy_tx s2"
    "if sy_running s2 then Suc (backlog s2) = backlog s else stopped_clean s2" by blast
  have st: "worker_turns env limit (Suc n) s = worker_turns env limit n s2"
    by (simp only: worker_turns.simps s(1,2) option.case Suc.prems(3) if_False not_True_eq_False simp_thms)
  show ?case
  proof (cases "sy_running s2")
    case True
    with s(5) Suc.prems(4) Suc.IH [OF s(3,4) True] st show ?thesis by simp
  next
    case False
    with s(5) st show ?thesis by (cases n) auto
  qed
qed simp


definition demo_closed :: "fifo_port label list" where
  "demo_closed = demo_two @ [L_Recv, L_Loop, L_Drop, L_Hangup]"


text \<open>A stopped worker's queue stays as it is.\<close>

lemma stopped_queue:
  "sys_reach env limit s s' \<Longrightarrow> \<not> sy_running s \<Longrightarrow> sy_queue s' = sy_queue s \<and> \<not> sy_running s'"
proof (induction rule: sys_reach.induct)
  case (move s' l s'')
  then have "\<not> sy_running s'" "sy_queue s' = sy_queue s" by simp_all
  with move.hyps(2) show ?case
    by (cases l) (auto simp: Let_def submit_step_def set_waiting_def submit_raw_def
        split: if_splits prod.splits submit_pc.splits)
qed simp

text \<open>C1: But with every session busy it drops the queue: when the flag is set and the active set is full, the iteration ends the active streams and stops with the queue as it was, and it stays so. The queued jobs get no event at all, not even \<open>Failed\<close>; their clients see the stream end without a terminal event, and the counter still counts them.\<close>

theorem shutdown_drops_queued_jobs:
  assumes "with_config cfg e m = Some s0" "sys_reach env limit s0 s" "sy_running s" "sy_closing s"
    and "\<not> receives env (sy_worker s)"
  shows "\<exists>s'. sys_do env limit L_Loop s = Some s' \<and> sys_waiting s' = of_nat (length (sy_queue s)) \<and>
    (\<forall>s''. sys_reach env limit s' s'' \<longrightarrow> sy_queue s'' = sy_queue s \<and> \<not> sy_running s'')"
proof -
  let ?s' = "loop_turn env s"
  have inv: "sys_inv env limit s" using sys_reach_inv [OF assms(2,1)] .
  have rx: "sy_rx s = None" using inv assms(5) by (auto simp: sys_inv_def flags_ok_def)
  have "\<not> sy_running ?s'"
    using iter_closing [OF assms(5)] assms(4) by (auto simp: loop_turn_goes)
  moreover have "tally (\<lambda>b. counted (sb_pc b)) ?s' = 0"
  proof -
    have "\<not> counted (sb_pc b)" if "b \<in> set (sy_threads s)" for b
      using inv assms(4) that by (cases "sb_pc b") (auto simp: sys_inv_def flags_ok_def)
    then show ?thesis by (simp add: tally_def loop_turn_fields filter_empty_conv)
  qed
  moreover have "sys_inv env limit ?s'" using loop_inv [OF inv] .
  ultimately show ?thesis
    using assms(3,5) rx stopped_queue [of env limit ?s']
    by (auto simp: sys_inv_def waiting_ok_def pending_def loop_turn_fields)
qed

text \<open>One session, two jobs, shutdown: the second client's channel never carries an event.\<close>

theorem shutdown_drops_queued_jobs_witness:
  "\<exists>s'. sys_do (demo_env 1) 1 L_Loop (demo_sys demo_closed) = Some s' \<and> sys_waiting s' = 1 \<and>
    map (\<lambda>j. fp_sent (job_port j)) (sy_queue s') = [[]]"
proof -
  have f: "sy_closing (demo_sys demo_closed)" "sy_running (demo_sys demo_closed)"
    "receives (demo_env 1) (sy_worker (demo_sys demo_closed)) = False"
    "length (sy_queue (demo_sys demo_closed)) = 1"
    "map (\<lambda>j. fp_sent (job_port j)) (sy_queue (demo_sys demo_closed)) = [[]]" by code_simp+
  from shutdown_drops_queued_jobs [OF demo_config demo_reach, of demo_closed] f sys_reach.start show ?thesis
    by fastforce
qed

end
