(* ===== verification/Worker_Drain.thy ===== *)
theory Worker_Drain
  imports Scheduler_Props
begin

section \<open>Every job comes to an end\<close>

text \<open>
  Liveness of the worker, on a channel with room for a job's tokens: each quantum brings an
  active stream nearer to its token limit or spends its one hold, so a stream is gone after
  \<open>max_new_tokens + 1\<close> quanta, whatever the engine answers and however the batch path fails.
\<close>

subsection \<open>Channels with room\<close>

text \<open>\<open>room p\<close> more events fit: a send into a channel with room is never refused as full and takes
  one place.\<close>

locale roomy_channel =
  fixes po :: "'c port_ops" and room :: "'c \<Rightarrow> nat"
  assumes room_send: "po_try_send po ev p = (r, q) \<Longrightarrow> 0 < room p \<Longrightarrow> r \<noteq> Full \<and> room p \<le> Suc (room q)"
    and room_poll: "po_cancelled po p = (c, q) \<Longrightarrow> room p \<le> room q"
begin

definition goal :: "('s, 'c) active_gen \<Rightarrow> nat" where
  "goal g = max 1 (unat (gc_max_new_tokens (ag_config g)))"

definition left :: "('s, 'c) active_gen \<Rightarrow> nat" where
  "left g = (goal g - unat (ag_generated g)) + (if ag_batch_held g then 0 else 1)"

text \<open>A stream that has something left, at most \<open>n\<close> quanta, and room for its tokens.\<close>

definition tight :: "nat \<Rightarrow> ('s, 'c) active_gen \<Rightarrow> bool" where
  "tight n g \<longleftrightarrow>
     ag_pending_tok g = None \<and> unat (ag_generated g) < goal g \<and> left g \<le> n \<and>
     goal g - unat (ag_generated g) \<le> room (ag_port g)"

lemma tight_mono: "tight n g \<Longrightarrow> n \<le> k \<Longrightarrow> tight k g"
  by (simp add: tight_def)

lemma not_tight_0: "\<not> tight 0 g"
  by (simp add: tight_def left_def)

lemma goal_fields [simp]:
  "goal (g\<lparr>ag_slot_id := x\<rparr>) = goal g" "goal (g\<lparr>ag_port := q\<rparr>) = goal g"
  "goal (g\<lparr>ag_batch_held := b\<rparr>) = goal g" "goal (g\<lparr>ag_generated := n\<rparr>) = goal g"
  "goal (g\<lparr>ag_first_token_at := t\<rparr>) = goal g"
  by (simp_all add: goal_def)

lemma goal_small: "goal g < 2 ^ 32"
  using unsigned_less [of "gc_max_new_tokens (ag_config g)"] by (simp add: goal_def)

lemma inc_small: "unat (ag_generated g) < goal g \<Longrightarrow> unat (ag_generated g + 1) = Suc (unat (ag_generated g))"
  using goal_small [of g] by (simp add: unat_word_ariths)

lemma feed_tight:
  assumes "tight (Suc n) gen" "en_port env = po" "feed_token env gen tok w = (r, g, w')"
  shows "case r of Sr_Done f \<Rightarrow> True | _ \<Rightarrow> tight n g"
proof (cases "tok \<in> set eos_ids")
  case True
  with assms(3) show ?thesis by (auto simp: feed_token_def)
next
  case False
  obtain sr q where q: "po_try_send po (Ge_Token tok) (ag_port gen) = (sr, q)"
    by (cases "po_try_send po (Ge_Token tok) (ag_port gen)") auto
  have t: "unat (ag_generated gen) < goal gen" "goal gen - unat (ag_generated gen) \<le> room (ag_port gen)"
    "ag_pending_tok gen = None" "left gen \<le> Suc n"
    using assms(1) by (simp_all add: tight_def)
  have ch: "sr \<noteq> Full" "room (ag_port gen) \<le> Suc (room q)" using room_send [OF q] t(1,2) by auto
  note inc = inc_small [OF t(1)]
  show ?thesis
  proof (cases "ucast (gc_max_new_tokens (ag_config gen)) \<le> ag_generated gen + 1")
    case True
    with assms(2,3) False q ch(1) show ?thesis
      by (cases sr) (auto simp: feed_token_def Let_def now_def split: option.splits prod.splits)
  next
    case lt: False
    then have "unat (ag_generated gen) + 1 < goal gen" using inc by (simp add: ucast_le goal_def)
    then have k: "tight n g'" if "ag_config g' = ag_config gen" "ag_generated g' = ag_generated gen + 1"
        "ag_port g' = q" "ag_pending_tok g' = None" "ag_batch_held g' = ag_batch_held gen" for g' :: "('s, 'c) active_gen"
      using t ch(2) inc that by (auto simp: tight_def left_def goal_def)
    show ?thesis
      using assms(2,3) False q ch(1) lt t(3)
      by (cases sr) (auto simp: feed_token_def Let_def now_def intro!: k split: option.splits prod.splits)
  qed
qed

lemma step_tight:
  assumes "tight (Suc n) gen" "en_port env = po" "step env gen w = (r, g, w')"
  shows "case r of Sr_Done f \<Rightarrow> True | _ \<Rightarrow> tight n g"
proof -
  obtain c q where c: "po_cancelled po (ag_port gen) = (c, q)" by (cases "po_cancelled po (ag_port gen)") auto
  have g0: "tight (Suc n) (gen\<lparr>ag_port := q\<rparr>)" and pt: "ag_pending_tok gen = None"
    using assms(1) room_poll [OF c] by (auto simp: tight_def left_def)
  obtain d e1 where d: "eo_decode (en_ops env) (ag_session gen) (ag_config gen) (wk_eng w) = (d, e1)"
    by fastforce
  show ?thesis
    using assms(2,3) c d pt feed_tight [OF g0 assms(2)]
    by (cases c; cases d) (auto simp: step_def decode_and_feed_def)
qed

lemma frame: "en_port env = po \<Longrightarrow> quantum_frame env (tight (Suc n)) (tight n) (\<lambda>_. True)"
proof (unfold_locales, goal_cases)
  case (2 g)
  then show ?case by (simp add: tight_def left_def)
next
  case (3 gen w r g w')
  show ?case by (rule step_tight [OF 3(2,1,3)])
next
  case (4 gen tok w r g w')
  show ?case by (rule feed_tight [OF 4(2,1,4)])
next
  case (5 g c q)
  then show ?case using room_poll [of "ag_port g" c q] by (auto simp: tight_def left_def)
qed (simp_all add: tight_def left_def)

definition all_tight :: "nat \<Rightarrow> ('e, 's, 'g, 'c) worker \<Rightarrow> bool" where
  "all_tight n w \<longleftrightarrow> (\<forall>g \<in> set (wk_active w). tight n g)"

lemma quantum_tight: "en_port env = po \<Longrightarrow> all_tight (Suc n) w \<Longrightarrow> all_tight n (quantum env w)"
  using quantum_frame.quantum_kept [OF frame [of env n], of w] by (simp add: all_tight_def)

lemma all_tight_mono: "all_tight n w \<Longrightarrow> n \<le> k \<Longrightarrow> all_tight k w"
  by (auto simp: all_tight_def intro: tight_mono)

lemma all_tight_0: "all_tight 0 w \<longleftrightarrow> wk_active w = []"
  by (cases "wk_active w") (auto simp: all_tight_def not_tight_0)

text \<open>A job whose channel takes all its tokens.\<close>

definition fits_job :: "nat \<Rightarrow> 'c job \<Rightarrow> bool" where
  "fits_job n j \<longleftrightarrow>
     max 1 (unat (gc_max_new_tokens (gj_config (job_inner j)))) \<le> min n (room (job_port j))"

lemma intake_tight: "fits_job n j \<Longrightarrow> all_tight (Suc n) w \<Longrightarrow> all_tight (Suc n) (intake env j w)"
  by (rule intake_cases [of env j w])
     (auto simp: all_tight_def admission_def wk_simps new_gen_def tight_def left_def goal_def fits_job_def)

lemma worker_run_tight:
  "en_port env = po \<Longrightarrow> \<forall>(rx, c) \<in> set ins. \<forall>j. rx = Rx_Job j \<longrightarrow> fits_job n j \<Longrightarrow>
   all_tight (Suc n) w \<Longrightarrow> worker_run env ins w = (True, w') \<Longrightarrow> all_tight (Suc n) w'"
proof (induction ins arbitrary: w)
  case (Cons i ins)
  obtain rx c where i: "i = (rx, c)" by (cases i)
  obtain b w1 where it: "worker_iter env rx c w = (b, w1)" by (cases "worker_iter env rx c w") auto
  have q: "all_tight (Suc n) (quantum env v)" if "all_tight (Suc n) v" for v
    using quantum_tight [OF Cons.prems(1) that] all_tight_mono by (metis le_SucI order_refl)
  have "all_tight (Suc n) w1" if b
    using it that Cons.prems(2,3) q [of w] q intake_tight [of n _ w env] i
    by (auto simp: worker_iter_def split: if_splits recv.splits)
  with Cons i it show ?case by (cases b) auto
qed simp

lemma drains:
  "en_port env = po \<Longrightarrow> all_tight n w \<Longrightarrow>
   \<exists>w'. worker_run env (replicate n (Rx_Empty, False)) w = (True, w') \<and> wk_active w' = []"
proof (induction n arbitrary: w)
  case 0
  then show ?case by (simp add: all_tight_0)
next
  case (Suc n)
  obtain b w1 where it: "worker_iter env Rx_Empty False w = (b, w1)" by (cases "worker_iter env Rx_Empty False w") auto
  then have "b" "w1 = w \<and> wk_active w = [] \<or> w1 = quantum env w"
    by (auto simp: worker_iter_def split: if_splits)
  moreover have "all_tight n w1"
    using calculation(2) quantum_tight [OF Suc.prems] by (auto simp: all_tight_def)
  ultimately show ?case using Suc.IH [OF Suc.prems(1)] it by auto
qed

end

subsection \<open>The bounded queue has room\<close>

definition fifo_room :: "fifo_port \<Rightarrow> nat" where
  "fifo_room p = fp_cap p - length (fp_queue p)"

lemma receiver_turn_room:
  "fp_cap (receiver_turn p) = fp_cap p" "length (fp_queue (receiver_turn p)) \<le> length (fp_queue p)"
proof -
  have act: "fp_cap (receiver_act a q) = fp_cap q \<and> length (fp_queue (receiver_act a q)) \<le> length (fp_queue q)" for a q
    by (cases a) auto
  have "fp_cap (receiver_turn p) = fp_cap p \<and> length (fp_queue (receiver_turn p)) \<le> length (fp_queue p)"
  proof (cases "fp_script p")
    case (Cons a as)
    with act [of a "p\<lparr>fp_script := as\<rparr>"] show ?thesis by (simp add: receiver_turn_def)
  qed (simp add: receiver_turn_def)
  then show "fp_cap (receiver_turn p) = fp_cap p" "length (fp_queue (receiver_turn p)) \<le> length (fp_queue p)"
    by simp_all
qed

interpretation fifo_roomy: roomy_channel fifo_ops fifo_room
proof (unfold_locales, goal_cases)
  case (1 ev p r q)
  then show ?case
    using receiver_turn_room [of p]
    by (auto simp: fifo_ops_def fifo_try_send_def fifo_put_def fifo_room_def Let_def split: if_splits)
next
  case (2 p c q)
  then show ?case
    using receiver_turn_room [of p] by (auto simp: fifo_ops_def fifo_cancelled_def fifo_room_def Let_def)
qed



end
