(* ===== verification/Engine_Record.thy ===== *)
theory Engine_Record
  imports Runtime
begin

section \<open>A record of every engine call, and who is to blame\<close>

text \<open>
  The contract of \<open>minicpm-runtime/src/native.rs\<close> between the scheduler and an engine with batch
  groups: a session is used alone only while it is in no group; it leaves its group before it is
  destroyed; a group step names each of some members once; there is one group at a time, and it is
  empty when it is dropped. \<open>traced\<close> wraps any engine so that every call is recorded with its result,
  and \<open>judge\<close> reads the record: it blames the scheduler for a call the contract forbids, or the engine
  if it hands out a session or a slot that is in use, or if a token is not \<open>right\<close> for the prompt and
  the tokens that the session has seen since its reset. (What happens after an engine fault is not
  judged.) Failed calls count like successful ones; after a failed prefill or decode the sequence of
  the session is unknown, a failed group step leaves its members as they were.
\<close>

datatype ('s, 'g) gcall =
    Gc_New 's
  | Gc_Reset 's bool
  | Gc_Prefill 's "i32 list" bool
  | Gc_Decode 's gen_config "i32 option"
  | Gc_Stats 's
  | Gc_Free 's
  | Gc_Open "'g option"
  | Gc_Join 'g 's "u32 option"
  | Gc_Leave 'g u32
  | Gc_Batch 'g "u32 list" "gen_config list" "i32 list option"
  | Gc_Close 'g

definition ok_part :: "'a + 'b \<Rightarrow> 'b option" where
  "ok_part r = (case r of Inl _ \<Rightarrow> None | Inr x \<Rightarrow> Some x)"

definition succeeded :: "'a + 'b \<Rightarrow> bool" where
  "succeeded r \<longleftrightarrow> ok_part r \<noteq> None"

text \<open>A group step with the wrong number of tokens counts as failed.\<close>

definition step_result_of :: "u32 list \<Rightarrow> 'a + i32 list \<Rightarrow> i32 list option" where
  "step_result_of xs r = (case r of Inl _ \<Rightarrow> None | Inr toks \<Rightarrow> if length toks = length xs then Some toks else None)"

definition traced_batch ::
  "('e, 's, 'g) batch_ops \<Rightarrow> ('e \<times> ('s, 'g) gcall list, 's, 'g) batch_ops" where
  "traced_batch bo =
     \<lparr>bo_create = (\<lambda>o1 w. let p = bo_create bo o1 (fst w) in
        (fst p, snd p, snd w @ [Gc_Open (ok_part (fst p))])),
      bo_add = (\<lambda>g s w. let p = bo_add bo g s (fst w) in
        (fst p, snd p, snd w @ [Gc_Join g s (ok_part (fst p))])),
      bo_remove = (\<lambda>g x w. let p = bo_remove bo g x (fst w) in (fst p, snd p, snd w @ [Gc_Leave g x])),
      bo_step = (\<lambda>g xs cs w. let p = bo_step bo g xs cs (fst w) in
        (fst p, snd p, snd w @ [Gc_Batch g xs cs (step_result_of xs (fst p))])),
      bo_drop = (\<lambda>g w. (bo_drop bo g (fst w), snd w @ [Gc_Close g]))\<rparr>"

definition traced ::
  "('e, 's, 'g) engine_ops \<Rightarrow> ('e \<times> ('s, 'g) gcall list, 's, 'g) engine_ops" where
  "traced ops =
     \<lparr>eo_create = (\<lambda>w. let p = eo_create ops (fst w) in
        (fst p, snd p, snd w @ (case fst p of Inl _ \<Rightarrow> [] | Inr s \<Rightarrow> [Gc_New s]))),
      eo_prefill = (\<lambda>s ids w. let p = eo_prefill ops s ids (fst w) in
        (fst p, snd p, snd w @ [Gc_Prefill s ids (succeeded (fst p))])),
      eo_decode = (\<lambda>s c w. let p = eo_decode ops s c (fst w) in
        (fst p, snd p, snd w @ [Gc_Decode s c (ok_part (fst p))])),
      eo_reset = (\<lambda>s w. let p = eo_reset ops s (fst w) in
        (fst p, snd p, snd w @ [Gc_Reset s (succeeded (fst p))])),
      eo_stats = (\<lambda>s w. let p = eo_stats ops s (fst w) in (fst p, snd p, snd w @ [Gc_Stats s])),
      eo_drop = (\<lambda>s w. (eo_drop ops s (fst w), snd w @ [Gc_Free s])),
      eo_batch = map_option traced_batch (eo_batch ops)\<rparr>"

subsection \<open>The contract\<close>

text \<open>\<open>gv_seq\<close>: the prompt of a session and the tokens decoded since its reset, where that is known.\<close>

record ('s, 'g) gview =
  gv_live :: "'s set"
  gv_group :: "'g option"
  gv_members :: "(u32 \<times> 's) set"
  gv_seq :: "'s \<Rightarrow> (i32 list \<times> i32 list) option"

definition gv_start :: "('s, 'g) gview" where
  "gv_start = \<lparr>gv_live = {}, gv_group = None, gv_members = {}, gv_seq = (\<lambda>_. None)\<rparr>"

definition alone :: "('s, 'g) gview \<Rightarrow> 's \<Rightarrow> bool" where
  "alone v s \<longleftrightarrow> s \<in> gv_live v \<and> s \<notin> snd ` gv_members v"

fun gc_legal :: "('s, 'g) gview \<Rightarrow> ('s, 'g) gcall \<Rightarrow> bool" where
  "gc_legal v (Gc_New s) \<longleftrightarrow> True"
| "gc_legal v (Gc_Reset s ok) \<longleftrightarrow> alone v s"
| "gc_legal v (Gc_Prefill s ids ok) \<longleftrightarrow> alone v s"
| "gc_legal v (Gc_Decode s c r) \<longleftrightarrow> alone v s"
| "gc_legal v (Gc_Stats s) \<longleftrightarrow> alone v s"
| "gc_legal v (Gc_Free s) \<longleftrightarrow> alone v s"
| "gc_legal v (Gc_Open g) \<longleftrightarrow> gv_group v = None"
| "gc_legal v (Gc_Join g s x) \<longleftrightarrow> gv_group v = Some g \<and> alone v s"
| "gc_legal v (Gc_Leave g x) \<longleftrightarrow> gv_group v = Some g \<and> x \<in> fst ` gv_members v"
| "gc_legal v (Gc_Batch g xs cs r) \<longleftrightarrow>
     gv_group v = Some g \<and> distinct xs \<and> set xs \<subseteq> fst ` gv_members v \<and> length cs = length xs"
| "gc_legal v (Gc_Close g) \<longleftrightarrow> gv_group v = Some g \<and> gv_members v = {}"

type_synonym token_rule = "i32 list \<Rightarrow> i32 list \<Rightarrow> gen_config \<Rightarrow> i32 \<Rightarrow> bool"

definition next_ok :: "token_rule \<Rightarrow> ('s, 'g) gview \<Rightarrow> 's \<Rightarrow> gen_config \<Rightarrow> i32 \<Rightarrow> bool" where
  "next_ok right v s c t \<longleftrightarrow> (case gv_seq v s of None \<Rightarrow> True | Some (ids, ts) \<Rightarrow> right ids ts c t)"

fun gc_honest :: "token_rule \<Rightarrow> ('s, 'g) gview \<Rightarrow> ('s, 'g) gcall \<Rightarrow> bool" where
  "gc_honest right v (Gc_New s) \<longleftrightarrow> s \<notin> gv_live v"
| "gc_honest right v (Gc_Join g s (Some x)) \<longleftrightarrow> x \<notin> fst ` gv_members v"
| "gc_honest right v (Gc_Decode s c (Some t)) \<longleftrightarrow> next_ok right v s c t"
| "gc_honest right v (Gc_Batch g xs cs (Some toks)) \<longleftrightarrow>
     (\<forall>(x, c, t) \<in> set (zip xs (zip cs toks)). \<forall>(y, s) \<in> gv_members v. x = y \<longrightarrow> next_ok right v s c t)"
| "gc_honest right v _ \<longleftrightarrow> True"

definition put_seq ::
  "'s \<Rightarrow> ((i32 list \<times> i32 list) option \<Rightarrow> (i32 list \<times> i32 list) option) \<Rightarrow> ('s, 'g) gview \<Rightarrow> ('s, 'g) gview" where
  "put_seq s f v = v\<lparr>gv_seq := (gv_seq v)(s := f (gv_seq v s))\<rparr>"

definition grow :: "i32 \<Rightarrow> (i32 list \<times> i32 list) option \<Rightarrow> (i32 list \<times> i32 list) option" where
  "grow t = map_option (\<lambda>(ids, ts). (ids, ts @ [t]))"

fun gc_effect :: "('s, 'g) gcall \<Rightarrow> ('s, 'g) gview \<Rightarrow> ('s, 'g) gview" where
  "gc_effect (Gc_New s) v = put_seq s (\<lambda>_. None) (v\<lparr>gv_live := insert s (gv_live v)\<rparr>)"
| "gc_effect (Gc_Reset s ok) v = put_seq s (\<lambda>_. if ok then Some ([], []) else None) v"
| "gc_effect (Gc_Prefill s ids ok) v =
     put_seq s (\<lambda>q. case q of Some (p, []) \<Rightarrow> if ok then Some (p @ ids, []) else None | _ \<Rightarrow> None) v"
| "gc_effect (Gc_Decode s c r) v = put_seq s (case r of None \<Rightarrow> \<lambda>_. None | Some t \<Rightarrow> grow t) v"
| "gc_effect (Gc_Free s) v = v\<lparr>gv_live := gv_live v - {s}\<rparr>"
| "gc_effect (Gc_Open (Some g)) v = v\<lparr>gv_group := Some g\<rparr>"
| "gc_effect (Gc_Join g s (Some x)) v = v\<lparr>gv_members := insert (x, s) (gv_members v)\<rparr>"
| "gc_effect (Gc_Leave g x) v = v\<lparr>gv_members := {p \<in> gv_members v. fst p \<noteq> x}\<rparr>"
| "gc_effect (Gc_Batch g xs cs (Some toks)) v =
     v\<lparr>gv_seq := (\<lambda>s. case find (\<lambda>p. (fst p, s) \<in> gv_members v) (zip xs toks) of
         None \<Rightarrow> gv_seq v s | Some p \<Rightarrow> grow (snd p) (gv_seq v s))\<rparr>"
| "gc_effect (Gc_Close g) v = v\<lparr>gv_group := None\<rparr>"
| "gc_effect _ v = v"

datatype ('s, 'g) verdict = Fine "('s, 'g) gview" | Engine_Fault | Scheduler_Fault

fun judge :: "token_rule \<Rightarrow> ('s, 'g) gview \<Rightarrow> ('s, 'g) gcall list \<Rightarrow> ('s, 'g) verdict" where
  "judge right v [] = Fine v"
| "judge right v (c # cs) =
     (if \<not> gc_legal v c then Scheduler_Fault
      else if \<not> gc_honest right v c then Engine_Fault
      else judge right (gc_effect c v) cs)"

lemma judge_snoc:
  "judge right v (cs @ [c]) =
     (case judge right v cs of
        Fine u \<Rightarrow> (if \<not> gc_legal u c then Scheduler_Fault
                   else if \<not> gc_honest right u c then Engine_Fault else Fine (gc_effect c u))
      | x \<Rightarrow> x)"
  by (induction cs arbitrary: v) auto

text \<open>The calls on a session alone change at most its own sequence.\<close>

fun call_on :: "('s, 'g) gcall \<Rightarrow> 's option" where
  "call_on (Gc_Reset s ok) = Some s"
| "call_on (Gc_Prefill s ids ok) = Some s"
| "call_on (Gc_Decode s c r) = Some s"
| "call_on (Gc_Stats s) = Some s"
| "call_on _ = None"

lemma call_on_local:
  "call_on c = Some s \<Longrightarrow>
   gc_legal v c = alone v s \<and> gv_live (gc_effect c v) = gv_live v \<and> gv_group (gc_effect c v) = gv_group v \<and>
   gv_members (gc_effect c v) = gv_members v \<and> (\<forall>t. t \<noteq> s \<longrightarrow> gv_seq (gc_effect c v) t = gv_seq v t)"
  by (cases c) (auto simp: put_seq_def)

end
