(* ===== verification/Worker_Protocol.thy ===== *)
theory Worker_Protocol
  imports Worker_Pool Engine_Record
begin

section \<open>The worker keeps its side of the engine's contract\<close>

text \<open>
  The locale \<open>stream_contract\<close> says what must hold of a single stream and of the sequence that its
  session holds in the engine. Its lemmas carry that, and the protocol of \<open>Engine_Record\<close>, through
  every operation of the worker; \<open>run_settled\<close> is the result for whole runs. With nothing asked of
  a stream it is the batch protocol; \<open>Worker_Reference\<close> uses it with the reference generation.
\<close>

subsection \<open>What the record says about the worker\<close>

text \<open>The streams of the worker with the stage they are in: being admitted with a part of the prompt,
  between two steps, with a decoded token in hand, or ended and about to be retired.\<close>

datatype stage = Loading "i32 list" | Running | Decoded i32 | Ended finish retire_mode | Dropped

type_synonym ('s, 'c) staged = "('s, 'c) active_gen \<times> stage"

abbreviation run :: "('s, 'c) active_gen \<Rightarrow> ('s, 'c) staged" where
  "run g \<equiv> (g, Running)"

definition members :: "('s, 'c) staged multiset \<Rightarrow> (u32 \<times> 's) set" where
  "members M = {(x, ag_session g) | x g k. (g, k) \<in># M \<and> ag_slot_id g = Some x}"

definition slots :: "('s, 'c) staged multiset \<Rightarrow> u32 multiset" where
  "slots M = \<Sum>\<^sub># {# case ag_slot_id (fst p) of None \<Rightarrow> {#} | Some x \<Rightarrow> {#x#}. p \<in># M #}"

text \<open>No element occurs twice.\<close>

definition single :: "'a multiset \<Rightarrow> bool" where
  "single N \<longleftrightarrow> (\<forall>x. count N x \<le> 1)"

lemma single_simps [simp]: "single {#}" "single (add_mset x N) \<longleftrightarrow> x \<notin># N \<and> single N"
proof -
  have "Suc n \<le> 1 \<longleftrightarrow> n = 0" for n by auto
  then show "single (add_mset x N) \<longleftrightarrow> x \<notin># N \<and> single N"
    by (simp add: single_def not_in_iff all_conj_distrib if_split_mem2) (metis le_zero_eq nat_le_linear)
qed (simp add: single_def)

definition held :: "'s multiset \<Rightarrow> ('s, 'c) staged multiset \<Rightarrow> 's multiset" where
  "held I M = I + image_mset (\<lambda>p. ag_session (fst p)) M"

lemma members_simps [simp]:
  "members {#} = {}"
  "members (add_mset p M) =
     (case ag_slot_id (fst p) of None \<Rightarrow> {} | Some x \<Rightarrow> {(x, ag_session (fst p))}) \<union> members M"
  by (auto simp: members_def split: option.splits) (metis prod.collapse)+

lemma slots_simps [simp]:
  "slots {#} = {#}"
  "slots (add_mset p M) = (case ag_slot_id (fst p) of None \<Rightarrow> slots M | Some x \<Rightarrow> add_mset x (slots M))"
  by (simp_all add: slots_def split: option.splits)

lemma held_simps [simp]:
  "held (add_mset s I) M = add_mset s (held I M)"
  "held I (add_mset p M) = add_mset (ag_session (fst p)) (held I M)"
  by (simp_all add: held_def)

lemma members_session: "p \<in> members M \<Longrightarrow> snd p \<in># held I M"
  by (force simp: members_def held_def)

lemma session_held: "p \<in># M \<Longrightarrow> ag_session (fst p) \<in># held I M"
  by (auto simp: held_def)

lemma set_slots: "set_mset (slots M) = fst ` members M"
  by (induction M) (auto split: option.splits)

lemma in_slots: "x \<in># slots M \<longleftrightarrow> x \<in> fst ` members M"
  by (simp add: set_slots)

text \<open>A slot has one session, and a session one slot.\<close>

lemma members_fun: "single (slots M) \<Longrightarrow> (x, s) \<in> members M \<Longrightarrow> (x, s') \<in> members M \<Longrightarrow> s = s'"
  by (induction M) (auto simp: in_slots image_iff split: option.splits)

lemma members_inj: "single (held I M) \<Longrightarrow> (x, s) \<in> members M \<Longrightarrow> (x', s) \<in> members M \<Longrightarrow> x = x'"
proof (induction M)
  case (add p M)
  have "s \<in># held I M" if "(y, s) \<in> members M" for y using members_session [OF that, of I] by simp
  with add show ?case by (auto split: option.splits)
qed simp

text \<open>What retirement does to the engine and the pool.\<close>

lemma retire_view:
  "wk_eng (retire env g f mode w) = wk_eng (return_session env (ag_session g) (reset_ignored env (ag_session g)
     (snd (demote_from_group env g w))))"
  "wk_idle (retire env g f mode w) = wk_idle (return_session env (ag_session g) (reset_ignored env (ag_session g)
     (snd (demote_from_group env g w))))"
  by (simp_all add: retire_def demote_from_group_def Let_def return_session_def reset_ignored_def group_remove_def
      wk_simps case_prod_beta split: option.splits)

subsection \<open>A stream and its session\<close>

text \<open>\<open>fits ids ts g\<close>: what must hold of a stream \<open>g\<close> whose session has prompt \<open>ids\<close> and tokens \<open>ts\<close>.
  \<open>fin\<close> and \<open>cut\<close> say what the channel of a job may be after it ended, while serving and at shutdown.\<close>

definition outcome :: "step_result \<Rightarrow> stage" where
  "outcome r = (case r of Sr_Done f \<Rightarrow> Ended f Serving | _ \<Rightarrow> Running)"

locale stream_contract =
  fixes env :: "('e \<times> ('s, 'g) gcall list, 's, 'g, 'c) env"
    and ops :: "('e, 's, 'g) engine_ops"
    and right :: token_rule
    and fits :: "i32 list \<Rightarrow> i32 list \<Rightarrow> ('s, 'c) active_gen \<Rightarrow> bool"
    and fin cut :: "'c \<Rightarrow> bool"
    and jok :: "'c job \<Rightarrow> bool"
  assumes ops: "en_ops env = traced ops"
    and fits_slot: "fits ids ts (g\<lparr>ag_slot_id := x\<rparr>) = fits ids ts g"
    and fits_held: "fits ids ts g \<Longrightarrow> fits ids ts (g\<lparr>ag_batch_held := True\<rparr>)"
    and fits_polled: "fits ids ts g \<Longrightarrow> po_cancelled (en_port env) (ag_port g) = (c, q) \<Longrightarrow>
      fits ids ts (g\<lparr>ag_port := q\<rparr>) \<and> (c \<longrightarrow> fin (retire_port env (g\<lparr>ag_port := q\<rparr>) Fi_Cancelled Serving))"
    and fits_resent: "fits ids ts g \<Longrightarrow> ag_pending_tok g = Some t \<Longrightarrow>
      po_try_send (en_port env) (Ge_Token t) (ag_port g) = (sr, q) \<Longrightarrow>
      case sr of
        Sent \<Rightarrow> if ucast (gc_max_new_tokens (ag_config g)) \<le> ag_generated g
                then fin (retire_port env (g\<lparr>ag_pending_tok := None, ag_port := q\<rparr>) Fi_Length Serving)
                else fits ids ts (g\<lparr>ag_pending_tok := None, ag_port := q\<rparr>)
      | Full \<Rightarrow> fits ids ts (g\<lparr>ag_port := q\<rparr>)
      | Closed \<Rightarrow> fin (retire_port env (g\<lparr>ag_pending_tok := None, ag_port := q\<rparr>) Fi_Cancelled Serving)"
    and fits_fed: "fits ids ts gen \<Longrightarrow> ag_pending_tok gen = None \<Longrightarrow> right ids ts (ag_config gen) tok \<Longrightarrow>
      feed_token env gen tok w = (r, g, w') \<Longrightarrow>
      case r of Sr_Done f \<Rightarrow> fin (retire_port env g f Serving) | _ \<Rightarrow> fits ids (ts @ [tok]) g"
    and fits_failed: "fits ids ts g \<Longrightarrow> ag_pending_tok g = None \<Longrightarrow> fin (retire_port env g (Fi_Failed e) Serving)"
    and fits_new: "jok j \<Longrightarrow> fits (gj_prompt_ids (job_inner j)) [] (new_gen s j)"
    and refused: "jok j \<Longrightarrow> fin (snd (po_blocking_send (en_port env) (Ge_Failed e) (job_port j)))"
    and fin_cut: "fin p \<Longrightarrow> cut p"
    and stopped: "fits ids ts g \<Longrightarrow> cut (retire_port env g (Fi_Failed e) Shutdown)"
begin

text \<open>\<open>P\<close> is \<open>fin\<close> or \<open>cut\<close>.\<close>

definition suits :: "('c \<Rightarrow> bool) \<Rightarrow> ('s, 'g) gview \<Rightarrow> ('s, 'c) staged \<Rightarrow> bool" where
  "suits P v p \<longleftrightarrow>
     (case snd p of
        Loading ids \<Rightarrow> gv_seq v (ag_session (fst p)) = Some (ids, [])
      | Running \<Rightarrow> \<exists>ids ts. gv_seq v (ag_session (fst p)) = Some (ids, ts) \<and> fits ids ts (fst p)
      | Decoded t \<Rightarrow> (\<exists>ids ts. gv_seq v (ag_session (fst p)) = Some (ids, ts @ [t]) \<and> fits ids ts (fst p) \<and>
          right ids ts (ag_config (fst p)) t) \<and> ag_pending_tok (fst p) = None
      | Ended f mode \<Rightarrow> P (retire_port env (fst p) f mode)
      | Dropped \<Rightarrow> True)"

lemma suits_simps [simp]:
  "suits P v (g, Loading ids) \<longleftrightarrow> gv_seq v (ag_session g) = Some (ids, [])"
  "suits P v (g, Running) \<longleftrightarrow> (\<exists>ids ts. gv_seq v (ag_session g) = Some (ids, ts) \<and> fits ids ts g)"
  "suits P v (g, Decoded t) \<longleftrightarrow> (\<exists>ids ts. gv_seq v (ag_session g) = Some (ids, ts @ [t]) \<and> fits ids ts g \<and>
     right ids ts (ag_config g) t) \<and> ag_pending_tok g = None"
  "suits P v (g, Ended f mode) \<longleftrightarrow> P (retire_port env g f mode)"
  "suits P v (g, Dropped)"
  by (simp_all add: suits_def)

lemma retire_port_slot [simp]: "retire_port env (g\<lparr>ag_slot_id := x\<rparr>) f mode = retire_port env g f mode"
  by (simp add: retire_port_def split: option.split)

lemma suits_slot [simp]: "suits P v (g\<lparr>ag_slot_id := x\<rparr>, k) = suits P v (g, k)"
  by (cases k) (simp_all add: fits_slot)

lemma suits_seq: "gv_seq v' (ag_session (fst p)) = gv_seq v (ag_session (fst p)) \<Longrightarrow> suits P v' p = suits P v p"
  by (cases "snd p") (simp_all add: suits_def)

lemma suits_fields [simp]:
  "suits P (v\<lparr>gv_live := L\<rparr>) p = suits P v p" "suits P (v\<lparr>gv_group := x\<rparr>) p = suits P v p"
  "suits P (v\<lparr>gv_members := N\<rparr>) p = suits P v p"
  by (rule suits_seq, simp)+

text \<open>\<open>I\<close> are the sessions without a stream, \<open>M\<close> the streams, \<open>grp\<close> the group, \<open>D\<close> the ended jobs.\<close>

definition agrees ::
  "('c \<Rightarrow> bool) \<Rightarrow> ('s, 'g) gview \<Rightarrow> 's multiset \<Rightarrow> ('s, 'c) staged multiset \<Rightarrow> 'g option \<Rightarrow> 'c set \<Rightarrow> bool" where
  "agrees P v I M grp D \<longleftrightarrow>
     gv_live v = set_mset (held I M) \<and> single (held I M) \<and>
     gv_group v = grp \<and> gv_members v = members M \<and> single (slots M) \<and>
     (grp = None \<longrightarrow> members M = {}) \<and> (\<forall>p \<in># M. suits P v p) \<and> (\<forall>p \<in> D. P p)"

definition good ::
  "('c \<Rightarrow> bool) \<Rightarrow> ('s, 'g) gcall list \<Rightarrow> 's multiset \<Rightarrow> ('s, 'c) staged multiset \<Rightarrow> 'g option \<Rightarrow> 'c set \<Rightarrow> bool" where
  "good P tr I M grp D \<longleftrightarrow>
     (case judge right gv_start tr of
        Fine v \<Rightarrow> agrees P v I M grp D | Engine_Fault \<Rightarrow> True | Scheduler_Fault \<Rightarrow> False)"

lemma good_snoc:
  assumes "good P tr I M grp D"
    and "\<And>v. agrees P v I M grp D \<Longrightarrow>
      gc_legal v c \<and> (gc_honest right v c \<longrightarrow> agrees P (gc_effect c v) I' M' grp' D')"
  shows "good P (tr @ [c]) I' M' grp' D'"
  using assms by (auto simp: good_def judge_snoc split: verdict.splits)

lemma good_mono:
  "good P tr I M grp D \<Longrightarrow> (\<And>v. agrees P v I M grp D \<Longrightarrow> agrees P' v I' M' grp' D') \<Longrightarrow> good P' tr I' M' grp' D'"
  by (auto simp: good_def split: verdict.splits)

text \<open>A session counted once more than in \<open>held I M\<close> is in no group.\<close>

lemma agrees_alone: "agrees P v (add_mset s I) M grp D \<Longrightarrow> alone v s"
  using members_session [of _ M I] by (fastforce simp: agrees_def alone_def)

lemma agrees_alone_gen:
  "agrees P v I (add_mset p M) grp D \<Longrightarrow> ag_slot_id (fst p) = None \<Longrightarrow> alone v (ag_session (fst p))"
  using members_session [of _ M I] by (fastforce simp: agrees_def alone_def)

lemma agrees_fresh_slot:
  "agrees P v I (add_mset p M) grp D \<Longrightarrow> ag_slot_id (fst p) = Some x \<Longrightarrow> x \<notin> fst ` members M"
  by (simp add: agrees_def flip: in_slots)

lemma good_alter:
  assumes "good P tr I (add_mset (g, k) M) grp D"
    and "ag_session g' = ag_session g" "ag_slot_id g' = ag_slot_id g" "\<And>v. suits P v (g, k) \<Longrightarrow> suits P v (g', k')"
  shows "good P tr I (add_mset (g', k') M) grp D"
  using assms(1) by (rule good_mono) (use assms(2-4) in \<open>simp add: agrees_def cong: option.case_cong\<close>)

text \<open>A call on a stream's session, and one on a session without a stream.\<close>

lemma good_touch:
  assumes g: "good P tr I (add_mset (g, k) M) grp D" and n: "ag_slot_id g = None" and c: "call_on c = Some (ag_session g)"
    and s: "\<And>v. suits P v (g, k) \<Longrightarrow> gc_honest right v c \<Longrightarrow> suits P (gc_effect c v) (g, k')"
  shows "good P (tr @ [c]) I (add_mset (g, k') M) grp D"
  using g
proof (rule good_snoc)
  fix v assume a: "agrees P v I (add_mset (g, k) M) grp D"
  note l = call_on_local [OF c, of v]
  have "suits P (gc_effect c v) p" if p: "p \<in># M" for p
  proof -
    have "ag_session (fst p) \<noteq> ag_session g" using a session_held [OF p, of I] by (auto simp: agrees_def)
    then have "gv_seq (gc_effect c v) (ag_session (fst p)) = gv_seq v (ag_session (fst p))" using l by blast
    from suits_seq [OF this] a p show ?thesis by (simp add: agrees_def)
  qed
  with a l n s [of v] agrees_alone_gen [OF a] show "gc_legal v c \<and>
      (gc_honest right v c \<longrightarrow> agrees P (gc_effect c v) I (add_mset (g, k') M) grp D)"
    by (simp add: agrees_def)
qed

lemma good_touch_idle:
  assumes g: "good P tr (add_mset s I) M grp D" and c: "call_on c = Some s"
  shows "good P (tr @ [c]) (add_mset s I) M grp D"
  using g
proof (rule good_snoc)
  fix v assume a: "agrees P v (add_mset s I) M grp D"
  note l = call_on_local [OF c, of v]
  have "suits P (gc_effect c v) p" if p: "p \<in># M" for p
  proof -
    have "ag_session (fst p) \<noteq> s" using a session_held [OF p, of I] by (auto simp: agrees_def)
    then have "gv_seq (gc_effect c v) (ag_session (fst p)) = gv_seq v (ag_session (fst p))" using l by blast
    from suits_seq [OF this] a p show ?thesis by (simp add: agrees_def)
  qed
  with a l agrees_alone [OF a] show "gc_legal v c \<and>
      (gc_honest right v c \<longrightarrow> agrees P (gc_effect c v) (add_mset s I) M grp D)"
    by (simp add: agrees_def)
qed

lemma good_decode:
  assumes g: "good P tr I (add_mset (g, Running) M) grp D" and "ag_slot_id g = None" "ag_pending_tok g = None"
    and f: "r = None \<Longrightarrow> k = Ended (Fi_Failed e) Serving" "P = fin" "\<And>t. r = Some t \<Longrightarrow> k = Decoded t"
  shows "good P (tr @ [Gc_Decode (ag_session g) (ag_config g) r]) I (add_mset (g, k) M) grp D"
proof (rule good_touch [OF g assms(2)])
  fix v assume "suits P v (g, Running)" "gc_honest right v (Gc_Decode (ag_session g) (ag_config g) r)"
  then show "suits P (gc_effect (Gc_Decode (ag_session g) (ag_config g) r) v) (g, k)"
    using f assms(3) by (cases r) (auto simp: next_ok_def put_seq_def grow_def intro: fits_failed)
qed simp

lemma good_free: "good P tr (add_mset s I) M grp D \<Longrightarrow> good P (tr @ [Gc_Free s]) I M grp D"
proof (erule good_snoc, rule conjI, simp add: agrees_alone)
  fix v assume a: "agrees P v (add_mset s I) M grp D"
  then show "gc_honest right v (Gc_Free s) \<longrightarrow> agrees P (gc_effect (Gc_Free s) v) I M grp D"
    by (auto simp: agrees_def)
qed

lemma good_created: "good P tr I M grp D \<Longrightarrow> good P (tr @ [Gc_New s]) (add_mset s I) M grp D"
proof (erule good_snoc, rule conjI, simp, rule impI)
  fix v assume a: "agrees P v I M grp D" and h: "gc_honest right v (Gc_New s)"
  have "suits P (gc_effect (Gc_New s) v) p" if p: "p \<in># M" for p
  proof -
    have "ag_session (fst p) \<noteq> s" using a h session_held [OF p, of I] by (auto simp: agrees_def)
    then have "gv_seq (gc_effect (Gc_New s) v) (ag_session (fst p)) = gv_seq v (ag_session (fst p))"
      by (simp add: put_seq_def)
    from suits_seq [OF this] a p show ?thesis by (simp add: agrees_def)
  qed
  with a h show "agrees P (gc_effect (Gc_New s) v) (add_mset s I) M grp D"
    by (simp add: agrees_def put_seq_def)
qed

lemma good_begin:
  assumes "good P tr (add_mset (ag_session g) I) M grp D" "ag_slot_id g = None"
  shows "good P (tr @ [Gc_Reset (ag_session g) True]) I (add_mset (g, Loading []) M) grp D"
proof -
  have "good P tr I (add_mset (g, Dropped) M) grp D"
    using assms(1) by (rule good_mono) (use assms(2) in \<open>simp add: agrees_def\<close>)
  from good_touch [OF this assms(2), of "Gc_Reset (ag_session g) True" "Loading []"] show ?thesis
    by (simp add: put_seq_def)
qed

lemma good_finish:
  "good P tr I (add_mset (g, k) M) grp D \<Longrightarrow> ag_slot_id g = None \<Longrightarrow> good P tr (add_mset (ag_session g) I) M grp D"
  by (erule good_mono) (simp add: agrees_def)

lemma good_retired:
  "good P tr I (add_mset (g, Ended f mode) M) grp D \<Longrightarrow> ag_slot_id g = None \<Longrightarrow>
   good P tr (add_mset (ag_session g) I) M grp (insert (retire_port env g f mode) D)"
  by (erule good_mono) (simp add: agrees_def)

lemma good_open: "good P tr I M None D \<Longrightarrow> good P (tr @ [Gc_Open x]) I M x D"
  by (erule good_snoc) (cases x; auto simp: agrees_def)

lemma good_join:
  assumes "good P tr I (add_mset (g, k) M) (Some gr) D" "ag_slot_id g = None"
  shows "good P (tr @ [Gc_Join gr (ag_session g) x]) I (add_mset (g\<lparr>ag_slot_id := x\<rparr>, k) M) (Some gr) D"
  using assms(1)
proof (rule good_snoc)
  fix v assume a: "agrees P v I (add_mset (g, k) M) (Some gr) D"
  show "gc_legal v (Gc_Join gr (ag_session g) x) \<and>
      (gc_honest right v (Gc_Join gr (ag_session g) x) \<longrightarrow>
        agrees P (gc_effect (Gc_Join gr (ag_session g) x) v) I (add_mset (g\<lparr>ag_slot_id := x\<rparr>, k) M) (Some gr) D)"
    using a agrees_alone_gen [OF a] assms(2) by (cases x) (auto simp: agrees_def in_slots)
qed

lemma good_leave:
  assumes "good P tr I (add_mset (g, k) M) (Some gr) D" "ag_slot_id g = Some x"
  shows "good P (tr @ [Gc_Leave gr x]) I (add_mset (g\<lparr>ag_slot_id := None\<rparr>, k) M) (Some gr) D"
  using assms(1)
proof (rule good_snoc)
  fix v assume a: "agrees P v I (add_mset (g, k) M) (Some gr) D"
  have "{p \<in> members M. fst p \<noteq> x} = members M"
    using agrees_fresh_slot [OF a] assms(2) by (auto simp: image_iff)
  then show "gc_legal v (Gc_Leave gr x) \<and>
      (gc_honest right v (Gc_Leave gr x) \<longrightarrow>
        agrees P (gc_effect (Gc_Leave gr x) v) I (add_mset (g\<lparr>ag_slot_id := None\<rparr>, k) M) (Some gr) D)"
    using a assms(2) by (auto simp: agrees_def)
qed

lemma good_close:
  "good P tr I M (Some gr) D \<Longrightarrow> \<forall>p \<in># M. ag_slot_id (fst p) = None \<Longrightarrow> good P (tr @ [Gc_Close gr]) I M None D"
  by (erule good_snoc) (auto simp: agrees_def members_def)

text \<open>Without a group no stream has a slot.\<close>

lemma good_no_group:
  "good P tr I (add_mset (g, k) M) None D \<Longrightarrow> good P tr I (add_mset (g\<lparr>ag_slot_id := None\<rparr>, k) M) None D"
  by (erule good_mono) (auto simp: agrees_def split: option.splits)

text \<open>A group step gives each member its token.\<close>

lemma single_disjoint: "single (A + B) \<Longrightarrow> x \<in># A \<Longrightarrow> x \<notin># B"
  by (induction A) auto

lemma held_add: "held I (A + B) = image_mset (\<lambda>p. ag_session (fst p)) A + held I B"
  by (simp add: held_def)

lemma batch_slots:
  "single (slots (image_mset run (mset hs) + M)) \<Longrightarrow> \<forall>g \<in> set hs. ag_slot_id g \<noteq> None \<Longrightarrow>
   distinct (map (\<lambda>g. the (ag_slot_id g)) hs) \<and>
   (\<lambda>g. the (ag_slot_id g)) ` set hs \<subseteq> set_mset (slots (image_mset run (mset hs) + M))"
  by (induction hs) (auto split: option.splits)

lemma held_decoded:
  "length toks = length gs \<Longrightarrow>
   held I (image_mset (\<lambda>(g, t). (g, Decoded t)) (mset (zip gs toks)) + M) = held I (image_mset run (mset gs) + M) \<and>
   slots (image_mset (\<lambda>(g, t). (g, Decoded t)) (mset (zip gs toks)) + M) = slots (image_mset run (mset gs) + M) \<and>
   members (image_mset (\<lambda>(g, t). (g, Decoded t)) (mset (zip gs toks)) + M) = members (image_mset run (mset gs) + M)"
  by (induction toks gs rule: list_induct2) (simp_all cong: option.case_cong)

lemma good_batch_ok:
  assumes g: "good P tr I (image_mset run (mset gs) + M) (Some gr) D"
    and gs: "\<forall>g \<in> set gs. ag_slot_id g \<noteq> None \<and> ag_pending_tok g = None" and len: "length toks = length gs"
  shows "good P (tr @ [Gc_Batch gr (map (\<lambda>g. the (ag_slot_id g)) gs) (map ag_config gs) (Some toks)]) I
      (image_mset (\<lambda>(g, t). (g, Decoded t)) (mset (zip gs toks)) + M) (Some gr) D"
  using g
proof (rule good_snoc)
  let ?xs = "map (\<lambda>g. the (ag_slot_id g)) gs" and ?N = "image_mset run (mset gs) + M"
  let ?c = "Gc_Batch gr ?xs (map ag_config gs) (Some toks)"
  fix v assume a: "agrees P v I ?N (Some gr) D"
  have sl: "single (slots ?N)" and hl: "single (held I ?N)" and mv: "gv_members v = members ?N"
    using a by (simp_all add: agrees_def)
  note d = batch_slots [OF sl]
  have mem: "(?xs ! i, ag_session (gs ! i)) \<in> members ?N" if i: "i < length gs" for i
  proof -
    obtain x where x: "ag_slot_id (gs ! i) = Some x" using gs nth_mem [OF i] by fastforce
    have "run (gs ! i) \<in># ?N" using i by simp
    with x have "(x, ag_session (gs ! i)) \<in> members ?N" unfolding members_def by blast
    with x i show ?thesis by simp
  qed
  have own: "find (\<lambda>p. (fst p, ag_session (gs ! i)) \<in> gv_members v) (zip ?xs toks) = Some (?xs ! i, toks ! i)"
    if i: "i < length gs" for i
  proof -
    have "(?xs ! j, ag_session (gs ! i)) \<notin> members ?N" if j: "j < i" for j
    proof
      assume "(?xs ! j, ag_session (gs ! i)) \<in> members ?N"
      from members_inj [OF hl this mem [OF i]] have "?xs ! j = ?xs ! i" .
      with nth_eq_iff_index_eq [of ?xs j i] batch_slots [OF sl] gs i j show False by simp
    qed
    then show ?thesis using i len mem [OF i] by (auto simp: find_Some_iff mv intro!: exI [of _ i])
  qed
  have other: "find (\<lambda>p. (fst p, ag_session (fst q)) \<in> gv_members v) (zip ?xs toks) = None" if q: "q \<in># M" for q
  proof -
    have False if "(?xs ! j, ag_session (fst q)) \<in> members ?N" "j < length gs" for j
    proof -
      have "ag_session (fst q) = ag_session (gs ! j)" using members_fun [OF sl that(1) mem [OF that(2)]] .
      moreover have "ag_session (gs ! j) \<in># image_mset (\<lambda>p. ag_session (fst p)) (image_mset run (mset gs))"
        using that(2) by (simp add: image_image)
      ultimately show False
        using single_disjoint [of "image_mset (\<lambda>p. ag_session (fst p)) (image_mset run (mset gs))" "held I M"]
          hl [unfolded held_add] session_held [OF q, of I] by simp
    qed
    then show ?thesis using len by (auto simp: find_None_iff mv in_set_zip)
  qed
  have "suits P (gc_effect ?c v) q" if q: "q \<in># M" for q
  proof -
    have "gv_seq (gc_effect ?c v) (ag_session (fst q)) = gv_seq v (ag_session (fst q))" using other [OF q] by simp
    from suits_seq [OF this] a q show ?thesis by (simp add: agrees_def)
  qed
  moreover have "suits P (gc_effect ?c v) (gs ! i, Decoded (toks ! i))" if h: "gc_honest right v ?c" and i: "i < length gs" for i
  proof -
    have "run (gs ! i) \<in># ?N" using i by simp
    with a have s: "suits P v (run (gs ! i))" unfolding agrees_def by blast
    have "(?xs ! i, map ag_config gs ! i, toks ! i) \<in> set (zip ?xs (zip (map ag_config gs) toks))"
      using i len by (auto simp: set_zip intro!: exI [of _ i])
    with h mem [OF i] mv have "next_ok right v (ag_session (gs ! i)) (ag_config (gs ! i)) (toks ! i)"
      using i by fastforce
    with s own [OF i] gs i show ?thesis by (auto simp: next_ok_def grow_def)
  qed
  ultimately show "gc_legal v ?c \<and> (gc_honest right v ?c \<longrightarrow>
      agrees P (gc_effect ?c v) I (image_mset (\<lambda>(g, t). (g, Decoded t)) (mset (zip gs toks)) + M) (Some gr) D)"
    using a d gs held_decoded [OF len, of I M]
    by (auto simp: agrees_def set_slots [symmetric] in_set_zip len simp del: gc_honest.simps)
qed

lemma good_batch_failed:
  assumes g: "good P tr I (image_mset run (mset gs) + M) (Some gr) D" and gs: "\<forall>g \<in> set gs. ag_slot_id g \<noteq> None"
  shows "good P (tr @ [Gc_Batch gr (map (\<lambda>g. the (ag_slot_id g)) gs) (map ag_config gs) None]) I
      (image_mset run (mset gs) + M) (Some gr) D"
  using g
proof (rule good_snoc)
  fix v assume a: "agrees P v I (image_mset run (mset gs) + M) (Some gr) D"
  then show "gc_legal v (Gc_Batch gr (map (\<lambda>g. the (ag_slot_id g)) gs) (map ag_config gs) None) \<and>
      (gc_honest right v (Gc_Batch gr (map (\<lambda>g. the (ag_slot_id g)) gs) (map ag_config gs) None) \<longrightarrow>
        agrees P (gc_effect (Gc_Batch gr (map (\<lambda>g. the (ag_slot_id g)) gs) (map ag_config gs) None) v) I
          (image_mset run (mset gs) + M) (Some gr) D)"
    using batch_slots [of gs M] gs by (simp add: agrees_def set_slots)
qed

subsection \<open>Every operation of the worker keeps the contract\<close>

text \<open>The traced worker, with \<open>X\<close> sessions and \<open>G\<close> streams in local variables.\<close>

definition wgood ::
  "('c \<Rightarrow> bool) \<Rightarrow> ('e \<times> ('s, 'g) gcall list, 's, 'g, 'c) worker \<Rightarrow> 's multiset \<Rightarrow> ('s, 'c) staged multiset \<Rightarrow> bool" where
  "wgood P w X G \<longleftrightarrow>
     good P (snd (wk_eng w)) (mset (wk_idle w) + X) (image_mset run (mset (wk_active w)) + G) (wk_group w)
       (set (wk_done w)) \<and>
     (eo_batch ops = None \<longrightarrow> wk_group w = None)"

lemma wgood_cong:
  "wk_eng w' = wk_eng w \<Longrightarrow> wk_idle w' = wk_idle w \<Longrightarrow> wk_active w' = wk_active w \<Longrightarrow> wk_group w' = wk_group w \<Longrightarrow>
   wk_done w' = wk_done w \<Longrightarrow> wgood P w' X G = wgood P w X G"
  by (simp add: wgood_def)

lemma wgood_met [simp]: "wgood P (with_met f w) X G = wgood P w X G"
  by (rule wgood_cong) (simp_all add: wk_simps)

lemma wgood_alter:
  assumes "wgood P w X (add_mset (g, k) G)" "ag_session g' = ag_session g" "ag_slot_id g' = ag_slot_id g"
    and "\<And>v. suits P v (g, k) \<Longrightarrow> suits P v (g', k')"
  shows "wgood P w X (add_mset (g', k') G)"
  using assms good_alter [of P _ _ g k _ _ _ g' k'] by (simp add: wgood_def)

lemma wgood_push: "wgood P w X (add_mset (run g) G) \<Longrightarrow> wgood P (push_active g w) X G"
  by (simp add: wgood_def push_active_def)

lemma wgood_touch:
  assumes "wgood P w X (add_mset (g, k) G)" "ag_slot_id g = None" "call_on c = Some (ag_session g)"
    and "\<And>v. suits P v (g, k) \<Longrightarrow> gc_honest right v c \<Longrightarrow> suits P (gc_effect c v) (g, k')"
  shows "wgood P (w\<lparr>wk_eng := (e, snd (wk_eng w) @ [c])\<rparr>) X (add_mset (g, k') G)"
proof -
  have g: "good P (snd (wk_eng w)) (mset (wk_idle w) + X) (add_mset (g, k) (image_mset run (mset (wk_active w)) + G))
      (wk_group w) (set (wk_done w))"
    using assms(1) by (simp add: wgood_def)
  show ?thesis using good_touch [where k' = k', OF g assms(2-4)] assms(1) by (simp add: wgood_def)
qed

lemma wgood_touch_idle:
  "wgood P w (add_mset s X) G \<Longrightarrow> call_on c = Some s \<Longrightarrow>
   wgood P (w\<lparr>wk_eng := (e, snd (wk_eng w) @ [c])\<rparr>) (add_mset s X) G"
  by (simp add: wgood_def good_touch_idle)

lemma wgood_remove:
  assumes w: "wgood P w X (add_mset (g, k) G)" and x: "ag_slot_id g = Some x"
  shows "wgood P (group_remove env x w) X (add_mset (g\<lparr>ag_slot_id := None\<rparr>, k) G)"
proof (cases "wk_group w")
  case None
  with w good_no_group [of P "snd (wk_eng w)" _ g] show ?thesis
    by (simp add: wgood_def group_remove_def split: option.splits)
next
  case (Some gr)
  then obtain bo where "eo_batch ops = Some bo" using w by (auto simp: wgood_def)
  with w ops Some x good_leave [of P "snd (wk_eng w)" _ g] show ?thesis
    by (simp add: wgood_def group_remove_def traced_def traced_batch_def Let_def)
qed

lemma wgood_demote:
  assumes "wgood P w X (add_mset (g, k) G)" "demote_from_group env g w = (g1, w1)"
  shows "wgood P w1 X (add_mset (g1, k) G) \<and> ag_slot_id g1 = None \<and> ag_pending_tok g1 = ag_pending_tok g"
  using assms wgood_remove [OF assms(1)] by (auto simp: demote_from_group_def split: option.splits)

lemma wgood_return:
  assumes w: "wgood P w (add_mset s X) G"
  shows "wgood P (return_session env s (reset_ignored env s w)) X G"
proof -
  have "wgood P (reset_ignored env s w) (add_mset s X) G"
    using wgood_touch_idle [OF w] ops by (simp add: reset_ignored_def traced_def Let_def)
  then show ?thesis
    using ops by (auto simp: return_session_def wgood_def traced_def intro: good_free)
qed

lemma wgood_retire:
  assumes w: "wgood P w X (add_mset (g, Ended f mode) G)"
  shows "wgood P (retire env g f mode w) X G"
proof -
  obtain g1 w1 where d: "demote_from_group env g w = (g1, w1)" by (cases "demote_from_group env g w") auto
  have g1: "g1 = g\<lparr>ag_slot_id := None\<rparr>" using demote_gen [of env g w] d by simp
  let ?d = "wk_done w1 @ [retire_port env g f mode]" and ?s = "ag_session g"
  let ?w2 = "return_session env ?s (reset_ignored env ?s (w1\<lparr>wk_done := ?d\<rparr>))"
  have "wgood P (w1\<lparr>wk_done := ?d\<rparr>) (add_mset ?s X) G"
    using wgood_demote [OF w d] good_retired [of P "snd (wk_eng w1)" _ g1 f mode] g1 by (simp add: wgood_def)
  from wgood_return [OF this] have "wgood P ?w2 X G" .
  moreover have "wk_eng ?w2 = wk_eng (return_session env ?s (reset_ignored env ?s w1))"
    "wk_idle ?w2 = wk_idle (return_session env ?s (reset_ignored env ?s w1))"
    by (simp_all add: return_session_def reset_ignored_def)
  ultimately show ?thesis
    using d demote_worker [of env g w]
    by (subst wgood_cong [where w = ?w2]) (simp_all add: wk_simps retire_view)
qed

lemma wgood_settle: "wgood fin w X (add_mset (g, outcome r) G) \<Longrightarrow> wgood fin (settle env (r, g, w)) X G"
  by (cases r) (auto simp: settle_def outcome_def intro: wgood_retire wgood_push)

lemma feed_eng: "feed_token env gen tok w = (r, g, w') \<Longrightarrow> wk_eng w' = wk_eng w"
  by (auto simp: feed_token_def Let_def now_def split: if_splits option.splits prod.splits send_result.splits)

lemma wgood_feed:
  assumes w: "wgood fin w X (add_mset (gen, Decoded tok) G)" and f: "feed_token env gen tok w = (r, g, w')"
  shows "wgood fin w' X (add_mset (g, outcome r) G)"
proof -
  note d = decode_worker [OF f]
  have "wgood fin w X (add_mset (g, outcome r) G)"
  proof (rule wgood_alter [OF w])
    fix v assume "suits fin v (gen, Decoded tok)"
    then show "suits fin v (g, outcome r)"
      using fits_fed [OF _ _ _ f] d by (fastforce simp: outcome_def split: step_result.splits)
  qed (use d in simp_all)
  then show ?thesis using wgood_cong [of w' w] d feed_eng [OF f] by simp
qed

lemma wgood_decode:
  assumes w: "wgood fin w X (add_mset (run gen) G)" and "ag_slot_id gen = None" and p: "ag_pending_tok gen = None"
    and d: "decode_and_feed env gen w = (r, g, w')"
  shows "wgood fin w' X (add_mset (g, outcome r) G)"
proof -
  obtain rr e1 where e: "eo_decode (en_ops env) (ag_session gen) (ag_config gen) (wk_eng w) = (rr, e1)"
    by (cases "eo_decode (en_ops env) (ag_session gen) (ag_config gen) (wk_eng w)")
  let ?k = "case rr of Inl e \<Rightarrow> Ended (Fi_Failed (''decode_one: '' @ e)) Serving | Inr t \<Rightarrow> Decoded t"
  let ?c = "Gc_Decode (ag_session gen) (ag_config gen) (ok_part rr)"
  have e1: "snd e1 = snd (wk_eng w) @ [?c]"
    using e ops by (auto simp: traced_def Let_def)
  have "wgood fin (w\<lparr>wk_eng := e1\<rparr>) X (add_mset (gen, ?k) G)"
    using w good_decode [of fin "snd (wk_eng w)" _ gen _ _ _ "ok_part rr" ?k] assms(2) p e1
    by (cases rr) (simp_all add: wgood_def ok_part_def)
  then show ?thesis
  proof (cases rr)
    case (Inl msg)
    with \<open>wgood fin (w\<lparr>wk_eng := e1\<rparr>) X (add_mset (gen, ?k) G)\<close> d e show ?thesis
      by (auto simp: decode_and_feed_def outcome_def)
  next
    case (Inr tok)
    with \<open>wgood fin (w\<lparr>wk_eng := e1\<rparr>) X (add_mset (gen, ?k) G)\<close> d e show ?thesis
      by (auto simp: decode_and_feed_def intro: wgood_feed)
  qed
qed

text \<open>A step polls the cancel flag, then sends the pending token, then decodes.\<close>

lemma wgood_step:
  assumes w: "wgood fin w X (add_mset (run gen) G)" and n: "ag_slot_id gen = None"
    and st: "step env gen w = (r, g, w')"
  shows "wgood fin w' X (add_mset (g, outcome r) G)"
proof -
  obtain c q where c: "po_cancelled (en_port env) (ag_port gen) = (c, q)"
    by (cases "po_cancelled (en_port env) (ag_port gen)") auto
  let ?g0 = "gen\<lparr>ag_port := q\<rparr>"
  have w0: "wgood fin w X (add_mset (?g0, if c then Ended Fi_Cancelled Serving else Running) G)"
    using fits_polled [OF _ c] by (intro wgood_alter [OF w]) auto
  show ?thesis
  proof (cases "c \<or> ag_pending_tok gen = None")
    case True
    show ?thesis
    proof (cases c)
      case c1: True
      with st c w0 show ?thesis by (auto simp: step_def outcome_def)
    next
      case False
      with True have p: "ag_pending_tok ?g0 = None" and d: "decode_and_feed env ?g0 w = (r, g, w')"
        using st c by (auto simp: step_def)
      from w0 False have "wgood fin w X (add_mset (run ?g0) G)" by simp
      from wgood_decode [OF this _ p d] n show ?thesis by simp
    qed
  next
    case False
    then obtain t where t: "ag_pending_tok gen = Some t" and c0: "\<not> c" by auto
    obtain sr q1 where s: "po_try_send (en_port env) (Ge_Token t) q = (sr, q1)"
      by (cases "po_try_send (en_port env) (Ge_Token t) q") auto
    let ?g2 = "gen\<lparr>ag_pending_tok := None, ag_port := q1\<rparr>" and ?g3 = "gen\<lparr>ag_port := q1\<rparr>"
    have g3: "?g2\<lparr>ag_pending_tok := Some t\<rparr> = ?g3" using t by (cases gen) simp
    let ?full = "ucast (gc_max_new_tokens (ag_config gen)) \<le> ag_generated gen"
    let ?out = "case sr of Full \<Rightarrow> run ?g3 | Closed \<Rightarrow> (?g2, Ended Fi_Cancelled Serving)
      | Sent \<Rightarrow> (?g2, if ?full then Ended Fi_Length Serving else Running)"
    have "wgood fin w X (add_mset (run ?g0) G)" using w0 c0 by simp
    then have w2: "wgood fin w X (add_mset (fst ?out, snd ?out) G)"
    proof (rule wgood_alter)
      fix v assume "suits fin v (run ?g0)"
      then obtain ids ts where q: "gv_seq v (ag_session gen) = Some (ids, ts)" and f: "fits ids ts ?g0" by auto
      show "suits fin v (fst ?out, snd ?out)"
        using fits_resent [OF f, of t sr q1] s t q by (cases sr) auto
    qed (cases sr; simp)+
    show ?thesis
    proof (cases "sr = Sent \<and> \<not> ?full")
      case True
      then have "decode_and_feed env ?g2 w = (r, g, w')" using st c t s c0 by (simp add: step_def Let_def)
      moreover have "wgood fin w X (add_mset (run ?g2) G)" using w2 True by simp
      ultimately show ?thesis using wgood_decode [of w X ?g2 G r g w'] n by simp
    next
      case False
      then have "w' = w \<and> g = fst ?out \<and> outcome r = snd ?out"
        using st c t s c0 g3 by (cases sr) (auto simp: step_def Let_def outcome_def)
      with w2 show ?thesis by simp
    qed
  qed
qed

lemma wgood_step_all:
  "\<forall>g \<in> set gens. ag_slot_id g = None \<Longrightarrow> wgood fin w X (image_mset run (mset gens) + G) \<Longrightarrow>
   wgood fin (step_all env gens w) X G"
proof (induction gens arbitrary: w)
  case (Cons g gs)
  obtain r g1 w1 where st: "step env g w = (r, g1, w1)" by (cases "step env g w") auto
  have "wgood fin w1 X (add_mset (g1, outcome r) (image_mset run (mset gs) + G))"
    using wgood_step [OF _ _ st] Cons.prems by simp
  from wgood_settle [OF this] Cons st show ?case by simp
qed simp

lemma wgood_demote_step_all:
  "wgood fin w X (image_mset run (mset gens) + G) \<Longrightarrow> wgood fin (demote_step_all env gens w) X G"
proof (induction gens arbitrary: w)
  case (Cons g gs)
  obtain g0 w0 where d: "demote_from_group env g w = (g0, w0)" by (cases "demote_from_group env g w") auto
  have d0: "wgood fin w0 X (add_mset (run g0) (image_mset run (mset gs) + G)) \<and> ag_slot_id g0 = None"
    using wgood_demote [OF _ d] Cons.prems by simp
  obtain r g1 w1 where st: "step env g0 w0 = (r, g1, w1)" by (cases "step env g0 w0") auto
  have "wgood fin w1 X (add_mset (g1, outcome r) (image_mset run (mset gs) + G))" using wgood_step [OF _ _ st] d0 by blast
  from wgood_settle [OF this] Cons d st show ?case by simp
qed simp

lemma wgood_feed_all:
  "wgood fin w X (image_mset (\<lambda>(g, t). (g, Decoded t)) (mset gs) + G) \<Longrightarrow> wgood fin (feed_all env gs w) X G"
proof (induction gs arbitrary: w)
  case (Cons gt gs)
  obtain g t where gt: "gt = (g, t)" by (cases gt)
  obtain r g1 w1 where st: "feed_token env g t w = (r, g1, w1)" by (cases "feed_token env g t w") auto
  have "wgood fin w1 X (add_mset (g1, outcome r) (image_mset (\<lambda>(g, t). (g, Decoded t)) (mset gs) + G))"
    using wgood_feed [OF _ st] Cons.prems gt by simp
  from wgood_settle [OF this] Cons gt st show ?case by simp
qed simp

lemma wgood_drop_cancelled:
  "wgood fin w X (image_mset run (mset gens) + G) \<Longrightarrow> drop_cancelled env gens w = (gs, w') \<Longrightarrow>
   wgood fin w' X (image_mset run (mset gs) + G) \<and>
   ((\<forall>g \<in> set gens. ag_pending_tok g = None) \<longrightarrow> (\<forall>g \<in> set gs. ag_pending_tok g = None))"
proof (induction gens arbitrary: w gs w' G)
  case (Cons g gens)
  obtain c q where c: "po_cancelled (en_port env) (ag_port g) = (c, q)"
    by (cases "po_cancelled (en_port env) (ag_port g)") auto
  let ?g = "g\<lparr>ag_port := q\<rparr>"
  have "wgood fin w X (add_mset (run g) (image_mset run (mset gens) + G))" using Cons.prems(1) by simp
  then have w: "wgood fin w X (add_mset (?g, if c then Ended Fi_Cancelled Serving else Running)
      (image_mset run (mset gens) + G))"
    by (rule wgood_alter) (use fits_polled [OF _ c] in auto)
  show ?case
  proof (cases c)
    case True
    with w have "wgood fin (retire env ?g Fi_Cancelled Serving w) X (image_mset run (mset gens) + G)"
      by (simp add: wgood_retire)
    with Cons.IH [OF this] Cons.prems(2) c True show ?thesis by auto
  next
    case False
    obtain gs1 w1 where d: "drop_cancelled env gens w = (gs1, w1)" by (cases "drop_cancelled env gens w") auto
    from w False have "wgood fin w X (image_mset run (mset gens) + add_mset (run ?g) G)" by simp
    from Cons.IH [OF this d] Cons.prems(2) c d False show ?thesis by auto
  qed
qed simp

lemma wgood_sort:
  "wgood fin w X (image_mset run (mset gens + mset solo + mset batch) + G) \<Longrightarrow>
   \<forall>g \<in> set solo. ag_slot_id g = None \<Longrightarrow> \<forall>g \<in> set batch. ag_pending_tok g = None \<Longrightarrow>
   sort_gens env gens solo batch w = (so, ba, w') \<Longrightarrow>
   wgood fin w' X (image_mset run (mset so + mset ba) + G) \<and> (\<forall>g \<in> set so. ag_slot_id g = None) \<and>
   (\<forall>g \<in> set ba. ag_pending_tok g = None)"
proof (induction gens arbitrary: solo batch w)
  case (Cons g gens)
  show ?case
  proof (cases "want_batch env g \<and> length batch < max_batch_slots env")
    case True
    with Cons.prems show ?thesis by (intro Cons.IH [of w solo "batch @ [g]"]) (auto simp: want_batch_def)
  next
    case False
    obtain g1 w1 where d: "demote_from_group env g w = (g1, w1)" by (cases "demote_from_group env g w") auto
    have "wgood fin w1 X (add_mset (run g1) (image_mset run (mset gens + mset solo + mset batch) + G)) \<and> ag_slot_id g1 = None"
      using wgood_demote [OF _ d] Cons.prems(1) by simp
    moreover have "sort_gens env gens (solo @ [g1]) batch w1 = (so, ba, w')"
      using Cons.prems(4) d by (simp only: sort_gens.simps if_not_P [OF False] Let_def prod.case)
    ultimately show ?thesis using Cons.prems by (intro Cons.IH [of w1 "solo @ [g1]" batch]) auto
  qed
qed simp

lemma wgood_hold:
  assumes w: "wgood fin w X (image_mset run (mset so + mset ba) + G)"
    and so: "\<forall>g \<in> set so. ag_slot_id g = None" and ba: "\<forall>g \<in> set ba. ag_pending_tok g = None"
    and h: "hold_lone env (so, ba, w) = (so', ba', w')"
  shows "wgood fin w' X (image_mset run (mset so' + mset ba') + G) \<and> (\<forall>g \<in> set so'. ag_slot_id g = None) \<and>
    (\<forall>g \<in> set ba'. ag_pending_tok g = None)"
proof (cases "\<exists>g. ba = [g] \<and> batching_on env")
  case True
  then obtain g where g: "ba = [g]" "batching_on env" by blast
  obtain g1 w1 where d: "demote_from_group env g w = (g1, w1)" by (cases "demote_from_group env g w") auto
  have w0: "wgood fin w X (add_mset (run g) (image_mset run (mset so) + G))" using w g by simp
  then have "wgood fin w X (add_mset (run (g\<lparr>ag_batch_held := True\<rparr>)) (image_mset run (mset so) + G))"
    by (rule wgood_alter) (use fits_held in auto)
  then have "wgood fin (push_active (g\<lparr>ag_batch_held := True\<rparr>) w) X (image_mset run (mset so) + G)"
    by (rule wgood_push)
  with wgood_demote [OF w0 d] so h g d show ?thesis by (auto simp: hold_lone_def split: if_splits)
next
  case False
  then have "hold_lone env (so, ba, w) = (so, ba, w)"
    by (cases ba; cases "tl ba") (auto simp: hold_lone_def)
  with w so ba h show ?thesis by simp
qed

subsection \<open>The batch step, a quantum, an iteration\<close>

lemma wgood_ensure:
  assumes b: "eo_batch ops = Some bo" and w: "wgood P w X G" and e: "ensure_group env (traced_batch bo) w = (go, w')"
  shows "wgood P w' X G \<and> (\<forall>gr. go = Some gr \<longrightarrow> wk_group w' = Some gr)"
proof (cases "wk_group w")
  case (Some gr)
  with w e show ?thesis by (auto simp: ensure_group_def)
next
  case None
  let ?o = "\<lparr>bg_max_slots = of_nat (max_batch_slots env), bg_max_context_tokens = 0\<rparr>"
  let ?p = "bo_create bo ?o (fst (wk_eng w))"
  have g: "good P (snd (wk_eng w) @ [Gc_Open x]) (mset (wk_idle w) + X) (image_mset run (mset (wk_active w)) + G) x
      (set (wk_done w))" for x
    using w None by (simp add: wgood_def good_open)
  show ?thesis
    using e None b g [of "ok_part (fst ?p)"]
    by (cases "fst ?p") (auto simp: ensure_group_def traced_batch_def Let_def wgood_def ok_part_def)
qed

lemma good_add_missing:
  "good P tr I (image_mset run (mset gens) + M) (Some gr) D \<Longrightarrow> add_missing (traced_batch bo) gr gens (e, tr) = (ok, gs, e') \<Longrightarrow>
   good P (snd e') I (image_mset run (mset gs) + M) (Some gr) D \<and> map ag_pending_tok gs = map ag_pending_tok gens \<and>
   (ok \<longrightarrow> (\<forall>g \<in> set gs. ag_slot_id g \<noteq> None))"
proof (induction gens arbitrary: e tr ok gs e' M)
  case (Cons g gens)
  show ?case
  proof (cases "ag_slot_id g")
    case (Some x)
    obtain ok1 gs1 e1 where a: "add_missing (traced_batch bo) gr gens (e, tr) = (ok1, gs1, e1)"
      by (cases "add_missing (traced_batch bo) gr gens (e, tr)") auto
    from Cons.IH [OF _ a, of "add_mset (run g) M"] Cons.prems Some a show ?thesis by auto
  next
    case None
    let ?p = "bo_add bo gr (ag_session g) e"
    have j: "good P (tr @ [Gc_Join gr (ag_session g) x]) I
        (add_mset (run (g\<lparr>ag_slot_id := x\<rparr>)) (image_mset run (mset gens) + M)) (Some gr) D" for x
      using good_join [of P tr I g Running "image_mset run (mset gens) + M" gr D x] Cons.prems(1) None by simp
    have g0: "g\<lparr>ag_slot_id := None\<rparr> = g" using None by (cases g) simp
    have ad: "bo_add (traced_batch bo) gr (ag_session g) (e, tr) =
        (fst ?p, snd ?p, tr @ [Gc_Join gr (ag_session g) (ok_part (fst ?p))])"
      by (simp add: traced_batch_def Let_def)
    show ?thesis
    proof (cases "fst ?p")
      case (Inl msg)
      with Cons.prems(2) ad None j [of None] g0 show ?thesis by (auto simp: ok_part_def)
    next
      case (Inr x)
      let ?tr = "tr @ [Gc_Join gr (ag_session g) (Some x)]" and ?g = "g\<lparr>ag_slot_id := Some x\<rparr>"
      obtain ok1 gs1 e1 where a: "add_missing (traced_batch bo) gr gens (snd ?p, ?tr) = (ok1, gs1, e1)"
        by (cases "add_missing (traced_batch bo) gr gens (snd ?p, ?tr)") auto
      have r: "ok = ok1" "gs = ?g # gs1" "e' = e1"
        using Cons.prems(2) ad None Inr a by (auto simp: ok_part_def)
      have "good P ?tr I (image_mset run (mset gens) + add_mset (run ?g) M) (Some gr) D" using j [of "Some x"] by simp
      from Cons.IH [OF this a] r show ?thesis by auto
    qed
  qed
qed simp

text \<open>After the attempt the members hold their token, or are as before.\<close>

definition attempted :: "i32 list option \<Rightarrow> ('s, 'c) active_gen list \<Rightarrow> ('s, 'c) staged multiset" where
  "attempted t gs = (case t of
     None \<Rightarrow> image_mset run (mset gs) | Some toks \<Rightarrow> image_mset (\<lambda>(g, t). (g, Decoded t)) (mset (zip gs toks)))"

lemma wgood_try_batch:
  assumes b: "eo_batch ops = Some bo" and w: "wgood P w X (image_mset run (mset batch) + G)"
    and p: "\<forall>g \<in> set batch. ag_pending_tok g = None"
    and t: "try_batch env (traced_batch bo) batch w = (t, gs, w')"
  shows "wgood P w' X (attempted t gs + G)"
proof -
  obtain go w1 where e: "ensure_group env (traced_batch bo) w = (go, w1)"
    by (cases "ensure_group env (traced_batch bo) w") auto
  note w1 = wgood_ensure [OF b w e]
  show ?thesis
  proof (cases go)
    case None
    with t e w1 show ?thesis by (auto simp: try_batch_def attempted_def)
  next
    case (Some gr)
    obtain e0 tr where eng: "wk_eng w1 = (e0, tr)" by (cases "wk_eng w1")
    obtain ok b1 e1 where a: "add_missing (traced_batch bo) gr batch (e0, tr) = (ok, b1, e1)"
      by (cases "add_missing (traced_batch bo) gr batch (e0, tr)") auto
    let ?I = "mset (wk_idle w1) + X" and ?M = "image_mset run (mset (wk_active w1)) + G" and ?D = "set (wk_done w1)"
    have "good P tr ?I (image_mset run (mset batch) + ?M) (Some gr) ?D"
      using w1 Some eng by (auto simp: wgood_def add.left_commute)
    note m = good_add_missing [OF this a]
    have w1g: "eo_batch ops = None \<longrightarrow> wk_group w1 = None" "wk_group w1 = Some gr" using w1 Some by (auto simp: wgood_def)
    show ?thesis
    proof (cases ok)
      case False
      with t e Some eng a m w1g show ?thesis by (auto simp: try_batch_def wgood_def attempted_def add.left_commute)
    next
      case True
      let ?xs = "map (\<lambda>x. the (ag_slot_id x)) b1" and ?cs = "map ag_config b1"
      let ?p = "bo_step bo gr ?xs ?cs (fst e1)"
      have "\<forall>g \<in> set b1. ag_pending_tok g = None" using m p by (metis in_set_conv_nth length_map nth_map)
      with m True have gs1: "\<forall>g \<in> set b1. ag_slot_id g \<noteq> None \<and> ag_pending_tok g = None" by blast
      have r: "t = step_result_of ?xs (fst ?p)" "gs = b1"
        "w' = w1\<lparr>wk_eng := (snd ?p, snd e1 @ [Gc_Batch gr ?xs ?cs (step_result_of ?xs (fst ?p))])\<rparr>"
        using True t e Some eng a
        by (auto simp: try_batch_def traced_batch_def Let_def step_result_of_def split: sum.splits)
      have "good P (snd e1 @ [Gc_Batch gr ?xs ?cs t]) ?I (attempted t b1 + ?M) (Some gr) ?D"
      proof (cases t)
        case None
        with good_batch_failed [of P "snd e1" ?I b1 ?M gr ?D] m gs1 show ?thesis by (simp add: attempted_def)
      next
        case (Some toks)
        then have "length toks = length b1" using r by (auto simp: step_result_of_def split: sum.splits if_splits)
        with good_batch_ok [of P "snd e1" ?I b1 ?M gr ?D toks] m gs1 Some show ?thesis by (simp add: attempted_def)
      qed
      with r w1g show ?thesis by (simp add: wgood_def add.left_commute)
    qed
  qed
qed

lemma wgood_run_batch:
  assumes w: "wgood fin w X (image_mset run (mset batch) + G)" and p: "\<forall>g \<in> set batch. ag_pending_tok g = None"
  shows "wgood fin (run_batch env batch w) X G"
proof (cases "eo_batch ops")
  case None
  with wgood_demote_step_all [OF w] ops show ?thesis by (simp add: run_batch_def traced_def)
next
  case (Some bo)
  then have b: "eo_batch (en_ops env) = Some (traced_batch bo)" using ops by (simp add: traced_def)
  obtain t gs w1 where tb: "try_batch env (traced_batch bo) batch w = (t, gs, w1)"
    by (cases "try_batch env (traced_batch bo) batch w") auto
  note k = wgood_try_batch [OF Some w p tb]
  show ?thesis
    using b tb k by (cases t) (simp_all add: run_batch_def attempted_def wgood_demote_step_all wgood_feed_all)
qed

lemma wgood_batch_phase:
  assumes w: "wgood fin w X (image_mset run (mset batch) + G)" and p: "\<forall>g \<in> set batch. ag_pending_tok g = None"
  shows "wgood fin (batch_phase env batch w) X G"
proof -
  obtain b1 w1 where d: "(if length batch \<ge> 2 then drop_cancelled env batch w else (batch, w)) = (b1, w1)"
    by fastforce
  have "wgood fin w1 X (image_mset run (mset b1) + G)" "\<forall>g \<in> set b1. ag_pending_tok g = None"
    using d w p wgood_drop_cancelled [OF w] by (cases "length batch \<ge> 2"; auto)+
  with d show ?thesis
    by (simp add: batch_phase_def wgood_run_batch wgood_demote_step_all)
qed

lemma wgood_release:
  assumes w: "wgood P w X {#}"
  shows "wgood P (release_group env w) X {#}"
  using w ops good_close [of P "snd (wk_eng w)" "mset (wk_idle w) + X" "image_mset run (mset (wk_active w))"]
  by (auto simp: release_group_def wgood_def traced_def traced_batch_def list_all_iff split: option.splits)

lemma wgood_quantum:
  assumes w: "wgood fin w X {#}"
  shows "wgood fin (quantum env w) X {#}"
proof -
  let ?w0 = "w\<lparr>wk_active := []\<rparr>"
  obtain so ba w1 where s: "sort_gens env (wk_active w) [] [] ?w0 = (so, ba, w1)"
    by (cases "sort_gens env (wk_active w) [] [] ?w0") auto
  obtain so' ba' w2 where h: "hold_lone env (so, ba, w1) = (so', ba', w2)"
    by (cases "hold_lone env (so, ba, w1)") auto
  have "wgood fin ?w0 X (image_mset run (mset (wk_active w) + mset [] + mset []) + {#})" using w by (simp add: wgood_def)
  from wgood_sort [OF this _ _ s] wgood_hold [OF _ _ _ h, of X "{#}"]
  have k: "wgood fin w2 X (image_mset run (mset so') + (image_mset run (mset ba') + {#}))"
    "\<forall>g \<in> set so'. ag_slot_id g = None" "\<forall>g \<in> set ba'. ag_pending_tok g = None" by auto
  from wgood_release [OF wgood_batch_phase [OF wgood_step_all [OF k(2,1)] k(3)]] s h
  show ?thesis by (simp add: quantum_def)
qed

subsection \<open>Admission, shutdown, whole runs\<close>

lemma suits_cut: "suits fin v p \<Longrightarrow> suits cut v p"
  by (cases "snd p") (auto simp: suits_def fin_cut)

lemma good_cut: "good fin tr I M grp D \<Longrightarrow> good cut tr I M grp D"
  by (erule good_mono) (auto simp: agrees_def intro: suits_cut fin_cut)

lemma wgood_cut: "wgood fin w X G \<Longrightarrow> wgood cut w X G"
  by (simp add: wgood_def good_cut)

lemma wgood_shutdown:
  "wgood cut (w\<lparr>wk_active := gens\<rparr>) X {#} \<Longrightarrow> wgood cut (shutdown_active env gens w) X {#}"
proof (induction gens arbitrary: w)
  case (Cons g gs)
  let ?f = "Fi_Failed ''scheduler shutting down''"
  let ?w1 = "w\<lparr>wk_active := gs\<rparr>" and ?w2 = "retire env g ?f Shutdown (w\<lparr>wk_active := gs\<rparr>)"
  have "wgood cut ?w1 X (add_mset (run g) {#})" using Cons.prems by (simp add: wgood_def)
  then have "wgood cut ?w1 X (add_mset (g, Ended ?f Shutdown) {#})"
    by (rule wgood_alter) (auto simp: stopped)
  then have "wgood cut ?w2 X {#}" by (rule wgood_retire)
  moreover have "?w2\<lparr>wk_active := gs\<rparr> = ?w2" using retire_simps(1) [of env g _ Shutdown ?w1] by simp
  ultimately show ?case using Cons.IH [of ?w2] by simp
qed simp

lemma wgood_take:
  assumes w: "wgood P w {#} {#}" and t: "take_session env w = (r, w')"
  shows "wgood P w' (case r of Inl _ \<Rightarrow> {#} | Inr s \<Rightarrow> {#s#}) {#}"
proof (cases "wk_idle w = []")
  case False
  then have "mset (wk_idle w) = add_mset (last (wk_idle w)) (mset (butlast (wk_idle w)))"
    by (metis append_butlast_last_id mset.simps(2) mset_append add_mset_add_single mset.simps(1))
  with w t False show ?thesis by (auto simp: take_session_def wgood_def)
next
  case True
  let ?p = "eo_create ops (fst (wk_eng w))"
  have "r = fst ?p \<and> w' = w\<lparr>wk_eng := (snd ?p, snd (wk_eng w) @ (case fst ?p of Inl _ \<Rightarrow> [] | Inr s \<Rightarrow> [Gc_New s]))\<rparr>"
    using t True by (auto simp: take_session_def ops traced_def Let_def)
  with w True show ?thesis by (cases "fst ?p") (auto simp: wgood_def good_created)
qed

lemma wgood_prefill:
  assumes w: "wgood P w {#} {#(g, Loading [])#}" and n: "ag_slot_id g = None"
    and p: "prefill_job env (ag_session g) ids w = (r, w')"
  shows "wgood P w' {#} {#(g, case r of Inl _ \<Rightarrow> Dropped | Inr _ \<Rightarrow> Loading ids)#}"
proof -
  let ?s = "ag_session g"
  have st: "wgood P (snd (prefill_us_of env ?s v)) {#} {#(g, k)#}" if "wgood P v {#} {#(g, k)#}" for v k
    using wgood_touch [OF that n, of "Gc_Stats ?s" k] ops by (simp add: prefill_us_of_def traced_def Let_def)
  obtain b w1 where b: "prefill_us_of env ?s w = (b, w1)" by (cases "prefill_us_of env ?s w")
  obtain q e1 where q: "eo_prefill (en_ops env) ?s ids (wk_eng w1) = (q, e1)"
    by (cases "eo_prefill (en_ops env) ?s ids (wk_eng w1)")
  let ?k = "case q of Inl _ \<Rightarrow> Dropped | Inr _ \<Rightarrow> Loading ids" and ?c = "Gc_Prefill ?s ids (succeeded q)"
  have e1: "e1 = (fst e1, snd (wk_eng w1) @ [?c])" using q ops by (auto simp: traced_def Let_def)
  have w1: "wgood P w1 {#} {#(g, Loading [])#}" using st [OF w] b by simp
  have "wgood P (w1\<lparr>wk_eng := (fst e1, snd (wk_eng w1) @ [?c])\<rparr>) {#} {#(g, ?k)#}"
    by (rule wgood_touch [OF w1 n]) (auto simp: put_seq_def succeeded_def ok_part_def split: sum.splits)
  then have w2: "wgood P (w1\<lparr>wk_eng := e1\<rparr>) {#} {#(g, ?k)#}" using e1 by simp
  obtain a w3 where a: "prefill_us_of env ?s (w1\<lparr>wk_eng := e1\<rparr>) = (a, w3)" by (cases "prefill_us_of env ?s (w1\<lparr>wk_eng := e1\<rparr>)")
  have "wgood P w3 {#} {#(g, ?k)#}" using st [OF w2] a by simp
  with p b q a w2 show ?thesis by (cases q; cases a) (auto simp: prefill_job_def Let_def)
qed

lemma wgood_fail:
  assumes p: "P (snd (po_blocking_send (en_port env) (Ge_Failed msg) p))"
    and w: "wgood P w (case so of None \<Rightarrow> {#} | Some s \<Rightarrow> {#s#}) {#}"
  shows "wgood P (fail_intake env p so msg w) {#} {#}"
proof -
  let ?w2 = "(with_met (\<lambda>m. m\<lparr>errors_total := errors_total m + 1, active_streams := active_streams m - 1\<rparr>) w)
    \<lparr>wk_done := wk_done w @ [snd (po_blocking_send (en_port env) (Ge_Failed msg) p)]\<rparr>"
  have "wgood P ?w2 X {#}" if "wgood P w X {#}" for X
  proof -
    have "good P (snd (wk_eng w)) (mset (wk_idle w) + X) (image_mset run (mset (wk_active w))) (wk_group w)
        (insert (snd (po_blocking_send (en_port env) (Ge_Failed msg) p)) (set (wk_done w)))"
      using that p by (auto simp: wgood_def agrees_def elim: good_mono)
    with that show ?thesis by (simp add: wgood_def wk_simps)
  qed
  with w wgood_return [of P ?w2] show ?thesis
    by (cases so) (simp_all add: fail_intake_def Let_def wk_simps)
qed

lemma wgood_intake:
  assumes j: "jok j" and w: "wgood fin w {#} {#}"
  shows "wgood fin (intake env j w) {#} {#}"
proof -
  define w2 where "w2 = with_met (\<lambda>m. m\<lparr>queue_depth := wk_waiting w - 1, active_streams := active_streams m + 1\<rparr>)
    (w\<lparr>wk_waiting := wk_waiting w - 1\<rparr>)"
  obtain t w3 where t: "now env w2 = (t, w3)" by (cases "now env w2")
  have w3: "wgood fin w3 {#} {#}"
    using w t by (subst wgood_cong [of _ w]) (auto simp: now_def w2_def wk_simps)
  obtain r w4 where r: "take_session env w3 = (r, w4)" by (cases "take_session env w3")
  note w4 = wgood_take [OF w3 r]
  note fl = wgood_fail [where P = fin, OF refused [OF j]]
  show ?thesis
  proof (cases "t - job_enqueued_at j > en_queue_timeout env")
    case True
    with t fl [of w3 None] w3 show ?thesis by (simp add: intake_def Let_def w2_def)
  next
    case F: False
    show ?thesis
    proof (cases r)
      case (Inl e)
      with F t r w4 fl [of w4 None] show ?thesis by (simp add: intake_def Let_def w2_def)
    next
      case s: (Inr s)
      let ?g = "new_gen s j"
      have g: "ag_session ?g = s" "ag_slot_id ?g = None" by (simp_all add: new_gen_def)
      obtain q e5 where q: "eo_reset (en_ops env) s (wk_eng w4) = (q, e5)" by (cases "eo_reset (en_ops env) s (wk_eng w4)")
      have e5: "e5 = (fst e5, snd (wk_eng w4) @ [Gc_Reset s (succeeded q)])" using q ops by (auto simp: traced_def Let_def)
      let ?w5 = "w4\<lparr>wk_eng := e5\<rparr>"
      have ws: "wgood fin w4 {#s#} {#}" using w4 s by simp
      show ?thesis
      proof (cases q)
        case (Inl e)
        have "wgood fin ?w5 {#s#} {#}" using wgood_touch_idle [OF ws, of "Gc_Reset s (succeeded q)" "fst e5"] e5 by simp
        with F t r s q Inl fl [of ?w5 "Some s"] show ?thesis by (simp add: intake_def Let_def w2_def)
      next
        case qr: (Inr u)
        have tr5: "snd e5 = snd (wk_eng w4) @ [Gc_Reset s True]"
          using e5 qr by (metis snd_conv succeeded_def ok_part_def sum.simps(6) option.distinct(1))
        have "wgood fin ?w5 {#} {#(?g, Loading [])#}"
          using ws good_begin [of fin "snd (wk_eng w4)" ?g] g tr5 by (simp add: wgood_def)
        note w5 = this
        obtain pr w6 where p: "prefill_job env s (gj_prompt_ids (job_inner j)) ?w5 = (pr, w6)"
          by (cases "prefill_job env s (gj_prompt_ids (job_inner j)) ?w5")
        note w6 = wgood_prefill [OF w5 g(2), unfolded g(1), OF p]
        show ?thesis
        proof (cases pr)
          case (Inl e)
          have "wgood fin w6 {#s#} {#}"
            using w6 Inl g good_finish [of fin "snd (wk_eng w6)" _ ?g Dropped] by (simp add: wgood_def)
          with F t r s q qr p Inl fl [of w6 "Some s"] show ?thesis by (simp add: intake_def Let_def w2_def)
        next
          case (Inr u2)
          have "wgood fin w6 {#} {#run ?g#}"
          proof (rule wgood_alter)
            show "wgood fin w6 {#} {#(?g, Loading (gj_prompt_ids (job_inner j)))#}" using w6 Inr by simp
          qed (use fits_new [OF j] in auto)
          then have "wgood fin (push_active ?g w6) {#} {#}" by (rule wgood_push)
          with F t r s q qr p Inr show ?thesis
            by (simp add: intake_def Let_def w2_def new_gen_def push_active_def)
        qed
      qed
    qed
  qed
qed

lemma wgood_iter:
  assumes w: "wgood fin w {#} {#}" and j: "\<forall>j. rx = Rx_Job j \<longrightarrow> jok j" and it: "worker_iter env rx c w = (b, w')"
  shows "if b then wgood fin w' {#} {#} else wgood cut w' {#} {#} \<and> wk_active w' = []"
proof -
  have "wk_active (shutdown_active env gens v) = []" for gens v
    by (induction gens arbitrary: v) simp_all
  moreover have "wgood cut (shutdown_active env (wk_active w) w) {#} {#}"
    by (rule wgood_shutdown) (use wgood_cut [OF w] in simp)
  ultimately show ?thesis
    using it wgood_quantum [OF w] wgood_quantum [OF wgood_intake [OF _ w]] w wgood_cut [OF w] j
    by (auto simp: worker_iter_def split: if_splits recv.splits)
qed

lemma good_free_all:
  "good P (snd e) (mset ss) M grp D \<Longrightarrow> good P (snd (fold (eo_drop (traced ops)) ss e)) {#} M grp D"
proof (induction ss arbitrary: e)
  case (Cons s ss)
  then have "good P (snd (eo_drop (traced ops) s e)) (mset ss) M grp D"
    using good_free [of P "snd e" s "mset ss" M grp D] by (simp add: traced_def)
  from Cons.IH [OF this] show ?case by simp
qed simp

lemma wgood_exit:
  assumes w: "wgood P w {#} {#}" and a: "wk_active w = []"
  shows "good P (snd (wk_eng (worker_exit env w))) {#} {#} None (set (wk_done w))"
proof -
  let ?e1 = "case (wk_group w, eo_batch (en_ops env)) of (Some g, Some bo) \<Rightarrow> bo_drop bo g (wk_eng w) | _ \<Rightarrow> wk_eng w"
  have g: "good P (snd (wk_eng w)) (mset (wk_idle w)) {#} (wk_group w) (set (wk_done w))"
    using w a by (simp add: wgood_def)
  have "good P (snd ?e1) (mset (wk_idle w)) {#} None (set (wk_done w))"
  proof (cases "wk_group w")
    case None
    with g show ?thesis by simp
  next
    case (Some gr)
    with w obtain bo where "eo_batch ops = Some bo" by (auto simp: wgood_def)
    with Some g ops good_close [of P "snd (wk_eng w)" "mset (wk_idle w)" "{#}" gr] show ?thesis
      by (simp add: traced_def traced_batch_def)
  qed
  from good_free_all [OF this] ops show ?thesis by (simp add: worker_exit_def Let_def wk_simps)
qed

text \<open>After a run: the engine is to blame, or the contract and the protocol hold.\<close>

definition settled :: "bool \<Rightarrow> ('e \<times> ('s, 'g) gcall list, 's, 'g, 'c) worker \<Rightarrow> bool" where
  "settled b w \<longleftrightarrow>
     (case judge right gv_start (snd (wk_eng w)) of
        Fine v \<Rightarrow> if b then \<forall>p \<in> set (wk_done w). fin p
                  else gv_live v = {} \<and> gv_group v = None \<and> gv_members v = {} \<and> (\<forall>p \<in> set (wk_done w). cut p)
      | Engine_Fault \<Rightarrow> True | Scheduler_Fault \<Rightarrow> False)"

lemma worker_run_settled:
  "wgood fin w {#} {#} \<Longrightarrow> \<forall>(rx, c) \<in> set ins. \<forall>j. rx = Rx_Job j \<longrightarrow> jok j \<Longrightarrow>
   worker_run env ins w = (b, w') \<Longrightarrow> settled b w'"
proof (induction ins arbitrary: w)
  case Nil
  then show ?case by (auto simp: settled_def wgood_def good_def agrees_def split: verdict.splits)
next
  case (Cons i ins)
  obtain rx c where i: "i = (rx, c)" by (cases i)
  obtain b1 w1 where it: "worker_iter env rx c w = (b1, w1)" by (cases "worker_iter env rx c w")
  have "\<forall>j. rx = Rx_Job j \<longrightarrow> jok j" using Cons.prems(2) i by auto
  note k = wgood_iter [OF Cons.prems(1) this it]
  show ?case
  proof (cases b1)
    case True
    with Cons.IH [of w1] Cons.prems i it k show ?thesis by auto
  next
    case False
    then have r: "b = False" "w' = worker_exit env w1" using Cons.prems(3) i it by auto
    have "wk_done (worker_exit env w1) = wk_done w1" by (simp add: worker_exit_def with_met_def Let_def)
    with wgood_exit [of cut w1] k False show ?thesis
      by (auto simp: settled_def r good_def agrees_def held_def split: verdict.splits)
  qed
qed

lemma run_settled:
  assumes "\<forall>(rx, c) \<in> set ins. \<forall>j. rx = Rx_Job j \<longrightarrow> jok j" "worker_run env ins (worker_init (e, []) m) = (b, w)"
  shows "settled b w"
proof (rule worker_run_settled [OF _ assms])
  show "wgood fin (worker_init (e, []) m) {#} {#}"
    by (simp add: wgood_def worker_init_def good_def agrees_def gv_start_def held_def)
qed

end

subsection \<open>The protocol alone\<close>

lemma bare_contract:
  "en_ops env = traced ops \<Longrightarrow> stream_contract env ops right (\<lambda>_ _ _. True) (\<lambda>_. True) (\<lambda>_. True) (\<lambda>_. True)"
  by unfold_locales (auto split: send_result.splits step_result.splits)


end
