(* ===== verification/Worker_Reference.thy ===== *)
theory Worker_Reference
  imports Worker_Protocol Scheduler_Props
begin

section \<open>Every client gets the generation of its own prompt\<close>

text \<open>
  What a job should produce, for a model given as a function \<open>nxt\<close> from the prompt, the tokens so
  far and the configuration to the next token: \<open>reply_of\<close>. The invariant \<open>on_track\<close> says of a stream
  that the reference computation passes through the tokens its session has produced, and that these
  are what the channel holds and the pending token. With the laws of \<open>stream_contract\<close> it holds
  through solo steps, batch steps, fallbacks, holds, slow consumers and neighbours of any kind.
\<close>

type_synonym next_token = "i32 list \<Rightarrow> i32 list \<Rightarrow> gen_config \<Rightarrow> i32"

fun ref_reply :: "next_token \<Rightarrow> i32 list \<Rightarrow> gen_config \<Rightarrow> nat \<Rightarrow> i32 list \<Rightarrow> i32 list \<times> finish_reason" where
  "ref_reply nxt ids c 0 ts = (ts, Fr_Length)"
| "ref_reply nxt ids c (Suc n) ts =
     (if nxt ids ts c \<in> set eos_ids then (ts, Fr_Stop) else ref_reply nxt ids c n (ts @ [nxt ids ts c]))"

definition max_tokens :: "generation_job \<Rightarrow> nat" where
  "max_tokens j = max 1 (unat (gc_max_new_tokens (gj_config j)))"

definition reply_of :: "next_token \<Rightarrow> generation_job \<Rightarrow> i32 list \<times> finish_reason" where
  "reply_of nxt j = ref_reply nxt (gj_prompt_ids j) (gj_config j) (max_tokens j) []"

definition usage_for :: "generation_job \<Rightarrow> nat \<Rightarrow> usage" where
  "usage_for j n = \<lparr>us_prompt_tokens = of_nat (length (gj_prompt_ids j)), us_completion_tokens = of_nat n\<rparr>"

text \<open>The whole reply with its reason, or a prefix of it when the job was cancelled or failed.\<close>

definition ref_log :: "next_token \<Rightarrow> generation_job \<Rightarrow> gen_event list \<Rightarrow> bool" where
  "ref_log nxt j evs \<longleftrightarrow>
     (case reply_of nxt j of (toks, r) \<Rightarrow>
        evs = map Ge_Token toks @ [Ge_Done r (usage_for j (length toks))] \<or>
        (\<exists>n \<le> length toks. evs = map Ge_Token (take n toks) @ [Ge_Done Fr_Cancelled (usage_for j n)]) \<or>
        (\<exists>n e. evs = map Ge_Token (take n toks) @ [Ge_Failed e]))"

definition ref_cut :: "next_token \<Rightarrow> generation_job \<Rightarrow> gen_event list \<Rightarrow> bool" where
  "ref_cut nxt j evs \<longleftrightarrow> (\<exists>n. evs = map Ge_Token (take n (fst (reply_of nxt j))))"

subsection \<open>The reference computation\<close>

lemma ref_reply_extends: "\<exists>us. fst (ref_reply nxt ids c n ts) = ts @ us"
proof (induction n arbitrary: ts)
  case (Suc n)
  from Suc [of "ts @ [nxt ids ts c]"] show ?case by auto
qed simp

text \<open>The computation passes through \<open>ts\<close>.\<close>

definition passes :: "next_token \<Rightarrow> generation_job \<Rightarrow> i32 list \<Rightarrow> bool" where
  "passes nxt j ts \<longleftrightarrow>
     length ts \<le> max_tokens j \<and>
     reply_of nxt j = ref_reply nxt (gj_prompt_ids j) (gj_config j) (max_tokens j - length ts) ts"

lemma passes_Nil [simp]: "passes nxt j []"
  by (simp add: passes_def reply_of_def)

lemma passes_prefix: "passes nxt j ts \<Longrightarrow> \<exists>n \<le> length (fst (reply_of nxt j)). n = length ts \<and> take n (fst (reply_of nxt j)) = ts"
  using ref_reply_extends [of nxt "gj_prompt_ids j" "gj_config j" "max_tokens j - length ts" ts]
  by (auto simp: passes_def)

lemma passes_next:
  assumes "passes nxt j ts" "length ts < max_tokens j" "t = nxt (gj_prompt_ids j) ts (gj_config j)"
  shows "if t \<in> set eos_ids then reply_of nxt j = (ts, Fr_Stop) else passes nxt j (ts @ [t])"
proof -
  obtain k where "max_tokens j - length ts = Suc k" using assms(2) by (metis Suc_diff_Suc)
  moreover from this have "max_tokens j - length (ts @ [t]) = k" by simp
  ultimately show ?thesis using assms by (auto simp: passes_def)
qed

lemma passes_full: "passes nxt j ts \<Longrightarrow> length ts = max_tokens j \<Longrightarrow> reply_of nxt j = (ts, Fr_Length)"
  by (simp add: passes_def)

lemma prefix_cut: "passes nxt j (ts @ us) \<Longrightarrow> ref_cut nxt j (map Ge_Token ts)"
  using passes_prefix [of nxt j "ts @ us"] unfolding ref_cut_def by (metis append_eq_conv_conj take_take)

subsection \<open>The stream of a job\<close>

locale job_channel = event_channel po sent closed "\<lambda>p. gc_max_new_tokens (gj_config (job p))"
  for po :: "'c port_ops" and sent :: "'c \<Rightarrow> gen_event list" and closed :: "'c \<Rightarrow> bool"
    and job :: "'c \<Rightarrow> generation_job" +
  fixes nxt :: next_token
  assumes try_job: "job (snd (po_try_send po ev p)) = job p"
    and blocking_job: "job (snd (po_blocking_send po ev p)) = job p"
    and cancelled_job: "job (snd (po_cancelled po p)) = job p"
begin

definition pend :: "('s, 'c) active_gen \<Rightarrow> gen_event list" where
  "pend g = (case ag_pending_tok g of None \<Rightarrow> [] | Some t \<Rightarrow> [Ge_Token t])"

definition on_track :: "i32 list \<Rightarrow> i32 list \<Rightarrow> ('s, 'c) active_gen \<Rightarrow> bool" where
  "on_track ids ts g \<longleftrightarrow>
     gen_inv g \<and> ids = gj_prompt_ids (job (ag_port g)) \<and> ag_config g = gj_config (job (ag_port g)) \<and>
     ag_prompt_tokens g = of_nat (length ids) \<and> passes nxt (job (ag_port g)) ts \<and>
     sent (ag_port g) @ pend g = map Ge_Token ts"

definition fin :: "'c \<Rightarrow> bool" where
  "fin p \<longleftrightarrow> ref_log nxt (job p) (sent p) \<or> closed p \<and> ref_cut nxt (job p) (sent p)"

definition cut :: "'c \<Rightarrow> bool" where
  "cut p \<longleftrightarrow> ref_log nxt (job p) (sent p) \<or> ref_cut nxt (job p) (sent p)"

definition fresh_job :: "'c job \<Rightarrow> bool" where
  "fresh_job j \<longleftrightarrow> sent (job_port j) = [] \<and> job (job_port j) = job_inner j"

lemma limit_job: "limit p = max_tokens (job p)"
  by (simp add: limit_def max_tokens_def)

lemma on_track_count: "on_track ids ts g \<Longrightarrow> unat (ag_generated g) = length ts"
proof -
  assume t: "on_track ids ts g"
  then obtain us where "sent (ag_port g) = map Ge_Token us"
    "unat (ag_generated g) = length us + (if ag_pending_tok g = None then 0 else 1)"
    by (auto simp: on_track_def gen_inv_def)
  moreover have "length (sent (ag_port g) @ pend g) = length ts" using t by (simp add: on_track_def)
  ultimately show ?thesis by (auto simp: pend_def split: option.splits)
qed

text \<open>What retirement adds: the pending token and the terminal event, unless the receiver is gone.\<close>

definition last_event :: "('s, 'c) active_gen \<Rightarrow> finish \<Rightarrow> gen_event" where
  "last_event g f = fst (finish_event f
     \<lparr>us_prompt_tokens = ag_prompt_tokens g, us_completion_tokens = ag_generated g\<rparr>)"

lemma sent_blocking:
  "job (snd (po_blocking_send po ev p)) = job p \<and>
   (sent (snd (po_blocking_send po ev p)) = sent p @ [ev] \<and> \<not> closed p \<or>
    sent (snd (po_blocking_send po ev p)) = sent p \<and> closed (snd (po_blocking_send po ev p)))"
proof -
  obtain b q where b: "po_blocking_send po ev p = (b, q)" by (cases "po_blocking_send po ev p")
  then show ?thesis using blocking_send [OF b] blocking_job [of ev p] by (cases b) auto
qed

lemma retired:
  assumes "en_port env = po"
  shows "job (retire_port env g f Serving) = job (ag_port g) \<and>
    (sent (retire_port env g f Serving) = sent (ag_port g) @ pend g @ [last_event g f] \<and> \<not> closed (ag_port g) \<or>
     closed (retire_port env g f Serving) \<and>
       (sent (retire_port env g f Serving) = sent (ag_port g) \<or>
        sent (retire_port env g f Serving) = sent (ag_port g) @ pend g))"
proof (cases "ag_pending_tok g")
  case None
  then have r: "retire_port env g f Serving = snd (po_blocking_send po (last_event g f) (ag_port g))"
    by (simp add: retire_port_def send_by_mode_def assms last_event_def)
  show ?thesis
    using sent_blocking [of "last_event g f" "ag_port g"] None unfolding r pend_def by auto
next
  case (Some t)
  let ?p = "snd (po_blocking_send po (Ge_Token t) (ag_port g))"
  have r: "retire_port env g f Serving = snd (po_blocking_send po (last_event g f) ?p)"
    by (simp add: retire_port_def send_by_mode_def assms last_event_def Some)
  show ?thesis
    using sent_blocking [of "Ge_Token t" "ag_port g"] sent_blocking [of "last_event g f" ?p] Some
    unfolding r pend_def by auto
qed

lemma retired_with:
  assumes po: "en_port env = po" and p: "passes nxt (job (ag_port g)) (ts @ us)"
    and s: "sent (ag_port g) @ pend g = map Ge_Token ts"
    and l: "\<not> closed (ag_port g) \<Longrightarrow> ref_log nxt (job (ag_port g)) (map Ge_Token ts @ [last_event g f])"
  shows "fin (retire_port env g f Serving)"
proof -
  let ?q = "retire_port env g f Serving"
  have j: "job ?q = job (ag_port g)" using retired [OF po] by blast
  consider "sent ?q = map Ge_Token ts @ [last_event g f]" "\<not> closed (ag_port g)"
    | "closed ?q" "sent ?q = sent (ag_port g)" | "closed ?q" "sent ?q = map Ge_Token ts"
    using retired [OF po, of g f] s by (metis append_assoc)
  then show ?thesis
  proof cases
    case 1
    with l show ?thesis by (simp add: fin_def j)
  next
    case 2
    obtain vs xs where "sent (ag_port g) = map Ge_Token vs" "ts = vs @ xs"
      using s by (metis map_eq_append_conv)
    with 2 prefix_cut [of nxt _ vs "xs @ us"] p show ?thesis by (auto simp: fin_def j)
  next
    case 3
    with prefix_cut [OF p] show ?thesis by (auto simp: fin_def j)
  qed
qed

lemma on_track_generated: "on_track ids ts g \<Longrightarrow> ag_generated g = of_nat (length ts)"
proof -
  assume "on_track ids ts g"
  then have "of_nat (unat (ag_generated g)) = (of_nat (length ts) :: u64)" by (simp only: on_track_count)
  then show ?thesis by simp
qed

lemma usage_track:
  "on_track ids ts g \<Longrightarrow> last_event g f = fst (finish_event f (usage_for (job (ag_port g)) (length ts)))"
  by (simp add: last_event_def usage_for_def on_track_generated) (simp add: on_track_def)

lemma on_track_early:
  assumes "en_port env = po" "on_track ids ts g" "f = Fi_Cancelled \<or> f = Fi_Failed e"
  shows "fin (retire_port env g f Serving)"
proof (rule retired_with [OF assms(1), of g ts "[]"])
  obtain n where n: "n \<le> length (fst (reply_of nxt (job (ag_port g))))" "n = length ts"
    "take n (fst (reply_of nxt (job (ag_port g)))) = ts"
    using passes_prefix [of nxt _ ts] assms(2) by (auto simp: on_track_def)
  then show "ref_log nxt (job (ag_port g)) (map Ge_Token ts @ [last_event g f])"
    using assms(3) unfolding ref_log_def usage_track [OF assms(2)]
    by (auto simp: finish_event_def Let_def split: prod.splits intro: exI [of _ n])
qed (use assms(2) in \<open>simp_all add: on_track_def\<close>)

lemma on_track_done:
  assumes "en_port env = po" "on_track ids ts g" "reply_of nxt (job (ag_port g)) = (ts, r)"
    and "(f, r) \<in> {(Fi_Stop, Fr_Stop), (Fi_Length, Fr_Length)}"
  shows "fin (retire_port env g f Serving)"
proof (rule retired_with [OF assms(1), of g ts "[]"])
  show "ref_log nxt (job (ag_port g)) (map Ge_Token ts @ [last_event g f])"
    using assms(3,4) unfolding ref_log_def usage_track [OF assms(2)] by (auto simp: finish_event_def Let_def)
qed (use assms(2) in \<open>simp_all add: on_track_def\<close>)

lemma on_track_port:
  "on_track ids ts g \<Longrightarrow> sent q = sent (ag_port g) \<Longrightarrow> job q = job (ag_port g) \<Longrightarrow> on_track ids ts (g\<lparr>ag_port := q\<rparr>)"
  using gen_inv_port [of g q] by (simp add: on_track_def pend_def)

text \<open>The laws of a stream. First a token that was just decoded.\<close>

lemma feed_token_out:
  assumes "feed_token env gen tok w = (r, g, w')" "tok \<notin> set eos_ids"
  shows "\<exists>sr q ft. po_try_send (en_port env) (Ge_Token tok) (ag_port gen) = (sr, q) \<and>
    (let g1 = gen\<lparr>ag_generated := ag_generated gen + 1, ag_first_token_at := ft, ag_port := q\<rparr> in
     case sr of
       Full \<Rightarrow> r = Sr_Yield \<and> g = g1\<lparr>ag_pending_tok := Some tok\<rparr>
     | Closed \<Rightarrow> r = Sr_Done Fi_Cancelled \<and> g = g1
     | Sent \<Rightarrow> g = g1 \<and> r = (if ucast (gc_max_new_tokens (ag_config gen)) \<le> ag_generated gen + 1
         then Sr_Done Fi_Length else Sr_Continue))"
proof -
  obtain sr q where q: "po_try_send (en_port env) (Ge_Token tok) (ag_port gen) = (sr, q)"
    by (cases "po_try_send (en_port env) (Ge_Token tok) (ag_port gen)")
  have ft: "gen\<lparr>ag_generated := n, ag_port := q\<rparr> =
      gen\<lparr>ag_generated := n, ag_first_token_at := ag_first_token_at gen, ag_port := q\<rparr>" for n
    by (cases gen) simp
  show ?thesis
    using assms q
    by (cases "ag_first_token_at gen"; cases sr)
       (auto simp: feed_token_def Let_def now_def ft intro!: exI [of _ sr] exI [of _ q])
qed

lemma on_track_fed:
  assumes po: "en_port env = po" and t: "on_track ids ts gen" and n: "ag_pending_tok gen = None"
    and tok: "tok = nxt ids ts (ag_config gen)" and f: "feed_token env gen tok w = (r, g, w')"
  shows "case r of Sr_Done f \<Rightarrow> fin (retire_port env g f Serving) | _ \<Rightarrow> on_track ids (ts @ [tok]) g"
proof -
  let ?j = "job (ag_port gen)"
  have gi: "gen_inv gen" and p: "passes nxt ?j ts" and s: "sent (ag_port gen) = map Ge_Token ts"
    and c: "ag_config gen = gj_config ?j" "ids = gj_prompt_ids ?j" "ag_prompt_tokens gen = of_nat (length ids)"
    using t n by (auto simp: on_track_def pend_def)
  have len: "length ts < max_tokens ?j"
    using gi n on_track_count [OF t] c(1) by (auto simp: gen_inv_def max_tokens_def)
  note step = passes_next [OF p len, of tok]
  show ?thesis
  proof (cases "tok \<in> set eos_ids")
    case True
    then have "r = Sr_Done Fi_Stop" "g = gen" using f by (simp_all add: feed_token_def)
    with on_track_done [OF po t, of Fr_Stop Fi_Stop] step True tok c show ?thesis by simp
  next
    case False
    then have p1: "passes nxt ?j (ts @ [tok])" using step tok c by simp
    from feed_token_out [OF f False] obtain sr q ft where
      q: "po_try_send po (Ge_Token tok) (ag_port gen) = (sr, q)" and
      g: "let g1 = gen\<lparr>ag_generated := ag_generated gen + 1, ag_first_token_at := ft, ag_port := q\<rparr> in
        case sr of
          Full \<Rightarrow> r = Sr_Yield \<and> g = g1\<lparr>ag_pending_tok := Some tok\<rparr>
        | Closed \<Rightarrow> r = Sr_Done Fi_Cancelled \<and> g = g1
        | Sent \<Rightarrow> g = g1 \<and> r = (if ucast (gc_max_new_tokens (ag_config gen)) \<le> ag_generated gen + 1
            then Sr_Done Fi_Length else Sr_Continue)"
      using po by auto
    note ch = try_send [OF q]
    have j: "job q = ?j" using try_job [of "Ge_Token tok" "ag_port gen"] q by simp
    note inv = feed_token_inv [OF gi n po f]
    show ?thesis
    proof (cases sr)
      case Closed
      have "fin (retire_port env g Fi_Cancelled Serving)"
        by (rule retired_with [OF po, of g ts "[tok]"])
           (use g Closed p1 j s n ch in \<open>auto simp: Let_def pend_def\<close>)
      with g Closed show ?thesis by (simp add: Let_def)
    next
      case Full
      with g inv p1 j s c ch show ?thesis by (auto simp: Let_def on_track_def pend_def)
    next
      case Sent
      have tr: "on_track ids (ts @ [tok]) g" if "gen_inv g"
        using that g Sent p1 j s c n ch by (auto simp: Let_def on_track_def pend_def)
      show ?thesis
      proof (cases "ucast (gc_max_new_tokens (ag_config gen)) \<le> ag_generated gen + 1")
        case True
        have "unat (ag_generated gen + 1) = length ts + 1"
          using unat_inc [of "ag_generated gen"] on_track_count [OF t] len limit_pos(3) [of "ag_port gen"]
          by (simp add: limit_job)
        then have full: "length (ts @ [tok]) = max_tokens ?j"
          using True len c by (simp add: ucast_le max_tokens_def)
        have gg: "g = gen\<lparr>ag_generated := ag_generated gen + 1, ag_first_token_at := ft, ag_port := q\<rparr>"
          "r = Sr_Done Fi_Length"
          using g Sent True by (simp_all add: Let_def)
        have "fin (retire_port env g Fi_Length Serving)"
        proof (rule retired_with [OF po, of g "ts @ [tok]" "[]"])
          have "last_event g Fi_Length = Ge_Done Fr_Length (usage_for ?j (length (ts @ [tok])))"
            using c on_track_generated [OF t] by (simp add: last_event_def finish_event_def usage_for_def gg Let_def)
          then show "ref_log nxt (job (ag_port g)) (map Ge_Token (ts @ [tok]) @ [last_event g Fi_Length])"
            using passes_full [OF p1 full] by (simp add: ref_log_def gg j)
        qed (use p1 j s n ch Sent in \<open>auto simp: gg pend_def\<close>)
        with gg show ?thesis by simp
      next
        case False
        with g Sent inv tr show ?thesis by (simp add: Let_def)
      qed
    qed
  qed
qed

text \<open>Then a token that waited for room in the channel.\<close>

lemma on_track_resent:
  assumes po: "en_port env = po" and t: "on_track ids ts g" and pt: "ag_pending_tok g = Some tok"
    and q: "po_try_send (en_port env) (Ge_Token tok) (ag_port g) = (sr, q)"
  shows "case sr of
      Sent \<Rightarrow> if ucast (gc_max_new_tokens (ag_config g)) \<le> ag_generated g
              then fin (retire_port env (g\<lparr>ag_pending_tok := None, ag_port := q\<rparr>) Fi_Length Serving)
              else on_track ids ts (g\<lparr>ag_pending_tok := None, ag_port := q\<rparr>)
    | Full \<Rightarrow> on_track ids ts (g\<lparr>ag_port := q\<rparr>)
    | Closed \<Rightarrow> fin (retire_port env (g\<lparr>ag_pending_tok := None, ag_port := q\<rparr>) Fi_Cancelled Serving)"
proof -
  let ?j = "job (ag_port g)" and ?g = "g\<lparr>ag_pending_tok := None, ag_port := q\<rparr>"
  have qp: "po_try_send po (Ge_Token tok) (ag_port g) = (sr, q)" using q po by simp
  note ch = try_send [OF qp]
  have j: "job q = ?j" using try_job [of "Ge_Token tok" "ag_port g"] qp by simp
  have s: "sent (ag_port g) @ [Ge_Token tok] = map Ge_Token ts" and p: "passes nxt ?j ts"
    and c: "ag_config g = gj_config ?j" "ids = gj_prompt_ids ?j" "ag_prompt_tokens g = of_nat (length ids)"
    and gi: "gen_inv g"
    using t pt by (auto simp: on_track_def pend_def)
  show ?thesis
  proof (cases sr)
    case Full
    with on_track_port [OF t, of q] ch j show ?thesis by simp
  next
    case Closed
    obtain us where us: "ts = us @ [tok]" "sent (ag_port g) = map Ge_Token us"
      using s by (cases ts rule: rev_cases) auto
    have "fin (retire_port env ?g Fi_Cancelled Serving)"
      by (rule retired_with [OF po, of ?g us "[tok]"]) (use us p j ch Closed in \<open>auto simp: pend_def\<close>)
    with Closed show ?thesis by simp
  next
    case Sent
    then have sq: "sent q = map Ge_Token ts" using ch s by simp
    show ?thesis
    proof (cases "ucast (gc_max_new_tokens (ag_config g)) \<le> ag_generated g")
      case True
      have full: "length ts = max_tokens ?j"
        using True on_track_count [OF t] p gi c(1) s
        by (auto simp: ucast_le max_tokens_def passes_def) (cases ts; simp)
      have "fin (retire_port env ?g Fi_Length Serving)"
      proof (rule retired_with [OF po, of ?g ts "[]"])
        have "last_event ?g Fi_Length = Ge_Done Fr_Length (usage_for ?j (length ts))"
          using c on_track_generated [OF t] by (simp add: last_event_def finish_event_def usage_for_def Let_def)
        then show "ref_log nxt (job (ag_port ?g)) (map Ge_Token ts @ [last_event ?g Fi_Length])"
          using passes_full [OF p full] by (simp add: ref_log_def j)
      qed (use p j sq in \<open>simp_all add: pend_def\<close>)
      with Sent True show ?thesis by simp
    next
      case False
      have "gen_inv ?g"
      proof -
        have "unat (ag_generated g) < unat (gc_max_new_tokens (gj_config ?j))" using False c(1) by (simp add: ucast_le)
        moreover have "set ts \<inter> set eos_ids = {}"
        proof -
          obtain us where us: "ts = us @ [tok]" "sent (ag_port g) = map Ge_Token us"
            using s by (cases ts rule: rev_cases) auto
          obtain vs where "sent (ag_port g) = map Ge_Token vs" "content vs" "tok \<notin> set eos_ids"
            using gi pt by (auto simp: gen_inv_def)
          moreover from this us have "vs = us" by (simp add: inj_map_eq_map inj_def)
          ultimately show ?thesis using us by (simp add: content_def)
        qed
        ultimately show ?thesis
          using gi sq j on_track_count [OF t] by (auto simp: gen_inv_def content_def limit_def)
      qed
      with False Sent p j sq c show ?thesis by (auto simp: on_track_def pend_def)
    qed
  qed
qed

lemma shutdown_sent:
  assumes po: "en_port env = po" and t: "on_track ids ts g"
  shows "cut (retire_port env g (Fi_Failed e) Shutdown)"
proof -
  let ?j = "job (ag_port g)"
  define p1 where "p1 = (case ag_pending_tok g of None \<Rightarrow> ag_port g
    | Some tok \<Rightarrow> snd (po_try_send po (Ge_Token tok) (ag_port g)))"
  define q where "q = snd (po_try_send po (Ge_Failed e) p1)"
  have try1: "job (snd (po_try_send po ev p)) = job p \<and>
      (sent (snd (po_try_send po ev p)) = sent p \<or> sent (snd (po_try_send po ev p)) = sent p @ [ev])" for ev p
  proof -
    obtain sr p' where b: "po_try_send po ev p = (sr, p')" by (cases "po_try_send po ev p")
    then show ?thesis using try_send [OF b] try_job [of ev p] by (cases sr) auto
  qed
  have s: "sent (ag_port g) @ pend g = map Ge_Token ts" and p: "passes nxt ?j ts"
    using t by (simp_all add: on_track_def)
  have "job p1 = ?j \<and> (\<exists>us vs. sent p1 = map Ge_Token us \<and> ts = us @ vs)"
  proof (cases "ag_pending_tok g")
    case None
    with s show ?thesis by (auto simp: p1_def pend_def)
  next
    case (Some tok)
    obtain us where us: "ts = us @ [tok]" "sent (ag_port g) = map Ge_Token us"
      using s Some by (cases ts rule: rev_cases) (auto simp: pend_def)
    with try1 [of "Ge_Token tok" "ag_port g"] Some show ?thesis
      by (auto simp: p1_def intro: exI [of _ us] exI [of _ "us @ [tok]"])
  qed
  then obtain us vs where u: "job p1 = ?j" "sent p1 = map Ge_Token us" "ts = us @ vs" by blast
  have "ref_cut nxt ?j (map Ge_Token us)" using prefix_cut [of nxt ?j us vs] p u(3) by simp
  then obtain n where n: "map Ge_Token us = map Ge_Token (take n (fst (reply_of nxt ?j)))" by (auto simp: ref_cut_def)
  have "retire_port env g (Fi_Failed e) Shutdown = q"
    by (simp add: retire_port_def send_by_mode_def po q_def p1_def finish_event_def split: option.split)
  moreover have "sent q = map Ge_Token us \<or> sent q = map Ge_Token us @ [Ge_Failed e]" "job q = ?j"
    using try1 [of "Ge_Failed e" p1] u by (auto simp: q_def)
  ultimately show ?thesis
    using n unfolding cut_def ref_log_def ref_cut_def by (auto split: prod.splits)
qed

lemma contract:
  assumes po: "en_port env = po" and ops: "en_ops env = traced ops"
  shows "stream_contract env ops (\<lambda>ids ts c t. t = nxt ids ts c) on_track fin cut fresh_job"
proof (unfold_locales, goal_cases)
  case 1
  show ?case by (rule ops)
next
  case (4 ids ts g c q)
  then have q: "po_cancelled po (ag_port g) = (c, q)" using po by simp
  have "on_track ids ts (g\<lparr>ag_port := q\<rparr>)"
    using on_track_port [OF 4(1), of q] cancelled [OF q] cancelled_job [of "ag_port g"] q by simp
  with on_track_early [OF po this] show ?case by blast
next
  case 5
  then show ?case using on_track_resent [OF po] by blast
next
  case 6
  then show ?case using on_track_fed [OF po] by blast
next
  case 7
  then show ?case using on_track_early [OF po] by blast
next
  case (8 j s)
  then show ?case
    by (simp add: on_track_def new_gen_def fresh_job_def pend_def gen_inv_def content_def)
next
  case (9 j e)
  then show ?case
    using sent_blocking [of "Ge_Failed e" "job_port j"] po
    by (auto simp: fresh_job_def fin_def ref_log_def ref_cut_def intro: exI [of _ 0] split: prod.splits)
next
  case 11
  then show ?case using shutdown_sent [OF po] by blast
qed (auto simp: on_track_def pend_def fin_def cut_def)

end

subsection \<open>Whole runs\<close>

text \<open>C1: Every client gets the generation of its own prompt. Let the engine be one whose solo and batch steps produce, for each session, the next token \<open>nxt\<close> of the prompt and the tokens that session has seen since its reset. Then, whatever the other requests are, whether a stream is stepped alone, in a batch, in a fallback, held back or made to wait by a slow receiver: every ended job's channel received exactly the reference generation of its own prompt with its own configuration, cut at the first end-of-sequence token or at \<open>max_new_tokens\<close>, with the right reason and counts; or, if it was cancelled or failed, a prefix of it. A missing terminal event means that the receiver was gone, or the scheduler shut down.\<close>

theorem clients_get_reference:
  assumes "job_channel (en_port env) sent closed job"
    and "\<forall>(rx, c) \<in> set ins. \<forall>j. rx = Rx_Job j \<longrightarrow> sent (job_port j) = [] \<and> job (job_port j) = job_inner j"
    and "en_ops env = traced ops" "worker_run env ins (worker_init (e, []) m) = (b, w)"
    and "judge (\<lambda>ids ts c t. t = nxt ids ts c) gv_start (snd (wk_eng w)) \<noteq> Engine_Fault" "p \<in> set (wk_done w)"
  shows "ref_log nxt (job p) (sent p) \<or> (b \<longrightarrow> closed p) \<and> ref_cut nxt (job p) (sent p)"
proof -
  note sc = job_channel.contract [OF assms(1) refl assms(3), of nxt]
  have "stream_contract.settled (\<lambda>ids ts c t. t = nxt ids ts c) (job_channel.fin sent closed job nxt)
      (job_channel.cut sent job nxt) b w"
    by (rule stream_contract.run_settled [OF sc _ assms(4)])
       (use assms(2) in \<open>auto simp: job_channel.fresh_job_def [OF assms(1)]\<close>)
  then show ?thesis
    using assms(5,6)
    by (auto simp: stream_contract.settled_def [OF sc] job_channel.fin_def [OF assms(1)]
        job_channel.cut_def [OF assms(1)] split: verdict.splits if_splits)
qed

subsection \<open>The mock engine, and a run with a batch\<close>

text \<open>The bounded queue carries its job, read off its tag; with it and the traced mock engine every
  operation of the worker keeps the contract.\<close>

interpretation fifo_jobs: job_channel fifo_ops fp_sent fp_closed "\<lambda>p. f (fp_tag p)" nxt
  for f :: "u32 \<Rightarrow> generation_job" and nxt :: next_token
  by unfold_locales
     (auto simp: fifo_ops_def fifo_try_send_def fifo_blocking_send_def fifo_cancelled_def Let_def
           simp del: receiver_act.simps split: if_splits)

definition traced_env :: "nat \<Rightarrow> (mock_world \<times> (nat, unit) gcall list, nat, unit, fifo_port) env" where
  "traced_env n =
     \<lparr>en_ops = traced mock_ops, en_port = fifo_ops, en_clock = id, en_wall_ms = (\<lambda>_. 0),
      en_max_sessions = n, en_queue_timeout = 1000, en_batching = True\<rparr>"

interpretation mock_streams: stream_contract "traced_env n" mock_ops "\<lambda>ids ts c t. t = nxt ids ts c"
  "fifo_jobs.on_track f nxt" "fifo_jobs.fin f nxt" "fifo_jobs.cut f nxt" "fifo_jobs.fresh_job f"
  for n f nxt
  by (rule fifo_jobs.contract) (simp_all add: traced_env_def)

text \<open>An engine with batch groups whose sessions count: prompt \<open>[n]\<close> generates \<open>10 n\<close>, \<open>10 n + 1\<close>, \<dots>
  Two greedy jobs meet in a group, the second goes on alone.\<close>

type_synonym duo = "(i32 list \<times> nat) list"

definition duo_next :: next_token where
  "duo_next ids ts c = 10 * hd ids + of_nat (length ts)"

definition duo_token :: "duo \<Rightarrow> nat \<Rightarrow> i32" where
  "duo_token e s = 10 * hd (fst (e ! s)) + of_nat (snd (e ! s))"

definition duo_bump :: "nat \<Rightarrow> duo \<Rightarrow> duo" where
  "duo_bump s e = e[s := (fst (e ! s), snd (e ! s) + 1)]"

definition duo_batch :: "(duo, nat, nat) batch_ops" where
  "duo_batch =
     \<lparr>bo_create = (\<lambda>o1 e. (Inr 0, e)), bo_add = (\<lambda>g s e. (Inr (of_nat s), e)),
      bo_remove = (\<lambda>g x e. (Inr (), e)),
      bo_step = (\<lambda>g xs cs e. (Inr (map (\<lambda>x. duo_token e (unat x)) xs), fold (\<lambda>x. duo_bump (unat x)) xs e)),
      bo_drop = (\<lambda>g e. e)\<rparr>"

definition duo_ops :: "(duo, nat, nat) engine_ops" where
  "duo_ops =
     \<lparr>eo_create = (\<lambda>e. (Inr (length e), e @ [([], 0)])),
      eo_prefill = (\<lambda>s ids e. (Inr (), e[s := (fst (e ! s) @ ids, 0)])),
      eo_decode = (\<lambda>s c e. (Inr (duo_token e s), duo_bump s e)),
      eo_reset = (\<lambda>s e. (Inr (), e[s := ([], 0)])),
      eo_stats = (\<lambda>s e. (Inl ''none'', e)), eo_drop = (\<lambda>s e. e), eo_batch = Some duo_batch\<rparr>"

definition duo_env :: "(duo \<times> (nat, nat) gcall list, nat, nat, fifo_port) env" where
  "duo_env =
     \<lparr>en_ops = traced duo_ops, en_port = fifo_ops, en_clock = id, en_wall_ms = (\<lambda>_. 0),
      en_max_sessions = 2, en_queue_timeout = 9, en_batching = True\<rparr>"

definition duo_gen :: "u32 \<Rightarrow> generation_job" where
  "duo_gen n = \<lparr>gj_prompt_ids = [if n = 2 then 5 else 6],
     gj_config = \<lparr>gc_max_new_tokens = n, gc_temperature = 0, gc_top_p = 0, gc_top_k = 1, gc_repetition_penalty = 0, gc_seed = 0\<rparr>\<rparr>"

definition duo_job :: "u32 \<Rightarrow> fifo_port job" where
  "duo_job n = \<lparr>job_inner = duo_gen n, job_port = fifo_new 8 n [], job_enqueued_at = 0\<rparr>"

definition duo_start :: "(duo \<times> (nat, nat) gcall list, nat, nat, fifo_port) worker" where
  "duo_start = worker_init ([], []) metrics_default"

definition duo_ins :: "(fifo_port recv \<times> bool) list" where
  "duo_ins = [(Rx_Job (duo_job 2), False), (Rx_Job (duo_job 3), False), (Rx_Empty, False), (Rx_Empty, False), (Rx_Empty, False)]"

lemma duo_traced:
  "eo_create (traced duo_ops) w = (Inr (length (fst w)), fst w @ [([], 0)], snd w @ [Gc_New (length (fst w))])"
  "eo_prefill (traced duo_ops) s ids w = (Inr (), (fst w)[s := (fst (fst w ! s) @ ids, 0)], snd w @ [Gc_Prefill s ids True])"
  "eo_decode (traced duo_ops) s c w =
     (Inr (duo_token (fst w) s), duo_bump s (fst w), snd w @ [Gc_Decode s c (Some (duo_token (fst w) s))])"
  "eo_reset (traced duo_ops) s w = (Inr (), (fst w)[s := ([], 0)], snd w @ [Gc_Reset s True])"
  "eo_stats (traced duo_ops) s w = (Inl ''none'', fst w, snd w @ [Gc_Stats s])"
  "eo_drop (traced duo_ops) s w = (fst w, snd w @ [Gc_Free s])"
  "eo_batch (traced duo_ops) = Some (traced_batch duo_batch)"
  by (simp_all add: traced_def duo_ops_def Let_def succeeded_def ok_part_def)

lemma duo_traced_batch:
  "bo_create (traced_batch duo_batch) o1 w = (Inr 0, fst w, snd w @ [Gc_Open (Some 0)])"
  "bo_add (traced_batch duo_batch) g s w = (Inr (of_nat s), fst w, snd w @ [Gc_Join g s (Some (of_nat s))])"
  "bo_remove (traced_batch duo_batch) g x w = (Inr (), fst w, snd w @ [Gc_Leave g x])"
  "bo_step (traced_batch duo_batch) g xs cs w =
     (Inr (map (\<lambda>x. duo_token (fst w) (unat x)) xs), fold (\<lambda>x. duo_bump (unat x)) xs (fst w),
      snd w @ [Gc_Batch g xs cs (Some (map (\<lambda>x. duo_token (fst w) (unat x)) xs))])"
  "bo_drop (traced_batch duo_batch) g w = (fst w, snd w @ [Gc_Close g])"
  by (simp_all add: traced_batch_def duo_batch_def Let_def ok_part_def step_result_of_def)

lemmas duo_defs = duo_env_def duo_job_def duo_gen_def duo_traced duo_traced_batch duo_token_def duo_bump_def

lemmas duo_eval =
  duo_ins_def duo_start_def worker_iter_def intake_def take_session_def prefill_job_def prefill_us_of_def
  step_def decode_and_feed_def quantum_def hold_lone_def sort_gens.simps want_batch_def batching_on_def
  is_greedy_def max_batch_slots_def max_batch_slots_cap_def demo_defs duo_defs new_gen_def batch_phase_def
  run_batch_def try_batch_def ensure_group_def settle_def feed_token_def now_def push_active_def release_group_def
  wk_simps retire_view retire_port_def demote_from_group_def group_remove_def send_by_mode_def finish_event_def
  return_session_def reset_ignored_def word_le_nat_alt

definition duo_calls :: "(nat, nat) gcall list" where
  "duo_calls =
     [Gc_New 0, Gc_Reset 0 True, Gc_Stats 0, Gc_Prefill 0 [5] True, Gc_Stats 0,
      Gc_New 1, Gc_Reset 1 True, Gc_Stats 1, Gc_Prefill 1 [6] True, Gc_Stats 1,
      Gc_Open (Some 0), Gc_Join 0 0 (Some 0), Gc_Join 0 1 (Some 1),
      Gc_Batch 0 [0, 1] [gj_config (duo_gen 2), gj_config (duo_gen 3)] (Some [50, 60]),
      Gc_Batch 0 [0, 1] [gj_config (duo_gen 2), gj_config (duo_gen 3)] (Some [51, 61]),
      Gc_Leave 0 0, Gc_Reset 0 True, Gc_Leave 0 1,
      Gc_Decode 1 (gj_config (duo_gen 3)) (Some 62), Gc_Reset 1 True, Gc_Close 0]"

lemma duo_run:
  "fst (worker_run duo_env duo_ins duo_start)"
  "snd (wk_eng (snd (worker_run duo_env duo_ins duo_start))) = duo_calls"
  "map fp_sent (wk_done (snd (worker_run duo_env duo_ins duo_start))) =
     [[Ge_Token 50, Ge_Token 51, Ge_Done Fr_Length (usage_for (duo_gen 2) 2)],
      [Ge_Token 60, Ge_Token 61, Ge_Token 62, Ge_Done Fr_Length (usage_for (duo_gen 3) 3)]]"
  "map fp_tag (wk_done (snd (worker_run duo_env duo_ins duo_start))) = [2, 3]"
  by (simp_all add: duo_eval duo_calls_def usage_for_def Let_def cong: let_weak_cong)

lemma duo_exit:
  "worker_run duo_env (duo_ins @ [(Rx_Disconnected, False)]) duo_start =
     (False, worker_exit duo_env (snd (worker_run duo_env duo_ins duo_start)))"
  "snd (wk_eng (worker_exit duo_env (snd (worker_run duo_env duo_ins duo_start)))) = duo_calls @ [Gc_Free 0, Gc_Free 1]"
  by (simp_all add: duo_eval duo_calls_def worker_exit_def Let_def cong: let_weak_cong)

lemma duo_no_fault:
  "\<exists>v. judge (\<lambda>ids ts c t. t = duo_next ids ts c) gv_start duo_calls = Fine v"
  "\<exists>v. judge (\<lambda>_ _ _ _. True) gv_start (duo_calls @ [Gc_Free 0, Gc_Free 1]) = Fine v \<and> gv_live v = {}"
  by (auto simp: duo_calls_def gv_start_def alone_def put_seq_def grow_def next_ok_def duo_next_def image_iff)


theorem clients_get_reference_witness:
  "ref_log duo_next (duo_gen 3)
     [Ge_Token 60, Ge_Token 61, Ge_Token 62, Ge_Done Fr_Length (usage_for (duo_gen 3) 3)]"
proof -
  let ?w = "snd (worker_run duo_env duo_ins duo_start)" and ?job = "\<lambda>p. duo_gen (fp_tag p)"
  obtain p q where pq: "wk_done ?w = [q, p]" using duo_run(4) by (auto simp: map_eq_Cons_conv)
  then have p: "fp_sent p = [Ge_Token 60, Ge_Token 61, Ge_Token 62, Ge_Done Fr_Length (usage_for (duo_gen 3) 3)]"
    "fp_tag p = 3" "p \<in> set (wk_done ?w)"
    using duo_run(3,4) by simp_all
  have "worker_run duo_env duo_ins (worker_init ([], []) metrics_default) = (True, ?w)"
    using duo_run(1) by (metis duo_start_def prod.collapse)
  then have "ref_log duo_next (?job p) (fp_sent p) \<or> (True \<longrightarrow> fp_closed p) \<and> ref_cut duo_next (?job p) (fp_sent p)"
  proof (rule clients_get_reference [of duo_env fp_sent fp_closed ?job duo_ins duo_ops, rotated 3])
    show "job_channel (en_port duo_env) fp_sent fp_closed ?job"
      using fifo_jobs.job_channel_axioms by (simp add: duo_env_def)
    show "judge (\<lambda>ids ts c t. t = duo_next ids ts c) gv_start (snd (wk_eng ?w)) \<noteq> Engine_Fault"
      using duo_no_fault(1) by (auto simp: duo_run(2))
  qed (use p in \<open>auto simp: duo_ins_def duo_job_def fifo_new_def duo_env_def\<close>)
  moreover have "\<not> ref_cut duo_next (?job p) (fp_sent p)" by (auto simp: ref_cut_def p map_eq_Cons_conv Cons_eq_map_conv)
  ultimately show ?thesis by (simp add: p)
qed

end
