(* ===== verification/System_Reference.thy ===== *)
theory System_Reference
  imports Worker_Reference Scheduler_System_Props
begin

section \<open>The whole scheduler against the reference\<close>

text \<open>
  The contract of \<open>Worker_Protocol\<close> lifted from runs of the worker to the reachable states of the
  system: any number of threads that submit at any time, every interleaving with the worker, and the
  shutdown at any moment. Submitting threads touch the waiting counter, the gauge and the clock only,
  so they leave the contract alone. With the job channels of \<open>Worker_Reference\<close> this says what every
  client has been sent in every state.
\<close>

context stream_contract
begin

text \<open>A caller hands in a job that meets the contract, whenever it is sent.\<close>

definition callers_ok :: "('e \<times> ('s, 'g) gcall list, 's, 'g, 'c) sys \<Rightarrow> bool" where
  "callers_ok s \<longleftrightarrow>
     (\<forall>b \<in> set (sy_threads s). \<forall>t. jok \<lparr>job_inner = sb_job b, job_port = sb_port b, job_enqueued_at = t\<rparr>)"

definition sys_good :: "('e \<times> ('s, 'g) gcall list, 's, 'g, 'c) sys \<Rightarrow> bool" where
  "sys_good s \<longleftrightarrow>
     (\<forall>j \<in> set (rx_jobs (sy_rx s) @ sy_queue s). jok j) \<and>
     (if sy_running s then wgood fin (sy_worker s) {#} {#}
      else settled False (sy_worker s) \<and> wk_active (sy_worker s) = [])"

lemma settled_cong: "wk_eng w' = wk_eng w \<Longrightarrow> wk_done w' = wk_done w \<Longrightarrow> settled b w' = settled b w"
  by (simp add: settled_def split: verdict.split)

lemma wgood_settled: "wgood fin w {#} {#} \<Longrightarrow> settled True w"
  by (auto simp: settled_def wgood_def good_def agrees_def split: verdict.splits)

lemma exit_settled:
  assumes "wgood cut w {#} {#}" "wk_active w = []"
  shows "settled False (worker_exit env w)"
proof -
  have "wk_done (worker_exit env w) = wk_done w" by (simp add: worker_exit_def with_met_def Let_def)
  with wgood_exit [OF assms] show ?thesis
    by (auto simp: settled_def good_def agrees_def Worker_Protocol.held_def split: verdict.splits)
qed

lemma submit_step_good:
  assumes "submit_step env limit b s = (pc, s1)" "sys_good s"
    and "\<And>t. jok \<lparr>job_inner = sb_job b, job_port = sb_port b, job_enqueued_at = t\<rparr>"
  shows "sys_good s1"
proof -
  have w: "wk_eng (sy_worker s1) = wk_eng (sy_worker s)" "wk_idle (sy_worker s1) = wk_idle (sy_worker s)"
    "wk_active (sy_worker s1) = wk_active (sy_worker s)" "wk_group (sy_worker s1) = wk_group (sy_worker s)"
    "wk_done (sy_worker s1) = wk_done (sy_worker s)" "sy_running s1 = sy_running s" "sy_rx s1 = sy_rx s"
    using assms(1) by (auto simp: submit_step_def submit_raw_def now_def set_waiting_def with_met_def Let_def
        split: submit_pc.splits if_splits)
  have "set (sy_queue s1) \<subseteq> set (sy_queue s) \<union> {j. \<exists>t. j = \<lparr>job_inner = sb_job b, job_port = sb_port b, job_enqueued_at = t\<rparr>}"
    using assms(1) by (auto simp: submit_step_def submit_raw_def now_def set_waiting_def with_met_def Let_def
        split: submit_pc.splits if_splits)
  then show ?thesis
    using assms(2,3) w wgood_cong [OF w(1-5)] settled_cong [OF w(1,5)] by (auto simp: sys_good_def)
qed

lemma loop_turn_good:
  assumes "sys_good s" "sy_running s"
  shows "sys_good (loop_turn env s)"
proof -
  let ?rx = "case sy_rx s of None \<Rightarrow> Rx_Empty | Some r \<Rightarrow> r"
  obtain go w where it: "worker_iter env ?rx (sy_closing s) (sy_worker s) = (go, w)" by fastforce
  have "\<forall>j. ?rx = Rx_Job j \<longrightarrow> jok j"
    using assms(1) by (cases "sy_rx s"; cases "the (sy_rx s)") (auto simp: sys_good_def)
  moreover have "wgood fin (sy_worker s) {#} {#}" using assms by (simp add: sys_good_def)
  ultimately have k: "if go then wgood fin w {#} {#} else wgood cut w {#} {#} \<and> wk_active w = []"
    using wgood_iter it by blast
  have q: "\<forall>j \<in> set (sy_queue s). jok j" using assms(1) by (simp add: sys_good_def)
  show ?thesis
    using k it q exit_settled [of w]
    by (cases go) (simp_all add: sys_good_def loop_turn_def worker_exit_def with_met_def Let_def)
qed

lemma callers_before: "sys_do env limit l s = Some s' \<Longrightarrow> callers_ok s' \<Longrightarrow> callers_ok s"
proof (cases l)
  case (L_Thread i)
  assume a: "sys_do env limit l s = Some s'" "callers_ok s'"
  then obtain pc where s': "sy_threads s' = (sy_threads s)[i := (sy_threads s ! i)\<lparr>sb_pc := pc\<rparr>]" "i < length (sy_threads s)"
    using L_Thread by (auto simp: Let_def split: if_splits prod.splits)
  show ?thesis unfolding callers_ok_def
  proof (intro ballI allI)
    fix b t assume "b \<in> set (sy_threads s)"
    then obtain k where k: "k < length (sy_threads s)" "b = sy_threads s ! k" by (metis in_set_conv_nth)
    have "sy_threads s' ! k \<in> set (sy_threads s')" using k s' by simp
    moreover have "sb_job (sy_threads s' ! k) = sb_job b" "sb_port (sy_threads s' ! k) = sb_port b"
      using k s' by (cases "k = i"; simp)+
    ultimately show "jok \<lparr>job_inner = sb_job b, job_port = sb_port b, job_enqueued_at = t\<rparr>"
      using a(2) by (metis callers_ok_def)
  qed
qed (auto simp: callers_ok_def loop_turn_def Let_def split: if_splits prod.splits)

lemma sys_do_good:
  assumes "sys_do env limit l s = Some s'" "sys_good s" "callers_ok s"
  shows "sys_good s'"
proof (cases l)
  case (L_Thread i)
  then obtain pc s1 where st: "submit_step env limit (sy_threads s ! i) s = (pc, s1)" "i < length (sy_threads s)"
    "s' = s1\<lparr>sy_threads := (sy_threads s)[i := (sy_threads s ! i)\<lparr>sb_pc := pc\<rparr>]\<rparr>"
    using assms(1) by (auto simp: Let_def split: if_splits prod.splits)
  have "sys_good s1" by (rule submit_step_good [OF st(1) assms(2)]) (use assms(3) st(2) in \<open>auto simp: callers_ok_def\<close>)
  then show ?thesis by (simp add: st(3) sys_good_def)
next
  case L_Recv
  then obtain r q where r: "channel_recv s = Some (r, q)" "s' = s\<lparr>sy_rx := Some r, sy_queue := q\<rparr>"
    using assms(1) by (auto split: if_splits)
  have "rx_jobs (Some r) @ q = sy_queue s"
    using r(1) by (auto simp: channel_recv_def split: list.splits if_splits)
  then have "set (rx_jobs (Some r) @ q) = set (sy_queue s)" by simp
  with assms(2) r(2) show ?thesis by (auto simp: sys_good_def)
next
  case L_Loop
  with assms loop_turn_good show ?thesis by (auto split: if_splits)
qed (use assms in \<open>auto simp: sys_good_def split: if_splits\<close>)

lemma reach_good:
  "sys_reach env limit s0 s \<Longrightarrow> with_config cfg (e, []) m = Some s0 \<Longrightarrow> callers_ok s \<Longrightarrow> sys_good s"
proof (induction rule: sys_reach.induct)
  case start
  then show ?case
    by (auto simp: with_config_def sys_good_def wgood_def worker_init_def good_def agrees_def gv_start_def Worker_Protocol.held_def
        split: if_splits)
next
  case (move s l s')
  with sys_do_good callers_before show ?case by blast
qed

text \<open>What holds of each stream and each ended job while the engine has kept its part.\<close>

lemma reach_streams:
  assumes "sys_reach env limit s0 s" "with_config cfg (e, []) m = Some s0" "callers_ok s"
    and "judge right gv_start (snd (wk_eng (sy_worker s))) \<noteq> Engine_Fault"
  shows "\<forall>g \<in> set (wk_active (sy_worker s)). \<exists>ids ts. fits ids ts g"
    and "\<forall>p \<in> set (wk_done (sy_worker s)). if sy_running s then fin p else cut p"
    and "\<forall>j \<in> set (rx_jobs (sy_rx s) @ sy_queue s). jok j"
proof -
  have g: "sys_good s" by (rule reach_good [OF assms(1-3)])
  obtain v where v: "judge right gv_start (snd (wk_eng (sy_worker s))) = Fine v"
  proof (cases "judge right gv_start (snd (wk_eng (sy_worker s)))")
    case Scheduler_Fault
    with g have False by (auto simp: sys_good_def wgood_def good_def settled_def split: if_splits)
    then show ?thesis ..
  qed (use assms(4) that in auto)
  show "\<forall>j \<in> set (rx_jobs (sy_rx s) @ sy_queue s). jok j" using g by (simp add: sys_good_def)
  show "\<forall>p \<in> set (wk_done (sy_worker s)). if sy_running s then fin p else cut p"
    using g v by (auto simp: sys_good_def wgood_def good_def agrees_def settled_def split: if_splits)
  show "\<forall>g \<in> set (wk_active (sy_worker s)). \<exists>ids ts. fits ids ts g"
    using g v by (fastforce simp: sys_good_def wgood_def good_def agrees_def split: if_splits)
qed

end

subsection \<open>Every client, in every state\<close>

text \<open>C1: In every reachable state of the scheduler, whatever threads submit and however their steps interleave with the worker, with a shutdown at any moment: every client has been sent the reference generation of its own prompt, or a prefix of it. A job that has ended got the whole of it with the right reason and counts (or was cancelled or failed part way), unless its receiver was gone or the worker stopped; a job that is active got a prefix; a job that waits got nothing yet and still is the job that was submitted. The engine is assumed to produce, for each session, the next token \<open>nxt\<close> of the prompt and the tokens of that session.\<close>

theorem system_gives_reference:
  assumes "job_channel (en_port env) sent closed job" "en_ops env = traced ops"
    and "with_config cfg (e, []) m = Some s0" "sys_reach env limit s0 s"
    and "\<forall>b \<in> set (sy_threads s). sent (sb_port b) = [] \<and> job (sb_port b) = sb_job b"
    and "judge (\<lambda>ids ts c t. t = nxt ids ts c) gv_start (snd (wk_eng (sy_worker s))) \<noteq> Engine_Fault"
  shows "(\<forall>p \<in> set (wk_done (sy_worker s)).
       ref_log nxt (job p) (sent p) \<or> (sy_running s \<longrightarrow> closed p) \<and> ref_cut nxt (job p) (sent p)) \<and>
    (\<forall>g \<in> set (wk_active (sy_worker s)). ref_cut nxt (job (ag_port g)) (sent (ag_port g))) \<and>
    (\<forall>j \<in> set (rx_jobs (sy_rx s) @ sy_queue s). job (job_port j) = job_inner j \<and> sent (job_port j) = [])"
proof -
  note sc = job_channel.contract [OF assms(1) refl assms(2), of nxt]
  have c: "stream_contract.callers_ok (job_channel.fresh_job sent job) s"
    using assms(5) by (simp add: stream_contract.callers_ok_def [OF sc] job_channel.fresh_job_def [OF assms(1)])
  note r = stream_contract.reach_streams [OF sc assms(4,3) c assms(6)]
  have "ref_cut nxt (job (ag_port g)) (sent (ag_port g))" if g: "g \<in> set (wk_active (sy_worker s))" for g
  proof -
    obtain ids ts where t: "job_channel.on_track sent job nxt ids ts g" using r(1) g by blast
    then have p: "passes nxt (job (ag_port g)) ts"
      and e: "sent (ag_port g) @ job_channel.pend g = map Ge_Token ts"
      by (simp_all add: job_channel.on_track_def [OF assms(1)])
    then obtain us vs where "sent (ag_port g) = map Ge_Token us" "ts = us @ vs" by (metis map_eq_append_conv)
    with p prefix_cut [of nxt "job (ag_port g)" us vs] show ?thesis by simp
  qed
  with r(2,3) show ?thesis
    by (auto simp: job_channel.fin_def [OF assms(1)] job_channel.cut_def [OF assms(1)]
        job_channel.fresh_job_def [OF assms(1)] split: if_splits)
qed

text \<open>One session of the mock, two calls; the first job runs to its end.\<close>

definition mock_next :: "i32 list \<Rightarrow> next_token" where
  "mock_next sc ids ts c = (if length ts < length sc then sc ! length ts else mock_eos)"

definition traced_start :: "(mock_world \<times> (nat, unit) gcall list, nat, unit, fifo_port) sys" where
  "traced_start = the (with_config demo_cfg (mock_with_script [101, 102, 103], []) metrics_default)"

lemmas traced_eval =
  traced_start_def demo_two_def demo_call_def demo_gen_job_def demo_cfg_def with_config_def traced_env_def
  submit_step_def submit_raw_def set_waiting_def sys_waiting_def queue_full_def
  receives_def channel_recv_def now_def with_met_def demo_defs

definition sent_at :: "nat \<Rightarrow> fifo_port job" where
  "sent_at t = \<lparr>job_inner = demo_gen_job, job_port = fifo_new 8 2 [], job_enqueued_at = t\<rparr>"

definition traced_two :: "(mock_world \<times> (nat, unit) gcall list, nat, unit, fifo_port) sys" where
  "traced_two =
     traced_start\<lparr>sy_worker := (worker_init (mock_with_script [101, 102, 103], [])
         (metrics_default\<lparr>queue_depth := 2\<rparr>))\<lparr>wk_waiting := 2, wk_reads := 2\<rparr>,
       sy_rx := Some (Rx_Job (sent_at 0)), sy_queue := [sent_at 1],
       sy_threads := map (\<lambda>f. \<lparr>sb_job = demo_gen_job, sb_port = fifo_new 8 2 [], sb_forced = f, sb_pc = Pc_Sent\<rparr>) [False, True],
       sy_sent := [sent_at 0, sent_at 1]\<rparr>"

lemma traced_two: "sys_run (traced_env 1) 1 (demo_two @ [L_Recv]) traced_start = Some traced_two"
  by (simp add: traced_eval traced_two_def sent_at_def Let_def numeral_eq_Suc)

definition traced_ins :: "(fifo_port recv \<times> bool) list" where
  "traced_ins = [(Rx_Job (sent_at 0), False), (Rx_Empty, False)]"

definition mock_calls :: "(nat, unit) gcall list" where
  "mock_calls =
     [Gc_New 0, Gc_Reset 0 True, Gc_Stats 0, Gc_Prefill 0 [5, 6] True, Gc_Stats 0,
      Gc_Decode 0 (gj_config demo_gen_job) (Some 101), Gc_Decode 0 (gj_config demo_gen_job) (Some 102), Gc_Reset 0 True]"

lemma traced_worker:
  "fst (worker_run (traced_env 1) traced_ins (sy_worker traced_two))"
  "snd (wk_eng (snd (worker_run (traced_env 1) traced_ins (sy_worker traced_two)))) = mock_calls"
  "map fp_sent (wk_done (snd (worker_run (traced_env 1) traced_ins (sy_worker traced_two)))) =
     [[Ge_Token 101, Ge_Token 102, Ge_Done Fr_Length (usage_for demo_gen_job 2)]]"
  "map fp_closed (wk_done (snd (worker_run (traced_env 1) traced_ins (sy_worker traced_two)))) = [False]"
  "map fp_tag (wk_done (snd (worker_run (traced_env 1) traced_ins (sy_worker traced_two)))) = [2]"
  by (simp_all add: duo_eval traced_ins_def traced_two_def traced_env_def sent_at_def mock_calls_def usage_for_def demo_gen_job_def
      traced_def succeeded_def ok_part_def Let_def cong: let_weak_cong)

lemma loop_twice:
  assumes "sy_rx s = Some (Rx_Job j)" "\<not> sy_closing s"
    and "worker_run env [(Rx_Job j, False), (Rx_Empty, False)] (sy_worker s) = (True, w)"
  shows "sy_worker (loop_turn env (loop_turn env s)) = w" "sy_running (loop_turn env (loop_turn env s))"
  using assms by (auto simp: loop_turn_def Let_def split: prod.splits bool.splits)

lemma traced_first:
  "length (wk_active (snd (worker_iter (traced_env 1) (Rx_Job (sent_at 0)) False (sy_worker traced_two)))) = 1"
  by (simp add: duo_eval traced_two_def traced_env_def sent_at_def demo_gen_job_def
      traced_def succeeded_def ok_part_def Let_def cong: let_weak_cong)

theorem system_gives_reference_witness:
  "ref_log (mock_next [101, 102, 103]) demo_gen_job
     [Ge_Token 101, Ge_Token 102, Ge_Done Fr_Length (usage_for demo_gen_job 2)]"
proof -
  let ?E = "traced_env 1" and ?job = "\<lambda>p. demo_gen_job"
  let ?s1 = "loop_turn ?E traced_two" and ?w = "snd (worker_run (traced_env 1) traced_ins (sy_worker traced_two))"
  let ?s2 = "loop_turn ?E ?s1"
  have t: "sy_rx traced_two = Some (Rx_Job (sent_at 0))" "\<not> sy_closing traced_two" "sy_running traced_two"
    by (simp_all add: traced_two_def traced_start_def with_config_def demo_cfg_def)
  have run: "worker_run ?E [(Rx_Job (sent_at 0), False), (Rx_Empty, False)] (sy_worker traced_two) = (True, ?w)"
    using traced_worker(1) unfolding traced_ins_def by (metis prod.collapse)
  note s2 = loop_twice [OF t(1,2) run]
  have r1: "sy_running ?s1" "sy_rx ?s1 = None" "\<not> receives ?E (sy_worker ?s1)"
  proof -
    obtain b v where i: "worker_iter ?E (Rx_Job (sent_at 0)) False (sy_worker traced_two) = (b, v)" by fastforce
    with run have b by (auto split: bool.splits)
    with i t traced_first show "sy_running ?s1" "sy_rx ?s1 = None" "\<not> receives ?E (sy_worker ?s1)"
      by (auto simp: loop_turn_def receives_def traced_env_def)
  qed
  have "sys_reach ?E 1 traced_start traced_two" by (rule sys_run_reach [OF sys_reach.start traced_two])
  then have "sys_reach ?E 1 traced_start ?s1" by (rule sys_reach.move [where l = L_Loop]) (simp add: t)
  then have reach: "sys_reach ?E 1 traced_start ?s2" by (rule sys_reach.move [where l = L_Loop]) (simp add: r1 del: One_nat_def)
  have start: "with_config demo_cfg (mock_with_script [101, 102, 103], []) metrics_default = Some traced_start"
    by (simp add: traced_start_def with_config_def demo_cfg_def)
  have callers: "\<forall>b \<in> set (sy_threads ?s2). fp_sent (sb_port b) = [] \<and> demo_gen_job = sb_job b"
    by (simp add: loop_turn_fields traced_two_def fifo_new_def)
  obtain p where p: "wk_done ?w = [p]" "fp_sent p = [Ge_Token 101, Ge_Token 102, Ge_Done Fr_Length (usage_for demo_gen_job 2)]"
    "\<not> fp_closed p" using traced_worker(3,4) by (auto simp: map_eq_Cons_conv)
  have ch: "job_channel (en_port ?E) fp_sent fp_closed ?job"
    using fifo_jobs.job_channel_axioms [of "\<lambda>_. demo_gen_job"] by (simp add: traced_env_def)
  have ops: "en_ops ?E = traced mock_ops" by (simp add: traced_env_def)
  have honest: "judge (\<lambda>ids ts c t. t = mock_next [101, 102, 103] ids ts c) gv_start (snd (wk_eng (sy_worker ?s2))) \<noteq> Engine_Fault"
    unfolding s2 traced_worker(2)
    by (simp add: mock_calls_def gv_start_def alone_def put_seq_def grow_def next_ok_def mock_next_def)
  from system_gives_reference [OF ch ops start reach callers honest] p
  show ?thesis by (auto simp: s2 simp del: One_nat_def)
qed

end
