(* ===== verification/Tokenizer.thy ===== *)
theory Tokenizer
  imports Json
begin

section \<open>The tokenizer service\<close>

text \<open>
  \<open>minicpm-tokenizer/src/lib.rs\<close>: the wrapper of the \<open>tokenizers\<close> crate and the special tokens it
  resolves at load time. The crate's tokenizer is the parameter \<open>hf_tokenizer\<close>, the files with
  the parsers of their contents the parameter \<open>model_files\<close>; a path is the list of its
  components.
\<close>

type_synonym path = "string list"

definition path_show :: "path \<Rightarrow> string" where
  "path_show p = join_with ''/'' p"

definition path_join :: "path \<Rightarrow> string \<Rightarrow> path" where
  "path_join p x = p @ [x]"

text \<open>\<open>Path::parent\<close>, with \<open>unwrap_or(Path::new("."))\<close>.\<close>

definition path_dir :: "path \<Rightarrow> path" where
  "path_dir p = (if p = [] then [''.''] else butlast p)"

record hf_tokenizer =
  hf_encode :: "string \<Rightarrow> bool \<Rightarrow> string + u32 list"
  hf_decode :: "u32 list \<Rightarrow> bool \<Rightarrow> string + string"
  hf_id_to_token :: "u32 \<Rightarrow> string option"
  hf_token_to_id :: "string \<Rightarrow> u32 option"
  hf_vocab_size :: "bool \<Rightarrow> nat"

record model_files =
  mf_read :: "path \<Rightarrow> string + string"
  mf_tokenizer :: "path \<Rightarrow> string + hf_tokenizer"
  mf_parse :: "string \<Rightarrow> string + json"

datatype tokenizer_error =
    Te_Load path string
  | Te_Io path string
  | Te_Json path string
  | Te_Missing_File path
  | Te_Missing_Field string path
  | Te_Unknown_Special_Token string path
  | Te_Encode string
  | Te_Decode string

fun tokenizer_error_display :: "tokenizer_error \<Rightarrow> string" where
  "tokenizer_error_display (Te_Load p e) = ''failed to load tokenizer from `'' @ path_show p @ ''`: '' @ e"
| "tokenizer_error_display (Te_Io p e) = ''failed to read `'' @ path_show p @ ''`: '' @ e"
| "tokenizer_error_display (Te_Json p e) = ''failed to parse JSON in `'' @ path_show p @ ''`: '' @ e"
| "tokenizer_error_display (Te_Missing_File p) = ''required file `'' @ path_show p @ ''` is missing''"
| "tokenizer_error_display (Te_Missing_Field f p) =
     ''field `'' @ f @ ''` is missing in `'' @ path_show p @ ''`''"
| "tokenizer_error_display (Te_Unknown_Special_Token t p) =
     ''special token `'' @ t @ ''` (from `'' @ path_show p @ ''`) not found in tokenizer vocabulary''"
| "tokenizer_error_display (Te_Encode e) = ''encode failed: '' @ e"
| "tokenizer_error_display (Te_Decode e) = ''decode failed: '' @ e"

record special_token_ids =
  sp_bos :: u32
  sp_eos :: "u32 list"
  sp_pad :: u32

record tokenizer_service =
  ts_tokenizer :: hf_tokenizer
  ts_special :: special_token_ids

definition read_json :: "model_files \<Rightarrow> path \<Rightarrow> tokenizer_error + json" where
  "read_json mf p =
     (case mf_read mf p of
        Inl e \<Rightarrow> Inl (Te_Io p e)
      | Inr txt \<Rightarrow> (case mf_parse mf txt of Inl e \<Rightarrow> Inl (Te_Json p e) | Inr j \<Rightarrow> Inr j))"

definition special_token_string :: "json option \<Rightarrow> string option" where
  "special_token_string value =
     (case value of
        Some (JStr s) \<Rightarrow> Some s
      | Some (JObj m) \<Rightarrow> Option.bind (map_of m ''content'') as_str
      | _ \<Rightarrow> None)"

text \<open>\<open>as_u64\<close>, then \<open>u32::try_from\<close>.\<close>

definition declared_id :: "json \<Rightarrow> u32 option" where
  "declared_id j =
     (case as_u64 j of None \<Rightarrow> None | Some n \<Rightarrow> if unat n < 2 ^ 32 then Some (ucast n) else None)"

definition declared_ids :: "json option \<Rightarrow> u32 list" where
  "declared_ids v =
     (case v of
        Some (JNum n) \<Rightarrow> (case declared_id (JNum n) of None \<Rightarrow> [] | Some i \<Rightarrow> [i])
      | Some (JArr items) \<Rightarrow> List.map_filter declared_id items
      | _ \<Rightarrow> [])"

text \<open>\<open>sort_unstable\<close>, then \<open>dedup\<close>.\<close>

definition sort_dedup :: "u32 list \<Rightarrow> u32 list" where
  "sort_dedup ids = remdups_adj (sort ids)"

definition special_id ::
  "hf_tokenizer \<Rightarrow> path \<Rightarrow> string \<Rightarrow> tokenizer_error + u32" where
  "special_id tok p token =
     (case hf_token_to_id tok token of
        None \<Rightarrow> Inl (Te_Unknown_Special_Token token p) | Some i \<Rightarrow> Inr i)"

definition resolve_special_token_ids ::
  "model_files \<Rightarrow> hf_tokenizer \<Rightarrow> path \<Rightarrow> tokenizer_error + special_token_ids" where
  "resolve_special_token_ids mf tok dir =
     (let config_path = path_join dir ''tokenizer_config.json''
      in case read_json mf config_path of
        Inl e \<Rightarrow> Inl e
      | Inr config \<Rightarrow>
          (case special_token_string (json_get config ''bos_token'') of
             None \<Rightarrow> Inl (Te_Missing_Field ''bos_token'' config_path)
           | Some bos_token \<Rightarrow>
          (case special_token_string (json_get config ''eos_token'') of
             None \<Rightarrow> Inl (Te_Missing_Field ''eos_token'' config_path)
           | Some eos_token \<Rightarrow>
          (case special_id tok config_path bos_token of
             Inl e \<Rightarrow> Inl e
           | Inr bos \<Rightarrow>
          (case special_id tok config_path eos_token of
             Inl e \<Rightarrow> Inl e
           | Inr eos \<Rightarrow>
               (let declared =
                      (case read_json mf (path_join dir ''generation_config.json'') of
                         Inl _ \<Rightarrow> [] | Inr gen \<Rightarrow> declared_ids (json_get gen ''eos_token_id''));
                    pad = (case Option.bind (special_token_string (json_get config ''pad_token''))
                                  (hf_token_to_id tok) of
                             None \<Rightarrow> eos | Some i \<Rightarrow> i)
                in Inr \<lparr>sp_bos = bos, sp_eos = sort_dedup (eos # declared), sp_pad = pad\<rparr>))))))"

definition ts_load :: "model_files \<Rightarrow> path \<Rightarrow> tokenizer_error + tokenizer_service" where
  "ts_load mf p =
     (case mf_tokenizer mf p of
        Inl e \<Rightarrow> Inl (Te_Load p e)
      | Inr tok \<Rightarrow>
          (case resolve_special_token_ids mf tok (path_dir p) of
             Inl e \<Rightarrow> Inl e
           | Inr sp \<Rightarrow> Inr \<lparr>ts_tokenizer = tok, ts_special = sp\<rparr>))"

definition ts_encode :: "tokenizer_service \<Rightarrow> string \<Rightarrow> bool \<Rightarrow> tokenizer_error + u32 list" where
  "ts_encode ts txt add_special_tokens =
     (case hf_encode (ts_tokenizer ts) txt add_special_tokens of
        Inl e \<Rightarrow> Inl (Te_Encode e) | Inr ids \<Rightarrow> Inr ids)"

text \<open>Special tokens are kept in the text: \<open>skip_special_tokens = false\<close>.\<close>

definition ts_decode_batch :: "tokenizer_service \<Rightarrow> u32 list \<Rightarrow> tokenizer_error + string" where
  "ts_decode_batch ts ids =
     (case hf_decode (ts_tokenizer ts) ids False of Inl e \<Rightarrow> Inl (Te_Decode e) | Inr s \<Rightarrow> Inr s)"

definition ts_id_to_token :: "tokenizer_service \<Rightarrow> u32 \<Rightarrow> string option" where
  "ts_id_to_token ts i = hf_id_to_token (ts_tokenizer ts) i"

definition ts_token_to_id :: "tokenizer_service \<Rightarrow> string \<Rightarrow> u32 option" where
  "ts_token_to_id ts t = hf_token_to_id (ts_tokenizer ts) t"

definition ts_vocab_size :: "tokenizer_service \<Rightarrow> nat" where
  "ts_vocab_size ts = hf_vocab_size (ts_tokenizer ts) True"

definition ts_special_tokens :: "tokenizer_service \<Rightarrow> special_token_ids" where
  "ts_special_tokens ts = ts_special ts"

subsection \<open>The special tokens of a loaded tokenizer\<close>

lemma sort_dedup_set: "set (sort_dedup ids) = set ids"
  by (simp add: sort_dedup_def)

lemma remdups_adj_strict: "sorted xs \<Longrightarrow> sorted (remdups_adj xs) \<and> distinct (remdups_adj xs)"
  by (induction xs rule: remdups_adj.induct) (auto simp: order_le_less)

lemma sort_dedup_sorted: "sorted (sort_dedup ids)" "distinct (sort_dedup ids)"
  using remdups_adj_strict [of "sort ids"] by (simp_all add: sort_dedup_def)

text \<open>What the ids of a service are, given its tokenizer and the files next to it.\<close>

definition special_ok :: "model_files \<Rightarrow> path \<Rightarrow> tokenizer_service \<Rightarrow> bool" where
  "special_ok mf dir ts \<longleftrightarrow>
     (\<exists>config bos_token eos_token eos.
        read_json mf (path_join dir ''tokenizer_config.json'') = Inr config \<and>
        special_token_string (json_get config ''bos_token'') = Some bos_token \<and>
        special_token_string (json_get config ''eos_token'') = Some eos_token \<and>
        ts_token_to_id ts bos_token = Some (sp_bos (ts_special ts)) \<and>
        ts_token_to_id ts eos_token = Some eos \<and>
        set (sp_eos (ts_special ts)) = insert eos (set
          (case read_json mf (path_join dir ''generation_config.json'') of
             Inl _ \<Rightarrow> [] | Inr gen \<Rightarrow> declared_ids (json_get gen ''eos_token_id''))) \<and>
        (sp_pad (ts_special ts) = eos \<or>
         (\<exists>t. special_token_string (json_get config ''pad_token'') = Some t \<and>
            ts_token_to_id ts t = Some (sp_pad (ts_special ts)))))"

text \<open>C1: A service that loads is well formed: its end-of-sequence ids are strictly ascending, and they are exactly the id of the configured \<open>eos_token\<close> and those that \<open>generation_config.json\<close> declares and that fit 32 bits; the bos id is the vocabulary's id of \<open>bos_token\<close>, and the pad id that of \<open>pad_token\<close> or the eos id.\<close>

theorem loaded_service_well_formed:
  assumes "ts_load mf (path_join dir f) = Inr ts"
  shows "sorted_wrt (<) (sp_eos (ts_special ts)) \<and> sp_eos (ts_special ts) \<noteq> [] \<and> special_ok mf dir ts"
proof -
  have d: "path_dir (path_join dir f) = dir" by (simp add: path_dir_def path_join_def)
  obtain tok sp where t: "resolve_special_token_ids mf tok dir = Inr sp"
    "ts = \<lparr>ts_tokenizer = tok, ts_special = sp\<rparr>"
    using assms by (auto simp: ts_load_def d split: sum.splits)
  then obtain config bos_token eos_token eos where r:
    "read_json mf (path_join dir ''tokenizer_config.json'') = Inr config"
    "special_token_string (json_get config ''bos_token'') = Some bos_token"
    "special_token_string (json_get config ''eos_token'') = Some eos_token"
    "hf_token_to_id tok bos_token = Some (sp_bos sp)" "hf_token_to_id tok eos_token = Some eos"
    "sp_eos sp = sort_dedup (eos # (case read_json mf (path_join dir ''generation_config.json'') of
       Inl _ \<Rightarrow> [] | Inr gen \<Rightarrow> declared_ids (json_get gen ''eos_token_id'')))"
    "sp_pad sp = (case Option.bind (special_token_string (json_get config ''pad_token''))
       (hf_token_to_id tok) of None \<Rightarrow> eos | Some i \<Rightarrow> i)"
    by (auto simp: resolve_special_token_ids_def special_id_def Let_def split: sum.splits option.splits)
  have "sorted_wrt (<) (sp_eos sp)"
    unfolding r(6) strict_sorted_iff using sort_dedup_sorted by blast
  moreover have "set (sp_eos sp) \<noteq> {}" unfolding r(6) sort_dedup_set by simp
  moreover have "special_ok mf dir ts"
  proof -
    have "sp_pad sp = eos \<or> (\<exists>t. special_token_string (json_get config ''pad_token'') = Some t \<and>
        hf_token_to_id tok t = Some (sp_pad sp))"
      unfolding r(7) by (auto split: option.splits bind_splits)
    then show ?thesis
      unfolding special_ok_def t(2) ts_token_to_id_def
      using r(1-5) r(6) sort_dedup_set by auto
  qed
  ultimately show ?thesis by (auto simp: t(2))
qed

text \<open>The files of MiniCPM5-2B: \<open>bos = 0\<close>, \<open>eos = [1, 130073]\<close>, \<open>pad = 1\<close>.\<close>

definition demo_tokenizer :: hf_tokenizer where
  "demo_tokenizer =
     \<lparr>hf_encode = (\<lambda>s b. Inr (map (\<lambda>c. of_nat (of_char c)) s)), hf_decode = (\<lambda>ids b. Inr []),
      hf_id_to_token = (\<lambda>i. if i = 0 then Some ''<s>'' else if i = 1 then Some ''</s>'' else None),
      hf_token_to_id = (\<lambda>t. if t = ''<s>'' then Some 0 else if t = ''</s>'' then Some 1 else None),
      hf_vocab_size = (\<lambda>b. 130560)\<rparr>"

definition demo_files :: model_files where
  "demo_files =
     \<lparr>mf_read = (\<lambda>p. if last p = ''chat_template.jinja'' then Inl ''missing'' else Inr (last p)), mf_tokenizer = (\<lambda>p. Inr demo_tokenizer),
      mf_parse = (\<lambda>s. Inr (if s = ''generation_config.json''
        then JObj [(''eos_token_id'', JArr [jnat 1, jnat 130073])]
        else JObj [(''bos_token'', JStr ''<s>''), (''eos_token'', JObj [(''content'', JStr ''</s>'')]),
                   (''chat_template'', JStr ''T'')]))\<rparr>"

lemma demo_load:
  "ts_load demo_files (path_join [''model''] ''tokenizer.json'') =
   Inr \<lparr>ts_tokenizer = demo_tokenizer, ts_special = \<lparr>sp_bos = 0, sp_eos = [1, 130073], sp_pad = 1\<rparr>\<rparr>"
  by (simp add: ts_load_def demo_files_def resolve_special_token_ids_def path_join_def path_dir_def
      read_json_def special_token_string_def special_id_def demo_tokenizer_def declared_ids_def
      declared_id_def sort_dedup_def map_filter_simps)

theorem loaded_service_well_formed_witness: "sorted_wrt (<) [1 :: u32, 130073]"
  using loaded_service_well_formed [OF demo_load] by simp

end
