(* ===== verification/Template.thy ===== *)
theory Template
  imports Tokenizer
begin

section \<open>The chat template\<close>

text \<open>
  \<open>minicpm-template/src/lib.rs\<close>: the message type, the rendering context, the filter and the Python
  string methods the crate adds to the template engine, and the loading of a template. The
  engine (\<open>minijinja\<close>) is the parameter \<open>jinja\<close>, its values \<open>'v\<close> and keyword arguments \<open>'k\<close> the
  parameter \<open>jinja_values\<close>; the engine receives the environment the crate configures. Strings
  are UTF-8 and the text functions below work on their code points.
\<close>

subsection \<open>Chat messages\<close>

record chat_message =
  cm_role :: string
  cm_content :: json
  cm_reasoning :: "string option"
  cm_tool_calls :: "json option"

definition cm_new :: "string \<Rightarrow> string \<Rightarrow> chat_message" where
  "cm_new role content =
     \<lparr>cm_role = role, cm_content = JStr content, cm_reasoning = None, cm_tool_calls = None\<rparr>"

definition cm_with_json_content :: "string \<Rightarrow> json \<Rightarrow> chat_message" where
  "cm_with_json_content role content =
     \<lparr>cm_role = role, cm_content = content, cm_reasoning = None, cm_tool_calls = None\<rparr>"

definition cm_with_reasoning :: "chat_message \<Rightarrow> string \<Rightarrow> chat_message" where
  "cm_with_reasoning m r = m\<lparr>cm_reasoning := Some r\<rparr>"

definition cm_with_tool_calls :: "chat_message \<Rightarrow> json \<Rightarrow> chat_message" where
  "cm_with_tool_calls m t = m\<lparr>cm_tool_calls := Some t\<rparr>"

definition cm_content_str :: "chat_message \<Rightarrow> string option" where
  "cm_content_str m = as_str (cm_content m)"

text \<open>\<open>Serialize\<close>: absent optional fields are skipped.\<close>

definition cm_to_json :: "chat_message \<Rightarrow> json" where
  "cm_to_json m =
     JObj ([(''role'', JStr (cm_role m)), (''content'', cm_content m)] @
       (case cm_reasoning m of None \<Rightarrow> [] | Some r \<Rightarrow> [(''reasoning_content'', JStr r)]) @
       (case cm_tool_calls m of None \<Rightarrow> [] | Some t \<Rightarrow> [(''tool_calls'', t)]))"

text \<open>\<open>Deserialize\<close> of an object, with serde's rules: the members in their order, unknown ones
  ignored, the first of a wrong type is the error; then a missing \<open>role\<close> or \<open>content\<close>. An
  \<open>Option\<close> field takes \<open>null\<close> as absent, a \<open>Value\<close> field takes anything but must be there.
  \<open>unexp\<close> is how the library describes a value of the wrong type.\<close>

fun cm_type_error :: "(json \<Rightarrow> string) \<Rightarrow> (string \<times> json) list \<Rightarrow> string option" where
  "cm_type_error unexp [] = None"
| "cm_type_error unexp ((k, v) # kvs) =
     (if (k = ''role'' \<or> k = ''reasoning_content'' \<and> v \<noteq> JNull) \<and> as_str v = None
      then Some (''invalid type: '' @ unexp v @ '', expected a string'')
      else cm_type_error unexp kvs)"

definition cm_from_object :: "(json \<Rightarrow> string) \<Rightarrow> (string \<times> json) list \<Rightarrow> string + chat_message" where
  "cm_from_object unexp kvs =
     (case cm_type_error unexp kvs of
        Some e \<Rightarrow> Inl e
      | None \<Rightarrow>
          (case Option.bind (map_of kvs ''role'') as_str of
             None \<Rightarrow> Inl ''missing field `role`''
           | Some role \<Rightarrow>
               (case map_of kvs ''content'' of
                  None \<Rightarrow> Inl ''missing field `content`''
                | Some content \<Rightarrow>
                    Inr \<lparr>cm_role = role, cm_content = content,
                         cm_reasoning = Option.bind (map_of kvs ''reasoning_content'') as_str,
                         cm_tool_calls =
                           (case map_of kvs ''tool_calls'' of
                              None \<Rightarrow> None | Some t \<Rightarrow> if t = JNull then None else Some t)\<rparr>)))"

text \<open>A derived struct also reads the sequence of its fields, the optional ones possibly missing at
  the end. Anything else is of the wrong type.\<close>

definition cm_from_array :: "(json \<Rightarrow> string) \<Rightarrow> json list \<Rightarrow> string + chat_message" where
  "cm_from_array unexp vs =
     (if length vs < 2
      then (case vs of
              [] \<Rightarrow> Inl ''invalid length 0, expected struct ChatMessage with 4 elements''
            | v # _ \<Rightarrow>
                (case as_str v of
                   None \<Rightarrow> Inl (''invalid type: '' @ unexp v @ '', expected a string'')
                 | Some _ \<Rightarrow> Inl ''invalid length 1, expected struct ChatMessage with 4 elements''))
      else case cm_from_object unexp (zip [''role'', ''content'', ''reasoning_content'', ''tool_calls''] vs) of
        Inl e \<Rightarrow> Inl e
      | Inr m \<Rightarrow>
          if length vs > 4
          then Inl (''invalid length '' @ dec_digits (length vs) @ '', expected fewer elements in array'')
          else Inr m)"

fun cm_from_json :: "(json \<Rightarrow> string) \<Rightarrow> json \<Rightarrow> string + chat_message" where
  "cm_from_json unexp (JObj kvs) = cm_from_object unexp kvs"
| "cm_from_json unexp (JArr vs) = cm_from_array unexp vs"
| "cm_from_json unexp j = Inl (''invalid type: '' @ unexp j @ '', expected struct ChatMessage'')"

subsection \<open>Text functions\<close>

text \<open>\<open>char::is_whitespace\<close> of a code point: the Unicode property \<open>White_Space\<close>.\<close>

definition is_whitespace :: "nat \<Rightarrow> bool" where
  "is_whitespace c \<longleftrightarrow>
     9 \<le> c \<and> c \<le> 13 \<or> 8192 \<le> c \<and> c \<le> 8202 \<or>
     c \<in> {32, 133, 160, 5760, 8232, 8233, 8239, 8287, 12288}"

definition of_chars :: "nat list \<Rightarrow> string" where
  "of_chars cs = concat (map utf8_encode cs)"

definition trim_start_matches :: "(nat \<Rightarrow> bool) \<Rightarrow> string \<Rightarrow> string" where
  "trim_start_matches P s = of_chars (dropWhile P (str_chars s))"

definition trim_end_matches :: "(nat \<Rightarrow> bool) \<Rightarrow> string \<Rightarrow> string" where
  "trim_end_matches P s = of_chars (rev (dropWhile P (rev (str_chars s))))"

definition trim_both_matches :: "(nat \<Rightarrow> bool) \<Rightarrow> string \<Rightarrow> string" where
  "trim_both_matches P s = trim_end_matches P (trim_start_matches P s)"

text \<open>\<open>str::split\<close> and \<open>str::replacen\<close> with a non-empty pattern; the accumulator of \<open>str_split\<close> is
  the field being read.\<close>

function str_split_from :: "string \<Rightarrow> string \<Rightarrow> string \<Rightarrow> string list" where
  "str_split_from sep w [] = [w]"
| "str_split_from sep w (c # cs) =
     (if sep \<noteq> [] \<and> prefix sep (c # cs)
      then w # str_split_from sep [] (drop (length sep) (c # cs))
      else str_split_from sep (w @ [c]) cs)"
  by pat_completeness auto
termination
  by (relation "measure (\<lambda>(sep, w, s). length s)") auto

definition str_split :: "string \<Rightarrow> string \<Rightarrow> string list" where
  "str_split sep s = str_split_from sep [] s"

function str_replacen :: "nat \<Rightarrow> string \<Rightarrow> string \<Rightarrow> string \<Rightarrow> string" where
  "str_replacen n pat to [] = []"
| "str_replacen n pat to (c # cs) =
     (if n \<noteq> 0 \<and> pat \<noteq> [] \<and> prefix pat (c # cs)
      then to @ str_replacen (n - 1) pat to (drop (length pat) (c # cs))
      else c # str_replacen n pat to cs)"
  by pat_completeness auto
termination
  by (relation "measure (\<lambda>(n, pat, to, s). length s)") auto

subsection \<open>The \<open>tojson\<close> filter\<close>

datatype jinja_error = Je_Invalid_Operation string | Je_Unknown_Method | Je_Other string

datatype value_kind = Vk_Map | Vk_String | Vk_Other

record ('v, 'k) jinja_values =
  jv_kind :: "'v \<Rightarrow> value_kind"
  jv_as_str :: "'v \<Rightarrow> string option"
  jv_of_str :: "string \<Rightarrow> 'v"
  jv_of_bool :: "bool \<Rightarrow> 'v"
  jv_of_list :: "string list \<Rightarrow> 'v"
  jv_opt_str_arg :: "'v list \<Rightarrow> jinja_error + string option"
  jv_str_arg :: "'v list \<Rightarrow> jinja_error + string"
  jv_replace_args :: "'v list \<Rightarrow> jinja_error + string \<times> string \<times> int option"
  jv_items :: "'v \<Rightarrow> jinja_error + 'v"
  jv_to_json :: "'v \<Rightarrow> string + string"
  jv_ensure_ascii :: "'k \<Rightarrow> jinja_error + bool option"
  jv_all_used :: "'k \<Rightarrow> jinja_error + unit"

text \<open>\<open>{:04x}\<close> of a number below 65536.\<close>

definition hex4 :: "nat \<Rightarrow> string" where
  "hex4 n = [hex_digit (n div 4096 mod 16), hex_digit (n div 256 mod 16), hex_digit (n div 16 mod 16),
     hex_digit (n mod 16)]"

definition ascii_escape_char :: "nat \<Rightarrow> string" where
  "ascii_escape_char cp =
     (if cp \<le> 127 then [char_of cp]
      else if cp \<le> 65535 then BSL # ''u'' @ hex4 cp
      else let v = cp - 65536 in
        BSL # ''u'' @ hex4 (55296 + v div 1024) @ BSL # ''u'' @ hex4 (56320 + v mod 1024))"

definition ascii_escape :: "string \<Rightarrow> string" where
  "ascii_escape s = concat (map ascii_escape_char (str_chars s))"

definition tojson_filter :: "('v, 'k) jinja_values \<Rightarrow> 'v \<Rightarrow> 'k \<Rightarrow> jinja_error + string" where
  "tojson_filter jv value kwargs =
     (case jv_ensure_ascii jv kwargs of
        Inl e \<Rightarrow> Inl e
      | Inr ensure_ascii \<Rightarrow>
          (case jv_all_used jv kwargs of
             Inl e \<Rightarrow> Inl e
           | Inr _ \<Rightarrow>
               (case jv_to_json jv value of
                  Inl e \<Rightarrow> Inl (Je_Invalid_Operation (''tojson failed to serialize value: '' @ e))
                | Inr plain \<Rightarrow>
                    Inr (if ensure_ascii = Some True then ascii_escape plain else plain))))"

subsection \<open>Python methods\<close>

definition with_arg :: "jinja_error + 'a \<Rightarrow> ('a \<Rightarrow> jinja_error + 'v) \<Rightarrow> jinja_error + 'v" where
  "with_arg r f = (case r of Inl e \<Rightarrow> Inl e | Inr a \<Rightarrow> f a)"

definition strip_predicate :: "string option \<Rightarrow> nat \<Rightarrow> bool" where
  "strip_predicate chars c =
     (case chars of Some s \<Rightarrow> c \<in> set (str_chars s) | None \<Rightarrow> is_whitespace c)"

definition string_method ::
  "('v, 'k) jinja_values \<Rightarrow> string \<Rightarrow> string \<Rightarrow> 'v list \<Rightarrow> jinja_error + 'v" where
  "string_method jv s method args =
     (if method = ''split'' then
        with_arg (jv_opt_str_arg jv args) (\<lambda>sep.
          case sep of
            None \<Rightarrow> Inr (jv_of_list jv (split_whitespace s))
          | Some sep \<Rightarrow>
              if sep = [] then Inl (Je_Invalid_Operation ''str.split: empty separator'')
              else Inr (jv_of_list jv (str_split sep s)))
      else if method \<in> {''strip'', ''lstrip'', ''rstrip''} then
        with_arg (jv_opt_str_arg jv args) (\<lambda>chars.
          Inr (jv_of_str jv
            (if method = ''strip'' then trim_both_matches (strip_predicate chars) s
             else if method = ''lstrip'' then trim_start_matches (strip_predicate chars) s
             else trim_end_matches (strip_predicate chars) s)))
      else if method = ''startswith'' then
        with_arg (jv_str_arg jv args) (\<lambda>pre. Inr (jv_of_bool jv (starts_with s pre)))
      else if method = ''endswith'' then
        with_arg (jv_str_arg jv args) (\<lambda>suf. Inr (jv_of_bool jv (ends_with s suf)))
      else if method = ''replace'' then
        with_arg (jv_replace_args jv args) (\<lambda>(old, new, count).
          if old = [] then Inl (Je_Invalid_Operation ''str.replace: empty search string'')
          else case count of
            Some n \<Rightarrow>
              if n \<ge> 0 then Inr (jv_of_str jv (str_replacen (nat n) old new s))
              else Inr (jv_of_str jv (str_replace old new s))
          | None \<Rightarrow> Inr (jv_of_str jv (str_replace old new s)))
      else Inl Je_Unknown_Method)"

definition python_method_fallback ::
  "('v, 'k) jinja_values \<Rightarrow> 'v \<Rightarrow> string \<Rightarrow> 'v list \<Rightarrow> jinja_error + 'v" where
  "python_method_fallback jv value method args =
     (if jv_kind jv value = Vk_Map \<and> method = ''items'' then
        (if args \<noteq> [] then Inl (Je_Invalid_Operation ''dict.items() takes no arguments'')
         else jv_items jv value)
      else if jv_kind jv value = Vk_String then
        (case jv_as_str jv value of
           None \<Rightarrow> Inl (Je_Invalid_Operation ''string value expected'')
         | Some s \<Rightarrow> string_method jv s method args)
      else Inl Je_Unknown_Method)"

subsection \<open>The environment and the template\<close>

record ('v, 'k) environment =
  ev_trim_blocks :: bool
  ev_lstrip_blocks :: bool
  ev_tojson :: "'v \<Rightarrow> 'k \<Rightarrow> jinja_error + string"
  ev_unknown_method :: "'v \<Rightarrow> string \<Rightarrow> 'v list \<Rightarrow> jinja_error + 'v"

definition build_environment :: "('v, 'k) jinja_values \<Rightarrow> ('v, 'k) environment" where
  "build_environment jv =
     \<lparr>ev_trim_blocks = True, ev_lstrip_blocks = True, ev_tojson = tojson_filter jv,
      ev_unknown_method = python_method_fallback jv\<rparr>"

record ('v, 'k) jinja =
  ji_values :: "('v, 'k) jinja_values"
  ji_compile :: "('v, 'k) environment \<Rightarrow> string \<Rightarrow> string + unit"
  ji_render :: "('v, 'k) environment \<Rightarrow> string \<Rightarrow> json \<Rightarrow> string + string"

datatype template_error =
    Tm_Io path string
  | Tm_Json path string
  | Tm_Missing_Template path
  | Tm_Compile string
  | Tm_Render string
  | Tm_Ser string
  | Tm_Empty_Messages

fun template_error_display :: "template_error \<Rightarrow> string" where
  "template_error_display (Tm_Io p e) = ''failed to read `'' @ path_show p @ ''`: '' @ e"
| "template_error_display (Tm_Json p e) = ''failed to parse JSON in `'' @ path_show p @ ''`: '' @ e"
| "template_error_display (Tm_Missing_Template p) =
     ''no chat template found in `'' @ path_show p @
     ''`: expected `chat_template.jinja` or a `chat_template` field in `tokenizer_config.json`''"
| "template_error_display (Tm_Compile e) = ''failed to compile chat template: '' @ e"
| "template_error_display (Tm_Render e) = ''failed to render chat template: '' @ e"
| "template_error_display (Tm_Ser e) = ''failed to serialize chat messages: '' @ e"
| "template_error_display Tm_Empty_Messages =
     ''cannot render an empty conversation: the official chat template indexes messages[0] and slices messages[::-1]''"

record ('v, 'k) chat_template =
  ct_env :: "('v, 'k) environment"
  ct_source :: string
  ct_source_path :: "path option"

definition ct_compile :: "('v, 'k) jinja \<Rightarrow> string \<Rightarrow> template_error + ('v, 'k) chat_template" where
  "ct_compile ji source =
     (let env = build_environment (ji_values ji)
      in case ji_compile ji env source of
           Inl e \<Rightarrow> Inl (Tm_Compile e)
         | Inr _ \<Rightarrow> Inr \<lparr>ct_env = env, ct_source = source, ct_source_path = None\<rparr>)"

definition ct_from_source :: "('v, 'k) jinja \<Rightarrow> string \<Rightarrow> template_error + ('v, 'k) chat_template" where
  "ct_from_source ji source = ct_compile ji source"

definition with_source_path ::
  "path \<Rightarrow> template_error + ('v, 'k) chat_template \<Rightarrow> template_error + ('v, 'k) chat_template" where
  "with_source_path p r = (case r of Inl e \<Rightarrow> Inl e | Inr t \<Rightarrow> Inr (t\<lparr>ct_source_path := Some p\<rparr>))"

text \<open>The field of the configuration, when there is no usable template file.\<close>

definition ct_from_config ::
  "('v, 'k) jinja \<Rightarrow> model_files \<Rightarrow> path \<Rightarrow> template_error + ('v, 'k) chat_template" where
  "ct_from_config ji mf dir =
     (let config_path = path_join dir ''tokenizer_config.json''
      in case mf_read mf config_path of
           Inl e \<Rightarrow> Inl (Tm_Io config_path e)
         | Inr txt \<Rightarrow>
             (case mf_parse mf txt of
                Inl e \<Rightarrow> Inl (Tm_Json config_path e)
              | Inr config \<Rightarrow>
                  (case json_get config ''chat_template'' of
                     Some (JStr source) \<Rightarrow> with_source_path config_path (ct_compile ji source)
                   | _ \<Rightarrow> Inl (Tm_Missing_Template dir))))"

definition ct_from_model_dir ::
  "('v, 'k) jinja \<Rightarrow> model_files \<Rightarrow> path \<Rightarrow> template_error + ('v, 'k) chat_template" where
  "ct_from_model_dir ji mf dir =
     (let jinja_path = path_join dir ''chat_template.jinja''
      in case mf_read mf jinja_path of
           Inr source \<Rightarrow>
             (if trim_both_matches is_whitespace source \<noteq> []
              then with_source_path jinja_path (ct_compile ji source)
              else ct_from_config ji mf dir)
         | Inl _ \<Rightarrow> ct_from_config ji mf dir)"

definition render_context ::
  "chat_message list \<Rightarrow> json option \<Rightarrow> bool \<Rightarrow> bool option \<Rightarrow> string \<Rightarrow> json" where
  "render_context messages tools add_generation_prompt enable_thinking bos_token =
     JObj ([(''messages'', JArr (map cm_to_json messages)),
            (''add_generation_prompt'', JBool add_generation_prompt),
            (''bos_token'', JStr bos_token)] @
       (case tools of None \<Rightarrow> [] | Some t \<Rightarrow> [(''tools'', t)]) @
       (case enable_thinking of None \<Rightarrow> [] | Some b \<Rightarrow> [(''enable_thinking'', JBool b)]))"

definition ct_render ::
  "('v, 'k) jinja \<Rightarrow> ('v, 'k) chat_template \<Rightarrow> chat_message list \<Rightarrow> json option \<Rightarrow> bool \<Rightarrow> bool option \<Rightarrow>
   string \<Rightarrow> template_error + string" where
  "ct_render ji t messages tools add_generation_prompt enable_thinking bos_token =
     (if messages = [] then Inl Tm_Empty_Messages
      else case ji_compile ji (ct_env t) (ct_source t) of
        Inl e \<Rightarrow> Inl (Tm_Compile e)
      | Inr _ \<Rightarrow>
          (case ji_render ji (ct_env t) (ct_source t)
                  (render_context messages tools add_generation_prompt enable_thinking bos_token) of
             Inl e \<Rightarrow> Inl (Tm_Render e) | Inr s \<Rightarrow> Inr s))"

end
