(* ===== verification/Worker_Counters.thy ===== *)
theory Worker_Counters
  imports Worker_Pool
begin

section \<open>The counters of the batch path\<close>

text \<open>
  The three counters that \<open>concurrency_bench.rs\<close> reads before and after a round: which operations
  of the worker leave them alone, and by how much a run of the worker moves them.
\<close>

definition batch_counters :: "metrics \<Rightarrow> u64 \<times> u64 \<times> u64" where
  "batch_counters m = (batched_steps_total m, batch_fallbacks_total m, batch_size_sum m)"

abbreviation counters :: "('e, 's, 'g, 'c) worker \<Rightarrow> u64 \<times> u64 \<times> u64" where
  "counters w \<equiv> batch_counters (wk_met w)"

subsection \<open>Operations that leave them alone\<close>

named_theorems counts \<open>the counters after an operation\<close>

lemma metrics_counts [counts]:
  "batch_counters (m\<lparr>active_sessions := n\<rparr>) = batch_counters m"
  "batch_counters (m\<lparr>active_streams := s\<rparr>) = batch_counters m"
  "batch_counters (m\<lparr>errors_total := e\<rparr>) = batch_counters m"
  "batch_counters (m\<lparr>queue_depth := q\<rparr>) = batch_counters m"
  "batch_counters (m\<lparr>prefill_us_total := t\<rparr>) = batch_counters m"
  "batch_counters (m\<lparr>cancelled_total := c\<rparr>) = batch_counters m"
  "batch_counters (count_tokens a b m) = batch_counters m"
  "batch_counters (observe_ttft k m) = batch_counters m"
  "batch_counters (observe_tpot k m) = batch_counters m"
  "batch_counters (push_recent r m) = batch_counters m"
  by (simp_all add: batch_counters_def count_tokens_def observe_ttft_def observe_tpot_def push_recent_def Let_def)

lemma latency_counts [counts]: "batch_counters (latency_metrics g f t m) = batch_counters m"
  by (simp add: latency_metrics_def Let_def counts split: option.split)

lemma finish_event_counts [counts]:
  "finish_event f u = (ev, upd, r) \<Longrightarrow> batch_counters (upd m) = batch_counters m"
  by (cases f) (auto simp: finish_event_def Let_def counts)

lemma retire_counts [counts]: "counters (retire env g f mode w) = counters w"
  by (cases "finish_event f \<lparr>us_prompt_tokens = ag_prompt_tokens g, us_completion_tokens = ag_generated g\<rparr>")
     (simp add: retire_def Let_def wk_simps counts case_prod_beta split: option.split)

lemma fail_intake_counts [counts]: "counters (fail_intake env p so msg w) = counters w"
  by (simp add: fail_intake_def Let_def wk_simps counts split: option.split)

lemma settle_counts: "r = (x, g, w1) \<Longrightarrow> counters (settle env r) = counters w1"
  by (simp add: settle_def wk_simps counts split: step_result.split)

lemma settle_step_counts [counts]: "counters (settle env (step env g w)) = counters w"
proof -
  obtain r g' w' where s: "step env g w = (r, g', w')" by (cases "step env g w") auto
  with step_worker [OF s] show ?thesis by (simp add: settle_counts)
qed

lemma settle_feed_counts [counts]: "counters (settle env (feed_token env g t w)) = counters w"
proof -
  obtain r g' w' where s: "feed_token env g t w = (r, g', w')" by (cases "feed_token env g t w") auto
  with decode_worker [OF s] show ?thesis by (simp add: settle_counts)
qed

lemma step_all_counts [counts]: "counters (step_all env gens w) = counters w"
  by (induction gens arbitrary: w) (simp_all add: counts)

lemma demote_step_all_counts [counts]: "counters (demote_step_all env gens w) = counters w"
  by (induction gens arbitrary: w) (simp_all add: counts wk_simps case_prod_beta Let_def)

lemma feed_all_counts [counts]: "counters (feed_all env gs w) = counters w"
  by (induction env gs w rule: feed_all.induct) (simp_all add: counts)

lemma drop_cancelled_counts:
  "drop_cancelled env gens w = (gs, w') \<Longrightarrow> counters w' = counters w \<and> length gs \<le> length gens"
  by (induction gens arbitrary: w gs w') (fastforce simp: counts Let_def split: prod.splits if_splits)+

lemma sort_gens_counts:
  "sort_gens env gens solo batch w = (so, ba, w') \<Longrightarrow> length batch \<le> max_batch_slots env \<Longrightarrow>
   counters w' = counters w \<and> length ba \<le> max_batch_slots env"
proof (induction gens arbitrary: solo batch w)
  case (Cons g gens)
  show ?case
  proof (cases "want_batch env g \<and> length batch < max_batch_slots env")
    case True
    with Cons show ?thesis by (metis length_append_singleton Suc_leI sort_gens.simps(2))
  next
    case False
    obtain g1 w1 where d: "demote_from_group env g w = (g1, w1)" by (cases "demote_from_group env g w") auto
    have "wk_met w1 = wk_met w" using demote_worker(6) [of env g w] d by simp
    with False Cons d show ?thesis by (auto simp: Let_def)
  qed
qed simp

lemma hold_lone_counts:
  "hold_lone env (so, ba, w) = (so', ba', w') \<Longrightarrow> counters w' = counters w \<and> length ba' \<le> length ba"
proof (cases "\<exists>g. ba = [g]")
  case True
  then obtain g where ba: "ba = [g]" by blast
  obtain g1 w1 where d: "demote_from_group env g w = (g1, w1)" by (cases "demote_from_group env g w") auto
  have "wk_met w1 = wk_met w" using demote_worker(6) [of env g w] d by simp
  moreover assume "hold_lone env (so, ba, w) = (so', ba', w')"
  ultimately show ?thesis using ba d by (auto simp: hold_lone_def wk_simps split: if_splits)
next
  case False
  moreover assume "hold_lone env (so, ba, w) = (so', ba', w')"
  ultimately show ?thesis by (cases ba; cases "tl ba") (auto simp: hold_lone_def)
qed

lemma prefill_job_counts: "prefill_job env s ids w = (r, w') \<Longrightarrow> counters w' = counters w"
  by (auto simp: prefill_job_def prefill_us_of_def wk_simps counts Let_def split: prod.splits sum.splits)

lemma intake_counts [counts]: "counters (intake env j w) = counters w"
proof -
  have n: "wk_met w' = wk_met v" if "now env v = (t, w')" for t v w'
    using that by (auto simp: now_def)
  show ?thesis
    by (auto simp: intake_def Let_def wk_simps counts split: prod.splits sum.splits
        dest!: n take_session_fields prefill_job_counts)
qed

lemma release_group_counts [counts]: "counters (release_group env w) = counters w"
  by (simp add: release_group_def split: option.split)

lemma shutdown_active_counts [counts]: "counters (shutdown_active env gens w) = counters w"
  by (induction gens arbitrary: w) (simp_all add: counts)

lemma worker_exit_counts [counts]: "counters (worker_exit env w) = counters w"
  by (simp add: worker_exit_def Let_def wk_simps counts)

lemma ensure_group_counts: "ensure_group env bo w = (g, w') \<Longrightarrow> wk_met w' = wk_met w"
  by (auto simp: ensure_group_def split: option.splits prod.splits sum.splits)

lemma try_batch_counts:
  assumes "try_batch env bo ba w = (t, gs, w')"
  shows "counters w' = counters w \<and> length gs = length ba"
proof
  show "counters w' = counters w"
    using assms by (auto simp: try_batch_def dest!: ensure_group_counts
      split: option.splits prod.splits bool.splits sum.splits if_splits)
  show "length gs = length ba" using try_batch_core [OF assms] by (metis length_map)
qed

subsection \<open>What a quantum and a run add\<close>

text \<open>\<open>ns\<close> are the sizes of the batch steps in order, \<open>falls\<close> counts the fallbacks.\<close>

definition tallied :: "nat \<Rightarrow> nat list \<Rightarrow> nat \<Rightarrow> metrics \<Rightarrow> metrics \<Rightarrow> bool" where
  "tallied cap ns falls m m' \<longleftrightarrow>
     set ns \<subseteq> {2..cap} \<and>
     batch_counters m' =
       (batched_steps_total m + of_nat (length ns), batch_fallbacks_total m + of_nat falls,
        batch_size_sum m + of_nat (sum_list ns))"

lemma tallied_same: "batch_counters m' = batch_counters m \<Longrightarrow> tallied cap [] 0 m m'"
  by (simp add: tallied_def batch_counters_def)

lemma tallied_trans:
  "tallied cap ns f m m1 \<Longrightarrow> tallied cap ns' f' m1 m2 \<Longrightarrow> tallied cap (ns @ ns') (f + f') m m2"
  by (auto simp: tallied_def batch_counters_def)

lemma tallied_cong:
  "batch_counters m1 = batch_counters m \<Longrightarrow> batch_counters m1' = batch_counters m' \<Longrightarrow>
   tallied cap ns f m1 m1' \<longleftrightarrow> tallied cap ns f m m'"
  by (simp add: tallied_def batch_counters_def)

text \<open>\<open>moved env n m m'\<close>: at most \<open>n\<close> batch attempts, none with batching off.\<close>

definition moved :: "('e, 's, 'g, 'c) env \<Rightarrow> nat \<Rightarrow> metrics \<Rightarrow> metrics \<Rightarrow> bool" where
  "moved env n m m' \<longleftrightarrow>
     (\<exists>ns f. tallied (max_batch_slots env) ns f m m' \<and> length ns + f \<le> (if batching_on env then n else 0))"

lemma moved_quiet: "batch_counters m' = batch_counters m \<Longrightarrow> moved env n m m'"
  unfolding moved_def by (intro exI [of _ "[]"] exI [of _ 0]) (simp add: tallied_same)

lemma moved_trans: "moved env k m m1 \<Longrightarrow> moved env n m1 m2 \<Longrightarrow> moved env (k + n) m m2"
proof -
  assume "moved env k m m1" "moved env n m1 m2"
  then obtain ns f ns' f' where c: "tallied (max_batch_slots env) ns f m m1" "tallied (max_batch_slots env) ns' f' m1 m2"
    "length ns + f \<le> (if batching_on env then k else 0)" "length ns' + f' \<le> (if batching_on env then n else 0)"
    by (auto simp: moved_def)
  with tallied_trans [OF c(1,2)] show ?thesis
    unfolding moved_def by (intro exI [of _ "ns @ ns'"] exI [of _ "f + f'"]) (simp split: if_splits)
qed

lemma moved_cong:
  "batch_counters m1 = batch_counters m \<Longrightarrow> batch_counters m1' = batch_counters m' \<Longrightarrow>
   moved env n m1 m1' \<longleftrightarrow> moved env n m m'"
  by (simp add: moved_def tallied_cong [of m1 m m1' m'])

lemma moved_mono: "moved env k m m' \<Longrightarrow> k \<le> n \<Longrightarrow> moved env n m m'"
  unfolding moved_def by (auto split: if_splits intro: order_trans)

lemma run_batch_tallied:
  assumes "2 \<le> length ba" "length ba \<le> cap" "eo_batch (en_ops env) = Some bo"
  shows "\<exists>ns f. tallied cap ns f (wk_met w) (wk_met (run_batch env ba w)) \<and> length ns + f = 1"
proof -
  obtain t gs w1 where tb: "try_batch env bo ba w = (t, gs, w1)" by (cases "try_batch env bo ba w") auto
  note c = try_batch_counts [OF tb]
  show ?thesis
  proof (cases t)
    case None
    with tb assms have r: "run_batch env ba w = demote_step_all env gs
        (with_met (\<lambda>m. m\<lparr>batch_fallbacks_total := batch_fallbacks_total m + 1\<rparr>) w1)" by (simp add: run_batch_def)
    show ?thesis
      by (intro exI [of _ "[]"] exI [of _ 1])
         (use c in \<open>simp add: r tallied_def counts wk_simps\<close>, simp add: batch_counters_def)
  next
    case (Some toks)
    with tb assms have r: "run_batch env ba w = feed_all env (zip gs toks)
        (with_met (\<lambda>m. m\<lparr>batched_steps_total := batched_steps_total m + 1,
                        batch_size_sum := batch_size_sum m + of_nat (length gs)\<rparr>) w1)" by (simp add: run_batch_def)
    show ?thesis
      by (intro exI [of _ "[length ba]"] exI [of _ 0])
         (use c assms in \<open>simp add: r tallied_def counts wk_simps\<close>, simp add: batch_counters_def)
  qed
qed

lemma batch_phase_moved:
  assumes "length ba \<le> max_batch_slots env" "batching_on env \<or> ba = []"
  shows "moved env 1 (wk_met w) (wk_met (batch_phase env ba w))"
proof -
  obtain b1 w1 where d: "(if length ba \<ge> 2 then drop_cancelled env ba w else (ba, w)) = (b1, w1)"
    by fastforce
  have b1: "counters w1 = counters w \<and> length b1 \<le> length ba"
    using d drop_cancelled_counts [of env ba w b1 w1] by (cases "length ba \<ge> 2") simp_all
  show ?thesis
  proof (cases "length b1 \<ge> 2")
    case True
    with assms b1 obtain bo where on: "batching_on env" "eo_batch (en_ops env) = Some bo"
      by (auto simp: batching_on_def)
    have "moved env 1 (wk_met w1) (wk_met (run_batch env b1 w1))"
      using run_batch_tallied [OF True _ on(2), of "max_batch_slots env" w1] assms(1) b1 on(1)
      unfolding moved_def by fastforce
    then have "moved env 1 (wk_met w) (wk_met (run_batch env b1 w1))"
      using moved_cong [of "wk_met w1" "wk_met w"] b1 by blast
    with True d show ?thesis by (simp add: batch_phase_def)
  next
    case False
    with d b1 show ?thesis by (simp add: batch_phase_def moved_quiet counts)
  qed
qed

lemma sort_gens_unbatched: "\<not> batching_on env \<Longrightarrow> sort_gens env gens solo batch w = (so, ba, w') \<Longrightarrow> ba = batch"
  by (induction gens arbitrary: solo w) (auto simp: want_batch_def Let_def split: prod.splits)

lemma hold_lone_off: "hold_lone env (so, [], w) = (so, [], w)"
  by (simp add: hold_lone_def)

lemma quantum_moved: "moved env 1 (wk_met w) (wk_met (quantum env w))"
proof -
  let ?w0 = "w\<lparr>wk_active := []\<rparr>"
  obtain so ba w1 where s: "sort_gens env (wk_active w) [] [] ?w0 = (so, ba, w1)"
    by (cases "sort_gens env (wk_active w) [] [] ?w0") auto
  obtain so' ba' w2 where h: "hold_lone env (so, ba, w1) = (so', ba', w2)"
    by (cases "hold_lone env (so, ba, w1)") auto
  have c: "counters w2 = counters w" and l: "length ba' \<le> max_batch_slots env"
    using sort_gens_counts [OF s] hold_lone_counts [OF h] by simp_all
  have "batching_on env \<or> ba' = []"
    using sort_gens_unbatched [OF _ s] h by (cases "batching_on env") (simp_all add: hold_lone_off)
  from batch_phase_moved [OF l this, of "step_all env so' w2"]
  have "moved env 1 (wk_met w) (wk_met (quantum env w))"
    by (subst moved_cong [of "wk_met w" "wk_met (step_all env so' w2)" _
          "wk_met (batch_phase env ba' (step_all env so' w2))"]) (simp_all add: quantum_def s h c counts)
  then show ?thesis .
qed

lemma worker_iter_moved:
  "worker_iter env rx c w = (b, w') \<Longrightarrow> moved env 1 (wk_met w) (wk_met w')"
proof -
  assume i: "worker_iter env rx c w = (b, w')"
  have q: "moved env 1 (wk_met w) (wk_met (quantum env (intake env j w)))" for j
    using quantum_moved [of env "intake env j w"]
      moved_cong [of "wk_met (intake env j w)" "wk_met w" _ _ env 1] intake_counts [of env j w] by blast
  from i show ?thesis
    using q quantum_moved [of env w]
    by (auto simp: worker_iter_def moved_quiet counts split: if_splits recv.splits)
qed

lemma worker_run_moved: "worker_run env ins w = (b, w') \<Longrightarrow> moved env (length ins) (wk_met w) (wk_met w')"
proof (induction env ins w rule: worker_run.induct)
  case (2 env rx c ins w)
  obtain b1 w1 where i: "worker_iter env rx c w = (b1, w1)" by (cases "worker_iter env rx c w") auto
  note m = worker_iter_moved [OF i]
  show ?case
  proof (cases b1)
    case True
    with 2 i moved_trans [OF m] show ?thesis by (simp add: add.commute)
  next
    case False
    with 2 i have "w' = worker_exit env w1" by simp
    with moved_cong [of "wk_met w" "wk_met w" "wk_met w'" "wk_met w1" env] moved_mono [OF m, of "Suc (length ins)"]
    show ?thesis by (simp only: counts) simp
  qed
qed (simp add: moved_quiet)


end
