(* ===== verification/Bench.thy ===== *)
theory Bench
  imports Scheduler_System Native Template Worker_Counters
begin

section \<open>The concurrency benchmark\<close>

text \<open>
  \<open>minicpm-scheduler/examples/concurrency_bench.rs\<close>: two arms (batching on and off) over the real
  scheduler, rounds of \<open>k\<close> equal greedy jobs, the logs of their event streams, medians and verdicts.
  Arithmetic on \<open>f64\<close> is the parameter \<open>fl\<close>; \<open>nvidia-smi\<close>, the clock, the scheduler that an arm
  starts and the file that is written are the parameter \<open>io\<close> over a world \<open>'w\<close>. A panic (a failed
  \<open>expect\<close>, \<open>assert\<close> or \<open>unwrap\<close>) is \<open>None\<close>. What is printed to the terminal is left out.
  Objects list their members in the order of the source, which \<open>serde_json\<close> sorts when it prints them.
\<close>

record 'f f64_ops =
  fl_nat :: "nat \<Rightarrow> 'f"
  fl_dec :: "nat \<Rightarrow> nat \<Rightarrow> 'f"
  fl_secs :: "nat \<Rightarrow> 'f"
  fl_add :: "'f \<Rightarrow> 'f \<Rightarrow> 'f"
  fl_sub :: "'f \<Rightarrow> 'f \<Rightarrow> 'f"
  fl_mul :: "'f \<Rightarrow> 'f \<Rightarrow> 'f"
  fl_div :: "'f \<Rightarrow> 'f \<Rightarrow> 'f"
  fl_max :: "'f \<Rightarrow> 'f \<Rightarrow> 'f"
  fl_le :: "'f \<Rightarrow> 'f \<Rightarrow> bool"
  fl_lt :: "'f \<Rightarrow> 'f \<Rightarrow> bool"
  fl_abs :: "'f \<Rightarrow> 'f"
  fl_round :: "'f \<Rightarrow> 'f"
  fl_bits :: "'f \<Rightarrow> u64 option"

text \<open>\<open>fl_dec m k\<close> is the literal \<open>m / 10\<^sup>k\<close>, \<open>fl_secs\<close> is \<open>Duration::as_secs_f64\<close> of nanoseconds, \<open>fl_bits\<close>
  the bit pattern of a finite number.\<close>

abbreviation fl_zero :: "'f f64_ops \<Rightarrow> 'f" where
  "fl_zero fl \<equiv> fl_dec fl 0 0"

definition baseline_tpot_ms :: "'f f64_ops \<Rightarrow> 'f" where "baseline_tpot_ms fl = fl_dec fl 55882 4"
definition go_gate_tok_s :: "'f f64_ops \<Rightarrow> 'f" where "go_gate_tok_s fl = fl_dec fl 4320 1"
definition vllm_k8_tok_s :: "'f f64_ops \<Rightarrow> 'f" where "vllm_k8_tok_s fl = fl_dec fl 43190 2"
definition path_a_k8_tok_s :: "'f f64_ops \<Rightarrow> 'f" where "path_a_k8_tok_s fl = fl_dec fl 1390 1"
definition bench_max_new :: u32 where "bench_max_new = 64"
definition bench_rounds :: nat where "bench_rounds = 3"

definition make_prompt :: "nat \<Rightarrow> i32 list" where
  "make_prompt n = map (\<lambda>i. ((of_nat i :: u32) * 2654435761 + 7) mod 130560) [0..<n]"

definition greedy_config :: gen_config where
  "greedy_config =
     \<lparr>gc_max_new_tokens = bench_max_new, gc_temperature = 0, gc_top_p = 0x3F800000, gc_top_k = 0,
      gc_repetition_penalty = 0x3F800000, gc_seed = 1\<rparr>"

subsection \<open>The outside world\<close>

text \<open>\<open>io_smi\<close>: one query of a field, \<open>None\<close> when the command cannot be started, else its success and
  its decoded output. \<open>io_recv\<close> is what a receiver reads until the channel closes, each event with the
  time it is read.\<close>

record ('w, 'h) bench_io =
  io_smi :: "string \<Rightarrow> 'w \<Rightarrow> (bool \<times> string) option \<times> 'w"
  io_now :: "'w \<Rightarrow> nat \<times> 'w"
  io_start :: "mc_model_options \<Rightarrow> sched_config \<Rightarrow> 'w \<Rightarrow> (string + unit) \<times> 'w"
  io_stop :: "'w \<Rightarrow> 'w"
  io_submit :: "generation_job \<Rightarrow> 'w \<Rightarrow> 'h option \<times> 'w"
  io_recv :: "'h \<Rightarrow> 'w \<Rightarrow> (gen_event \<times> nat) list \<times> 'w"
  io_metrics :: "'w \<Rightarrow> metrics"
  io_samples :: "'w \<Rightarrow> u64 list \<times> 'w"
  io_epoch_ms :: "'w \<Rightarrow> u64 \<times> 'w"
  io_write :: "json \<Rightarrow> 'w \<Rightarrow> (string + unit) \<times> 'w"

text \<open>\<open>str::parse::<u64>\<close>.\<close>

fun digits_value :: "string \<Rightarrow> int \<Rightarrow> int option" where
  "digits_value [] acc = Some acc"
| "digits_value (c # cs) acc =
     (let d = of_char c :: int in
      if 48 \<le> d \<and> d \<le> 57 then digits_value cs (acc * 10 + (d - 48)) else None)"

definition parse_u64 :: "string \<Rightarrow> u64 option" where
  "parse_u64 s =
     (let ds = (case s of c # cs \<Rightarrow> if c = CHR ''+'' then cs else s | [] \<Rightarrow> s) in
      if ds = [] then None
      else case digits_value ds 0 of
        Some n \<Rightarrow> if n < 2 ^ 64 then Some (of_int n) else None
      | None \<Rightarrow> None)"

definition trim :: "string \<Rightarrow> string" where
  "trim = trim_both_matches is_whitespace"

definition first_line :: "string \<Rightarrow> string" where
  "first_line s = takeWhile (\<lambda>c. c \<noteq> NL) s"

definition smi :: "('w, 'h) bench_io \<Rightarrow> string \<Rightarrow> 'w \<Rightarrow> u64 \<times> 'w" where
  "smi io field w =
     (let (r, w1) = io_smi io field w in
      (case r of
         Some (True, out) \<Rightarrow> (case parse_u64 (trim (first_line (trim out))) of Some n \<Rightarrow> n | None \<Rightarrow> 0)
       | _ \<Rightarrow> 0, w1))"

definition gpu_info :: "('w, 'h) bench_io \<Rightarrow> 'w \<Rightarrow> string \<times> 'w" where
  "gpu_info io w =
     (let (r, w1) = io_smi io ''name,driver_version,memory.total'' w in
      (case r of Some (True, out) \<Rightarrow> trim out | _ \<Rightarrow> ''unknown'', w1))"

fun poll_idle :: "('w, 'h) bench_io \<Rightarrow> nat \<Rightarrow> 'w \<Rightarrow> u64 \<times> 'w" where
  "poll_idle io 0 w = smi io ''utilization.gpu'' w"
| "poll_idle io (Suc n) w =
     (let (util, w1) = smi io ''utilization.gpu'' w in
      if util \<le> 5 then (util, w1) else poll_idle io n w1)"

definition wait_idle :: "('w, 'h) bench_io \<Rightarrow> 'w \<Rightarrow> u64 \<times> 'w" where
  "wait_idle io = poll_idle io 120"

subsection \<open>The log of one request\<close>

record 'f req_log =
  rl_ttft_ms :: 'f
  rl_tpot_ms :: 'f
  rl_times_ms :: "'f list"

definition millis :: "'f f64_ops \<Rightarrow> nat \<Rightarrow> 'f" where
  "millis fl ns = fl_mul fl (fl_secs fl ns) (fl_dec fl 1000 0)"

record 'f consumed =
  co_first :: "nat option"
  co_last :: "nat option"
  co_times :: "'f list"
  co_done :: bool

fun consume_events ::
  "'f f64_ops \<Rightarrow> nat \<Rightarrow> (gen_event \<times> nat) list \<Rightarrow> 'f consumed \<Rightarrow> 'f consumed option" where
  "consume_events fl t0 [] c = Some c"
| "consume_events fl t0 ((ev, t) # evs) c =
     (case ev of
        Ge_Token _ \<Rightarrow>
          consume_events fl t0 evs
            (c\<lparr>co_first := (case co_first c of None \<Rightarrow> Some t | f \<Rightarrow> f), co_last := Some t,
               co_times := co_times c @ [millis fl (t - t0)]\<rparr>)
      | Ge_Done _ _ \<Rightarrow> Some (c\<lparr>co_done := True\<rparr>)
      | Ge_Failed _ \<Rightarrow> None)"

definition consume ::
  "'f f64_ops \<Rightarrow> nat \<Rightarrow> nat \<Rightarrow> (gen_event \<times> nat) list \<Rightarrow> 'f req_log option" where
  "consume fl submitted t0 evs =
     (case consume_events fl t0 evs \<lparr>co_first = None, co_last = None, co_times = [], co_done = False\<rparr> of
        None \<Rightarrow> None
      | Some c \<Rightarrow>
          if \<not> co_done c \<or> length (co_times c) \<noteq> unat bench_max_new then None
          else (case (co_first c, co_last c) of
            (Some f, Some l) \<Rightarrow>
              Some \<lparr>rl_ttft_ms = millis fl (f - submitted),
                    rl_tpot_ms = fl_div fl (millis fl (l - f)) (fl_nat fl (unat (bench_max_new - 1))),
                    rl_times_ms = co_times c\<rparr>
          | _ \<Rightarrow> None))"

text \<open>\<open>windows(2)\<close>.\<close>

definition windows2 :: "'a list \<Rightarrow> ('a \<times> 'a) list" where
  "windows2 xs = zip xs (tl xs)"

definition steady_max_gap_ms :: "'f f64_ops \<Rightarrow> 'f req_log \<Rightarrow> 'f \<Rightarrow> 'f" where
  "steady_max_gap_ms fl l start =
     fold (\<lambda>(a, b) m. if fl_lt fl start a \<and> fl_lt fl start b then fl_max fl m (fl_sub fl b a) else m)
       (windows2 (rl_times_ms l)) (fl_zero fl)"

text \<open>\<open>partial_cmp\<close> fails on numbers that are not comparable; the sort is stable.\<close>

fun insert_le :: "('a \<Rightarrow> 'a \<Rightarrow> bool) \<Rightarrow> 'a \<Rightarrow> 'a list \<Rightarrow> 'a list" where
  "insert_le le x [] = [x]"
| "insert_le le x (y # ys) = (if le x y then x # y # ys else y # insert_le le x ys)"

definition sort_le :: "('a \<Rightarrow> 'a \<Rightarrow> bool) \<Rightarrow> 'a list \<Rightarrow> 'a list" where
  "sort_le le xs = foldr (insert_le le) xs []"

definition comparable :: "'f f64_ops \<Rightarrow> 'f list \<Rightarrow> bool" where
  "comparable fl xs \<longleftrightarrow> length xs \<le> 1 \<or> (\<forall>x \<in> set xs. fl_le fl x x)"

definition median :: "'f f64_ops \<Rightarrow> 'f list \<Rightarrow> 'f option" where
  "median fl v =
     (if v = [] \<or> \<not> comparable fl v then None
      else let s = sort_le (fl_le fl) v; n = length v in
        if n mod 2 = 1 then Some (s ! (n div 2))
        else Some (fl_div fl (fl_add fl (s ! (n div 2 - 1)) (s ! (n div 2))) (fl_dec fl 2 0)))"

subsection \<open>One round\<close>

record 'f round_result =
  ro_ttft_p50_ms :: 'f
  ro_tpot_p50_ms :: 'f
  ro_wall_ms :: 'f
  ro_steady_start_ms :: 'f
  ro_steady_max_gap_ms :: 'f
  ro_ramp_max_gap_ms :: 'f
  ro_interleave_ok :: bool
  ro_threshold_ms :: 'f
  ro_batched_steps :: u64
  ro_batch_fallbacks :: u64
  ro_batch_size_mean :: 'f

text \<open>What a round computes from the logs, the wall time and the counters before and after.\<close>

definition round_of ::
  "'f f64_ops \<Rightarrow> 'f \<Rightarrow> u64 \<times> u64 \<times> u64 \<Rightarrow> u64 \<times> u64 \<times> u64 \<Rightarrow> 'f req_log list \<Rightarrow> 'f round_result option" where
  "round_of fl wall bm0 bm1 logs =
     (if \<exists>l \<in> set logs. rl_times_ms l = [] then None
      else
        let start = fold (\<lambda>l m. fl_max fl m (hd (rl_times_ms l))) logs (fl_zero fl);
            gap = fold (\<lambda>l m. fl_max fl m (steady_max_gap_ms fl l start)) logs (fl_zero fl);
            ramp = fold (\<lambda>(a, b) m. fl_max fl m (fl_sub fl b a))
                     (concat (map (windows2 \<circ> rl_times_ms) logs)) (fl_zero fl);
            quantum = fl_div fl wall (fl_nat fl (unat bench_max_new));
            threshold = fl_mul fl (fl_mul fl (fl_dec fl 30 1) quantum) (fl_dec fl 13 1);
            steps = fst bm1 - fst bm0;
            falls = fst (snd bm1) - fst (snd bm0);
            mean = (if steps > 0
                    then fl_div fl (fl_nat fl (unat (snd (snd bm1) - snd (snd bm0)))) (fl_nat fl (unat steps))
                    else fl_zero fl)
        in case (median fl (map rl_ttft_ms logs), median fl (map rl_tpot_ms logs)) of
             (Some p, Some q) \<Rightarrow>
               Some \<lparr>ro_ttft_p50_ms = p, ro_tpot_p50_ms = q, ro_wall_ms = wall,
                     ro_steady_start_ms = start, ro_steady_max_gap_ms = gap, ro_ramp_max_gap_ms = ramp,
                     ro_interleave_ok = fl_le fl gap threshold, ro_threshold_ms = threshold,
                     ro_batched_steps = steps, ro_batch_fallbacks = falls, ro_batch_size_mean = mean\<rparr>
           | _ \<Rightarrow> None)"

text \<open>\<open>k\<close> submissions, each with the time after it; a refusal is a panic.\<close>

fun submit_all :: "('w, 'h) bench_io \<Rightarrow> generation_job \<Rightarrow> nat \<Rightarrow> 'w \<Rightarrow> ('h \<times> nat) list option \<times> 'w" where
  "submit_all io job 0 w = (Some [], w)"
| "submit_all io job (Suc k) w =
     (case io_submit io job w of
        (None, w1) \<Rightarrow> (None, w1)
      | (Some h, w1) \<Rightarrow>
          (let (t, w2) = io_now io w1; (rest, w3) = submit_all io job k w2
           in (map_option ((#) (h, t)) rest, w3)))"

fun join_all ::
  "('w, 'h) bench_io \<Rightarrow> 'f f64_ops \<Rightarrow> nat \<Rightarrow> ('h \<times> nat) list \<Rightarrow> 'w \<Rightarrow> 'f req_log list option \<times> 'w" where
  "join_all io fl t0 [] w = (Some [], w)"
| "join_all io fl t0 ((h, submitted) # hs) w =
     (let (evs, w1) = io_recv io h w in
      case consume fl submitted t0 evs of
        None \<Rightarrow> (None, w1)
      | Some l \<Rightarrow> (let (rest, w2) = join_all io fl t0 hs w1 in (map_option ((#) l) rest, w2)))"

definition run_round ::
  "('w, 'h) bench_io \<Rightarrow> 'f f64_ops \<Rightarrow> i32 list \<Rightarrow> nat \<Rightarrow> bool \<Rightarrow> 'w \<Rightarrow>
   ('f round_result \<times> u64 list option) option \<times> 'w" where
  "run_round io fl prompt k sample w =
     (let bm0 = batch_counters (io_metrics io w);
          (t0, w1) = io_now io w
      in case submit_all io \<lparr>gj_prompt_ids = prompt, gj_config = greedy_config\<rparr> k w1 of
           (None, w2) \<Rightarrow> (None, w2)
         | (Some hs, w2) \<Rightarrow>
             (case join_all io fl t0 hs w2 of
                (None, w3) \<Rightarrow> (None, w3)
              | (Some logs, w3) \<Rightarrow>
                  (let (t1, w4) = io_now io w3;
                       bm1 = batch_counters (io_metrics io w4);
                       (vram, w5) = (if sample then let (s, w') = io_samples io w4 in (Some s, w') else (None, w4))
                   in (map_option (\<lambda>r. (r, vram)) (round_of fl (millis fl (t1 - t0)) bm0 bm1 logs), w5))))"

subsection \<open>One arm\<close>

record workload =
  wl_tag :: string
  wl_prompt_len :: nat
  wl_ctx_cap :: u32
  wl_ks_dual :: "nat list"
  wl_ks_batch_only :: "nat list"
  wl_vram_k :: "nat option"
  wl_judge_k1 :: bool

record 'f arm_result =
  am_summary :: "json list"
  am_rounds :: "json list"
  am_tpot_k1 :: 'f
  am_agg_k1 :: 'f
  am_agg_by_k :: "(nat \<times> 'f) list"
  am_vram :: json

definition jfl :: "'f f64_ops \<Rightarrow> 'f \<Rightarrow> json" where
  "jfl fl x = (case fl_bits fl x of Some b \<Rightarrow> JNum (N_Float b) | None \<Rightarrow> JNull)"

text \<open>\<open>(x * 10^n).round() / 10^n\<close>.\<close>

definition rounded :: "'f f64_ops \<Rightarrow> nat \<Rightarrow> 'f \<Rightarrow> json" where
  "rounded fl n x =
     (let p = fl_dec fl (10 ^ n) 0 in jfl fl (fl_div fl (fl_round fl (fl_mul fl x p)) p))"

fun submit_warm :: "('w, 'h) bench_io \<Rightarrow> generation_job \<Rightarrow> nat \<Rightarrow> 'w \<Rightarrow> 'h list option \<times> 'w" where
  "submit_warm io job 0 w = (Some [], w)"
| "submit_warm io job (Suc k) w =
     (case io_submit io job w of
        (None, w1) \<Rightarrow> (None, w1)
      | (Some h, w1) \<Rightarrow> (let (rest, w2) = submit_warm io job k w1 in (map_option ((#) h) rest, w2)))"

definition warmup :: "('w, 'h) bench_io \<Rightarrow> i32 list \<Rightarrow> 'w \<Rightarrow> unit option \<times> 'w" where
  "warmup io prompt w =
     (case submit_warm io \<lparr>gj_prompt_ids = prompt, gj_config = greedy_config\<lparr>gc_max_new_tokens := 16\<rparr>\<rparr> 8 w of
        (None, w1) \<Rightarrow> (None, w1)
      | (Some hs, w1) \<Rightarrow> (Some (), fold (\<lambda>h w. snd (io_recv io h w)) hs w1))"

definition arm_options :: "workload \<Rightarrow> mc_model_options" where
  "arm_options wl =
     default_model_options\<lparr>mo_max_sessions := 8, mo_max_context_tokens := wl_ctx_cap wl, mo_enable_cuda_graph := 1\<rparr>"

definition arm_config :: "string option \<Rightarrow> bool \<Rightarrow> sched_config" where
  "arm_config batch_off batching =
     (sched_config_default batch_off)\<lparr>sc_max_sessions := 8, sc_queue_limit := 32, sc_batching := batching\<rparr>"

definition vram_json :: "string \<Rightarrow> nat \<Rightarrow> u64 list \<Rightarrow> json" where
  "vram_json arm k samples =
     JObj [(''arm'', JStr arm), (''k'', jnat (of_nat k)), (''interval_ms'', jnat 250),
           (''samples'', jnat (of_nat (length samples))),
           (''used_mb_min'', jnat (Min (set samples))), (''used_mb_max'', jnat (Max (set samples)))]"

definition aggregate :: "'f f64_ops \<Rightarrow> nat \<Rightarrow> 'f round_result \<Rightarrow> 'f" where
  "aggregate fl k r =
     fl_div fl (fl_nat fl (k * unat bench_max_new)) (fl_div fl (ro_wall_ms r) (fl_dec fl 1000 0))"

definition round_json :: "'f f64_ops \<Rightarrow> string \<Rightarrow> workload \<Rightarrow> nat \<Rightarrow> nat \<Rightarrow> u64 \<Rightarrow> 'f round_result \<Rightarrow> json" where
  "round_json fl arm wl k rd util r =
     JObj [(''arm'', JStr arm), (''workload'', JStr (wl_tag wl)), (''k'', jnat (of_nat k)),
           (''round'', jnat (of_nat rd)), (''util_before_pct'', jnat util),
           (''ttft_p50_ms'', rounded fl 1 (ro_ttft_p50_ms r)), (''tpot_p50_ms'', rounded fl 3 (ro_tpot_p50_ms r)),
           (''steady_start_ms'', rounded fl 1 (ro_steady_start_ms r)),
           (''steady_max_gap_ms'', rounded fl 1 (ro_steady_max_gap_ms r)),
           (''ramp_max_gap_ms'', rounded fl 1 (ro_ramp_max_gap_ms r)),
           (''interleave_threshold_ms'', rounded fl 1 (ro_threshold_ms r)),
           (''interleave_ok'', JBool (ro_interleave_ok r)), (''wall_ms'', rounded fl 1 (ro_wall_ms r)),
           (''agg_tok_per_s'', rounded fl 1 (aggregate fl k r)),
           (''batched_steps'', jnat (ro_batched_steps r)),
           (''batch_size_mean'', rounded fl 2 (ro_batch_size_mean r)),
           (''batch_fallbacks'', jnat (ro_batch_fallbacks r))]"

text \<open>The rounds of one \<open>k\<close>: the results, the records, and the last memory samples.\<close>

fun arm_rounds ::
  "('w, 'h) bench_io \<Rightarrow> 'f f64_ops \<Rightarrow> string \<Rightarrow> workload \<Rightarrow> i32 list \<Rightarrow> nat \<Rightarrow> nat list \<Rightarrow> json \<Rightarrow> 'w \<Rightarrow>
   ('f round_result list \<times> json list \<times> json) option \<times> 'w" where
  "arm_rounds io fl arm wl prompt k [] vram w = (Some ([], [], vram), w)"
| "arm_rounds io fl arm wl prompt k (rd # rds) vram w =
     (let (util, w1) = wait_idle io w in
      case run_round io fl prompt k (wl_vram_k wl = Some k \<and> rd = 0) w1 of
        (None, w2) \<Rightarrow> (None, w2)
      | (Some (r, samples), w2) \<Rightarrow>
          (let vram1 = (case samples of Some (x # xs) \<Rightarrow> vram_json arm k (x # xs) | _ \<Rightarrow> vram);
               (rest, w3) = arm_rounds io fl arm wl prompt k rds vram1 w2
           in (map_option (\<lambda>(rs, js, v). (r # rs, round_json fl arm wl k rd util r # js, v)) rest, w3)))"

definition add_k :: "'f f64_ops \<Rightarrow> nat \<Rightarrow> 'f round_result list \<Rightarrow> json list \<Rightarrow> json \<Rightarrow> 'f arm_result \<Rightarrow> 'f arm_result option" where
  "add_k fl k rs js vram a =
     (case (median fl (map ro_ttft_p50_ms rs), median fl (map ro_tpot_p50_ms rs), median fl (map (aggregate fl k) rs)) of
        (Some p, Some q, Some g) \<Rightarrow>
          Some \<lparr>am_summary = am_summary a @
                  [JObj [(''k'', jnat (of_nat k)), (''ttft_p50_ms'', rounded fl 2 p),
                         (''tpot_p50_ms'', rounded fl 3 q), (''agg_tok_per_s'', rounded fl 1 g)]],
                am_rounds = am_rounds a @ js,
                am_tpot_k1 = (if k = 1 then q else am_tpot_k1 a), am_agg_k1 = (if k = 1 then g else am_agg_k1 a),
                am_agg_by_k = am_agg_by_k a @ [(k, g)], am_vram = vram\<rparr>
      | _ \<Rightarrow> None)"

fun arm_ks ::
  "('w, 'h) bench_io \<Rightarrow> 'f f64_ops \<Rightarrow> string \<Rightarrow> workload \<Rightarrow> i32 list \<Rightarrow> nat list \<Rightarrow> 'f arm_result \<Rightarrow> 'w \<Rightarrow>
   'f arm_result option \<times> 'w" where
  "arm_ks io fl arm wl prompt [] a w = (Some a, w)"
| "arm_ks io fl arm wl prompt (k # ks) a w =
     (case arm_rounds io fl arm wl prompt k [0..<bench_rounds] (am_vram a) w of
        (None, w1) \<Rightarrow> (None, w1)
      | (Some (rs, js, vram), w1) \<Rightarrow>
          (case add_k fl k rs js vram a of
             None \<Rightarrow> (None, w1) | Some a1 \<Rightarrow> arm_ks io fl arm wl prompt ks a1 w1))"

text \<open>\<open>Some (Inl e)\<close> is an error of loading the model or of starting the scheduler.\<close>

definition run_arm ::
  "('w, 'h) bench_io \<Rightarrow> 'f f64_ops \<Rightarrow> string option \<Rightarrow> string \<Rightarrow> bool \<Rightarrow> nat list \<Rightarrow> workload \<Rightarrow> 'w \<Rightarrow>
   (string + 'f arm_result) option \<times> 'w" where
  "run_arm io fl batch_off arm batching ks wl w =
     (let prompt = make_prompt (wl_prompt_len wl) in
      case io_start io (arm_options wl) (arm_config batch_off batching) w of
        (Inl e, w1) \<Rightarrow> (Some (Inl e), w1)
      | (Inr _, w1) \<Rightarrow>
          (case warmup io prompt w1 of
             (None, w2) \<Rightarrow> (None, w2)
           | (Some _, w2) \<Rightarrow>
               (case arm_ks io fl arm wl prompt ks
                       \<lparr>am_summary = [], am_rounds = [], am_tpot_k1 = fl_zero fl, am_agg_k1 = fl_zero fl,
                        am_agg_by_k = [], am_vram = JNull\<rparr> w2 of
                  (None, w3) \<Rightarrow> (None, w3)
                | (Some a, w3) \<Rightarrow> (Some (Inr a), io_stop io w3))))"

subsection \<open>Both arms, the comparison and the verdicts\<close>

definition workloads :: "workload list" where
  "workloads =
     [\<lparr>wl_tag = ''official_ctx2048_tier2560'', wl_prompt_len = 2048, wl_ctx_cap = 2048 + 512,
       wl_ks_dual = [1, 2, 4, 8], wl_ks_batch_only = [5, 6, 7], wl_vram_k = Some 8, wl_judge_k1 = True\<rparr>,
      \<lparr>wl_tag = ''b3_e2e_tier512_prompt256'', wl_prompt_len = 256, wl_ctx_cap = 512,
       wl_ks_dual = [8], wl_ks_batch_only = [], wl_vram_k = None, wl_judge_k1 = False\<rparr>]"

definition ks_batch :: "workload \<Rightarrow> nat list" where
  "ks_batch wl = remdups_adj (sort (wl_ks_dual wl @ wl_ks_batch_only wl))"

definition ks_solo :: "workload \<Rightarrow> nat list" where
  "ks_solo wl = sort (wl_ks_dual wl)"

text \<open>\<open>Value\<close> indexing: \<open>null\<close> for a missing key.\<close>

definition json_at :: "json \<Rightarrow> string \<Rightarrow> json" where
  "json_at j key = (case json_get j key of Some v \<Rightarrow> v | None \<Rightarrow> JNull)"

definition summary_of :: "json list \<Rightarrow> nat \<Rightarrow> json option" where
  "summary_of js k = find (\<lambda>s. json_at s ''k'' = jnat (of_nat k)) js"

definition agg_of :: "'f arm_result \<Rightarrow> nat \<Rightarrow> 'f option" where
  "agg_of a k = map_option snd (find (\<lambda>p. fst p = k) (am_agg_by_k a))"

definition side_json :: "json \<Rightarrow> json" where
  "side_json s =
     JObj [(''ttft_p50_ms'', json_at s ''ttft_p50_ms''), (''tpot_p50_ms'', json_at s ''tpot_p50_ms''),
           (''agg_tok_per_s'', json_at s ''agg_tok_per_s'')]"

definition compare_k :: "'f f64_ops \<Rightarrow> 'f arm_result \<Rightarrow> 'f arm_result \<Rightarrow> nat \<times> 'f \<Rightarrow> json option" where
  "compare_k fl batch solo ka =
     (case ka of (k, batch_agg) \<Rightarrow>
        (case summary_of (am_summary batch) k of
           None \<Rightarrow> None
         | Some bs \<Rightarrow>
             (case agg_of solo k of
                Some solo_agg \<Rightarrow>
                  (case summary_of (am_summary solo) k of
                     None \<Rightarrow> None
                   | Some ss \<Rightarrow>
                       Some (JObj [(''k'', jnat (of_nat k)), (''batch'', side_json bs), (''solo'', side_json ss),
                                   (''speedup_batch_over_solo'', rounded fl 3 (fl_div fl batch_agg solo_agg))]))
              | None \<Rightarrow>
                  Some (JObj [(''k'', jnat (of_nat k)), (''batch'', side_json bs), (''solo'', JNull),
                              (''speedup_batch_over_solo'', JNull)]))))"

fun all_some :: "'a option list \<Rightarrow> 'a list option" where
  "all_some [] = Some []"
| "all_some (x # xs) = (case x of None \<Rightarrow> None | Some y \<Rightarrow> map_option ((#) y) (all_some xs))"

text \<open>A size that is no power of two lies between the results for 4 and 8; sizes that were not run are
  skipped.\<close>

definition nonpow2 :: "'f f64_ops \<Rightarrow> workload \<Rightarrow> 'f arm_result \<Rightarrow> json option" where
  "nonpow2 fl wl batch =
     (if wl_ks_batch_only wl = [] then Some JNull
      else case (agg_of batch 4, agg_of batch 8) of
        (Some a4, Some a8) \<Rightarrow>
          (let found = concat (map (\<lambda>k. case agg_of batch k of None \<Rightarrow> [] | Some a \<Rightarrow> [(k, a)]) (wl_ks_batch_only wl));
               ok = (\<lambda>a. fl_lt fl a4 a \<and> fl_lt fl a (fl_mul fl a8 (fl_dec fl 105 2)))
           in Some (JObj [(''ok'', JBool (list_all (\<lambda>(k, a). ok a) found)),
                          (''entries'', JArr (map (\<lambda>(k, a).
                             JObj [(''k'', jnat (of_nat k)), (''agg_tok_per_s'', rounded fl 1 a), (''ok'', JBool (ok a))]) found))]))
      | _ \<Rightarrow> None)"

definition verdict_json :: "'f f64_ops \<Rightarrow> 'f arm_result \<Rightarrow> 'f \<Rightarrow> json" where
  "verdict_json fl solo k8 =
     JObj [(''k8_batch_agg_tok_s'', rounded fl 1 k8),
           (''k8_solo_recheck_agg_tok_s'', (case agg_of solo 8 of Some v \<Rightarrow> rounded fl 1 v | None \<Rightarrow> JNull)),
           (''go_gate'', jfl fl (go_gate_tok_s fl)), (''go'', JBool (fl_le fl (go_gate_tok_s fl) k8)),
           (''vs_vllm_k8'', rounded fl 3 (fl_div fl k8 (vllm_k8_tok_s fl))),
           (''vs_path_a_k8'', rounded fl 3 (fl_div fl k8 (path_a_k8_tok_s fl)))]"

definition k1_deviation :: "'f f64_ops \<Rightarrow> 'f \<Rightarrow> 'f" where
  "k1_deviation fl t =
     fl_mul fl (fl_div fl (fl_sub fl t (baseline_tpot_ms fl)) (baseline_tpot_ms fl)) (fl_dec fl 1000 1)"

definition k1_ok :: "'f f64_ops \<Rightarrow> 'f \<Rightarrow> bool" where
  "k1_ok fl t \<longleftrightarrow> fl_lt fl (fl_abs fl (k1_deviation fl t)) (fl_dec fl 20 1)"

text \<open>\<open>txt\<close> are the note texts of the report and the message of the failed regression check (without its
  number), by name: constants that nothing reads.\<close>

definition k1_json :: "'f f64_ops \<Rightarrow> (string \<Rightarrow> string) \<Rightarrow> workload \<Rightarrow> 'f arm_result \<Rightarrow> 'f arm_result \<Rightarrow> json" where
  "k1_json fl txt wl batch solo =
     JObj [(''workload'', JStr (wl_tag wl)), (''arm'', JStr ''batch''),
           (''tpot_p50_ms'', rounded fl 4 (am_tpot_k1 batch)), (''native_direct_ms'', jfl fl (baseline_tpot_ms fl)),
           (''deviation_pct'', rounded fl 2 (k1_deviation fl (am_tpot_k1 batch))),
           (''ok_lt2pct'', JBool (k1_ok fl (am_tpot_k1 batch))),
           (''solo_arm_tpot_p50_ms'', rounded fl 4 (am_tpot_k1 solo)), (''note'', JStr (txt ''k1'')),
           (''batch_arm_agg_k1'', rounded fl 1 (am_agg_k1 batch))]"

definition arm_json :: "'f arm_result \<Rightarrow> json" where
  "arm_json a = JObj [(''summary'', JArr (am_summary a)), (''rounds'', JArr (am_rounds a))]"

definition workload_json ::
  "(string \<Rightarrow> string) \<Rightarrow> workload \<Rightarrow> 'f arm_result \<Rightarrow> 'f arm_result \<Rightarrow> json list \<Rightarrow> json \<Rightarrow> json \<Rightarrow> json" where
  "workload_json txt wl batch solo combined np verdict =
     JObj [(''prompt_len'', jnat (of_nat (wl_prompt_len wl))), (''ctx_cap'', jnat (ucast (wl_ctx_cap wl))),
           (''note'', JStr (txt (if wl_judge_k1 wl then ''official'' else ''b3''))),
           (''summary'', JArr combined), (''nonpow2_k567'', np),
           (''arms'', JObj [(''batch'', arm_json batch), (''solo'', arm_json solo)]),
           (''vram_k8_batch'', am_vram batch), (''verdict'', verdict)]"

text \<open>What \<open>main\<close> keeps between workloads.\<close>

record report =
  re_workloads :: "(string \<times> json) list"
  re_k1 :: json
  re_official :: json

definition judge_workload ::
  "'f f64_ops \<Rightarrow> (string \<Rightarrow> string) \<Rightarrow> workload \<Rightarrow> 'f arm_result \<Rightarrow> 'f arm_result \<Rightarrow> report \<Rightarrow> (string + report) option" where
  "judge_workload fl txt wl batch solo re =
     (case (all_some (map (compare_k fl batch solo) (am_agg_by_k batch)), nonpow2 fl wl batch, agg_of batch 8) of
        (Some combined, Some np, Some k8) \<Rightarrow>
          if wl_judge_k1 wl \<and> \<not> k1_ok fl (am_tpot_k1 batch)
          then Some (Inl (txt ''k1 deviation''))
          else
            (let verdict = verdict_json fl solo k8 in
             Some (Inr
               \<lparr>re_workloads = obj_insert (re_workloads re) (wl_tag wl) (workload_json txt wl batch solo combined np verdict),
                re_k1 = (if wl_judge_k1 wl then k1_json fl txt wl batch solo else re_k1 re),
                re_official = (if wl_judge_k1 wl then verdict else re_official re)\<rparr>))
      | _ \<Rightarrow> None)"

fun run_workloads ::
  "('w, 'h) bench_io \<Rightarrow> 'f f64_ops \<Rightarrow> string option \<Rightarrow> (string \<Rightarrow> string) \<Rightarrow> workload list \<Rightarrow> report \<Rightarrow> 'w \<Rightarrow>
   (string + report) option \<times> 'w" where
  "run_workloads io fl bo txt [] re w = (Some (Inr re), w)"
| "run_workloads io fl bo txt (wl # wls) re w =
     (case run_arm io fl bo ''batch'' True (ks_batch wl) wl w of
        (Some (Inr batch), w1) \<Rightarrow>
          (case run_arm io fl bo ''solo'' False (ks_solo wl) wl w1 of
             (Some (Inr solo), w2) \<Rightarrow>
               (case judge_workload fl txt wl batch solo re of
                  Some (Inr re1) \<Rightarrow> run_workloads io fl bo txt wls re1 w2
                | r \<Rightarrow> (r, w2))
           | (Some (Inl e), w2) \<Rightarrow> (Some (Inl e), w2)
           | (None, w2) \<Rightarrow> (None, w2))
      | (Some (Inl e), w1) \<Rightarrow> (Some (Inl e), w1)
      | (None, w1) \<Rightarrow> (None, w1))"

definition is_go :: "json \<Rightarrow> bool" where
  "is_go verdict \<longleftrightarrow> as_bool (json_at verdict ''go'') = Some True"

definition overall_json :: "(string \<Rightarrow> string) \<Rightarrow> report \<Rightarrow> json" where
  "overall_json txt re =
     JObj [(''official_ctx2048_tier2560_go'', JBool (is_go (re_official re))),
           (''b3_e2e_tier512_prompt256_go'',
            JBool (case map_of (re_workloads re) ''b3_e2e_tier512_prompt256'' of
                     None \<Rightarrow> False | Some w \<Rightarrow> is_go (json_at w ''verdict''))),
           (''statement'', JStr (txt ''statement''))]"

text \<open>\<open>fixed\<close> are the constant members of the report (purpose, methodology).\<close>

definition bench_main ::
  "('w, 'h) bench_io \<Rightarrow> 'f f64_ops \<Rightarrow> string option \<Rightarrow> (string \<Rightarrow> string) \<Rightarrow> (string \<Rightarrow> json) \<Rightarrow> 'w \<Rightarrow>
   (string + unit) option \<times> 'w" where
  "bench_main io fl bo txt fixed w =
     (let (gpu, w1) = gpu_info io w in
      case run_workloads io fl bo txt workloads \<lparr>re_workloads = [], re_k1 = JNull, re_official = JNull\<rparr> w1 of
        (Some (Inr re), w2) \<Rightarrow>
          (let (ts, w3) = io_epoch_ms io w2;
               (r, w4) = io_write io
                 (JObj [(''timestamp'', jnat ts), (''purpose'', fixed ''purpose''),
                        (''environment'',
                         JObj [(''gpu'', JStr gpu), (''model'', fixed ''model''), (''native_lib'', fixed ''native_lib''),
                               (''cuda_graph'', JBool True), (''cuda_graph_note'', fixed ''cuda_graph_note'')]),
                        (''methodology'', fixed ''methodology''),
                        (''baseline'',
                         JObj [(''perf_sweep_ctx2048_bf16_ms'', jfl fl (baseline_tpot_ms fl)),
                               (''go_gate_k8_tok_s'', jfl fl (go_gate_tok_s fl)),
                               (''vllm_k8_tok_s'', jfl fl (vllm_k8_tok_s fl)),
                               (''vllm_k4_tok_s'', jfl fl (fl_dec fl 3139 1)),
                               (''path_a_k8_tok_s'', jfl fl (path_a_k8_tok_s fl)),
                               (''native_batch_8slot_tok_s'', jfl fl (fl_dec fl 9960 1))]),
                        (''k1_regression'', re_k1 re), (''workloads'', JObj (re_workloads re)),
                        (''verdict'', overall_json txt re)]) w3
           in (Some r, w4))
      | (Some (Inl e), w2) \<Rightarrow> (Some (Inl e), w2)
      | (None, w2) \<Rightarrow> (None, w2))"

end
