(* ===== verification/Bench_Props.thy ===== *)
theory Bench_Props
  imports Bench Worker_Reference
begin

section \<open>The concurrency benchmark: what it accepts and where it can fail\<close>

text \<open>
  A stream is accepted exactly when it delivers the full 64 tokens and then ends; together with the
  reference replies of the worker this says that a reply with an end-of-sequence token aborts the
  benchmark. Every lookup of the report finds its entry, so a panic comes from an arm.
\<close>

subsection \<open>What a round accepts\<close>

lemma consume_events_first_last:
  assumes "consume_events fl t0 evs c = Some c1"
    and "co_times c = [] \<or> co_first c \<noteq> None \<and> co_last c \<noteq> None"
  shows "co_times c1 = [] \<or> co_first c1 \<noteq> None \<and> co_last c1 \<noteq> None"
  using assms
  by (induction fl t0 evs c rule: consume_events.induct) (auto split: gen_event.splits option.splits)

lemma consume_events_grows:
  "consume_events fl t0 evs c = Some c1 \<Longrightarrow> length (co_times c) \<le> length (co_times c1)"
  by (induction fl t0 evs c rule: consume_events.induct) (auto split: gen_event.splits)

lemma token_then_done:
  "(\<exists>toks r u rest. Ge_Token x # es = map Ge_Token toks @ Ge_Done r u # rest \<and> length toks = n) \<longleftrightarrow>
   (\<exists>k. n = Suc k \<and> (\<exists>toks r u rest. es = map Ge_Token toks @ Ge_Done r u # rest \<and> length toks = k))"
  (is "?l \<longleftrightarrow> ?r")
proof
  assume ?l
  then obtain toks r u rest where "Ge_Token x # es = map Ge_Token toks @ Ge_Done r u # rest" "length toks = n" by blast
  then obtain us where "es = map Ge_Token us @ Ge_Done r u # rest \<and> length us = n - 1" "n = Suc (n - 1)"
    by (cases toks) auto
  then show ?r by blast
next
  assume ?r
  then obtain toks r u rest where "es = map Ge_Token toks @ Ge_Done r u # rest" "n = Suc (length toks)" by blast
  then have "Ge_Token x # es = map Ge_Token (x # toks) @ Ge_Done r u # rest \<and> length (x # toks) = n" by simp
  then show ?l by blast
qed

text \<open>The tokens before the first other event are counted, and that event must end the stream well.\<close>

lemma consume_events_done:
  assumes "\<not> co_done c"
  shows "(\<exists>c1. consume_events fl t0 evs c = Some c1 \<and> co_done c1 \<and> length (co_times c1) = length (co_times c) + n) \<longleftrightarrow>
    (\<exists>toks r u rest. map fst evs = map Ge_Token toks @ Ge_Done r u # rest \<and> length toks = n)"
  using assms
proof (induction evs arbitrary: c n)
  case (Cons p evs)
  obtain ev t where p: "p = (ev, t)" by (cases p)
  show ?case
  proof (cases ev)
    case (Ge_Token x)
    let ?c = "c\<lparr>co_first := (case co_first c of None \<Rightarrow> Some t | f \<Rightarrow> f), co_last := Some t,
      co_times := co_times c @ [millis fl (t - t0)]\<rparr>"
    note eq = token_then_done [of x _ n]
    show ?thesis
    proof (cases n)
      case 0
      have "co_times c1 \<noteq> []" "length (co_times c1) > length (co_times c)"
        if "consume_events fl t0 evs ?c = Some c1" for c1
        using consume_events_grows [OF that] by auto
      then show ?thesis using 0 eq by (fastforce simp: p Ge_Token)
    next
      case (Suc k)
      then show ?thesis using Cons.IH [of ?c k] Cons.prems eq by (simp add: p Ge_Token)
    qed
  qed (auto simp: p Cons_eq_append_conv Cons.prems)
qed simp

text \<open>A stream is accepted exactly when it is 64 tokens and a terminal \<open>Done\<close>.\<close>

theorem consume_accepts:
  "consume fl sub t0 evs \<noteq> None \<longleftrightarrow>
     (\<exists>toks r u rest. map fst evs = map Ge_Token toks @ Ge_Done r u # rest \<and> length toks = unat bench_max_new)"
proof -
  let ?c0 = "\<lparr>co_first = None, co_last = None, co_times = [] :: 'a list, co_done = False\<rparr>"
  have "consume fl sub t0 evs \<noteq> None \<longleftrightarrow>
    (\<exists>c1. consume_events fl t0 evs ?c0 = Some c1 \<and> co_done c1 \<and> length (co_times c1) = unat bench_max_new)"
  proof (cases "consume_events fl t0 evs ?c0")
    case (Some c1)
    have "co_first c1 \<noteq> None \<and> co_last c1 \<noteq> None" if "length (co_times c1) = unat bench_max_new"
      using consume_events_first_last [OF Some] that by (auto simp: bench_max_new_def)
    with Some show ?thesis by (auto simp: consume_def split: option.splits)
  qed (simp add: consume_def)
  with consume_events_done [of ?c0 fl t0 evs "unat bench_max_new"] show ?thesis by simp
qed

text \<open>A reply that ends at an end-of-sequence token is shorter than its budget.\<close>

lemma ref_reply_stop:
  "snd (ref_reply nxt ids c n ts) = Fr_Stop \<Longrightarrow> length (fst (ref_reply nxt ids c n ts)) < length ts + n"
proof (induction n arbitrary: ts)
  case (Suc n)
  from Suc.prems Suc.IH [of "ts @ [nxt ids ts c]"] show ?case by (auto split: if_splits)
qed simp

lemma tokens_then_same:
  "map Ge_Token a @ xs = map Ge_Token b @ Ge_Done r u # ys \<Longrightarrow> (\<And>t zs. xs \<noteq> Ge_Token t # zs) \<Longrightarrow>
   a = b \<and> xs = Ge_Done r u # ys"
proof (induction a arbitrary: b)
  case Nil
  then show ?case by (cases b) auto
next
  case (Cons x a)
  then obtain b' where "b = x # b'" by (cases b) auto
  with Cons show ?case by auto
qed

abbreviation bench_job :: "i32 list \<Rightarrow> generation_job" where
  "bench_job prompt \<equiv> \<lparr>gj_prompt_ids = prompt, gj_config = greedy_config\<rparr>"

lemma consume_stopped:
  assumes "ref_log nxt (bench_job prompt) (map fst evs) \<or> ref_cut nxt (bench_job prompt) (map fst evs)"
    and "snd (reply_of nxt (bench_job prompt)) = Fr_Stop"
  shows "consume fl sub t0 evs = None"
proof (rule ccontr)
  assume "consume fl sub t0 evs \<noteq> None"
  then obtain toks r u rest where e: "map fst evs = map Ge_Token toks @ Ge_Done r u # rest"
    and l: "length toks = unat bench_max_new" using consume_accepts by metis
  obtain out r' where o: "reply_of nxt (bench_job prompt) = (out, r')" by (cases "reply_of nxt (bench_job prompt)")
  have "length out < unat bench_max_new"
    using assms(2) o ref_reply_stop [of nxt prompt greedy_config "max_tokens (bench_job prompt)" "[]"]
    by (simp add: reply_of_def max_tokens_def greedy_config_def bench_max_new_def)
  moreover have "length toks \<le> length out"
  proof -
    have same: "toks = us \<and> xs = Ge_Done r u # rest"
      if "map fst evs = map Ge_Token us @ xs" "\<And>t zs. xs \<noteq> Ge_Token t # zs" for us xs
      using tokens_then_same [of us xs toks r u rest] that e by auto
    from assms(1) show ?thesis
    proof
      assume "ref_log nxt (bench_job prompt) (map fst evs)"
      then show ?thesis unfolding ref_log_def o by (auto dest!: same)
    next
      assume "ref_cut nxt (bench_job prompt) (map fst evs)"
      then obtain n where "map fst evs = map Ge_Token (take n out) @ []" by (auto simp: ref_cut_def o)
      from same [OF this] show ?thesis by simp
    qed
  qed
  ultimately show False using l by simp
qed

lemma submit_all_some: "fst (submit_all io job (Suc k) w) = Some hs \<Longrightarrow> hs \<noteq> []"
  by (auto split: prod.splits option.splits)


text \<open>Numbers and a world for the witnesses: integers, a scheduler that ends every stream at once.\<close>

definition int_ops :: "int f64_ops" where
  "int_ops =
     \<lparr>fl_nat = int, fl_dec = (\<lambda>m k. int (m div 10 ^ k)), fl_secs = int, fl_add = (+), fl_sub = (-), fl_mul = (*),
      fl_div = (div), fl_max = max, fl_le = (\<le>), fl_lt = (<), fl_abs = abs, fl_round = id, fl_bits = (\<lambda>x. None)\<rparr>"

definition eos_io :: "(nat, unit) bench_io" where
  "eos_io =
     \<lparr>io_smi = (\<lambda>f w. (None, w)), io_now = (\<lambda>w. (w, w + 1)), io_start = (\<lambda>mo sc w. (Inr (), w)), io_stop = id,
      io_submit = (\<lambda>j w. (Some (), w)), io_recv = (\<lambda>h w. ([(Ge_Done Fr_Stop (usage_for (bench_job [5]) 0), w)], w)),
      io_metrics = (\<lambda>w. metrics_default), io_samples = (\<lambda>w. ([], w)), io_epoch_ms = (\<lambda>w. (0, w)),
      io_write = (\<lambda>j w. (Inr (), w))\<rparr>"

definition refusing_io :: "(nat, unit) bench_io" where
  "refusing_io = eos_io\<lparr>io_submit := (\<lambda>j w. (None, w))\<rparr>"


subsection \<open>What the report can fail on\<close>

text \<open>\<open>covers ks a\<close>: the summaries and the aggregates of an arm are those of \<open>ks\<close>, in order.\<close>

definition covers :: "nat list \<Rightarrow> 'f arm_result \<Rightarrow> bool" where
  "covers ks a \<longleftrightarrow>
     map fst (am_agg_by_k a) = ks \<and> map (\<lambda>s. json_at s ''k'') (am_summary a) = map (\<lambda>k. jnat (of_nat k)) ks"

lemma add_k_covers: "add_k fl k rs js v a = Some a1 \<Longrightarrow> covers ks a \<Longrightarrow> covers (ks @ [k]) a1"
  by (auto simp: add_k_def covers_def json_at_def split: option.splits)

lemma arm_ks_covers:
  "arm_ks io fl arm wl prompt ks a w = (Some a1, w1) \<Longrightarrow> covers ks0 a \<Longrightarrow> covers (ks0 @ ks) a1"
proof (induction ks arbitrary: a w ks0)
  case (Cons k ks)
  from Cons.prems(1) obtain rs js v w' a' where "add_k fl k rs js v a = Some a'"
    "arm_ks io fl arm wl prompt ks a' w' = (Some a1, w1)"
    by (auto split: prod.splits option.splits)
  with Cons.IH [of a' w' "ks0 @ [k]"] add_k_covers Cons.prems(2) show ?case by fastforce
qed simp

lemma run_arm_covers:
  assumes "run_arm io fl bo arm on ks wl w = (Some (Inr a), w1)"
  shows "covers ks a"
proof -
  let ?a0 = "\<lparr>am_summary = [], am_rounds = [], am_tpot_k1 = fl_zero fl, am_agg_k1 = fl_zero fl,
    am_agg_by_k = [], am_vram = JNull\<rparr>"
  obtain w2 w3 where "arm_ks io fl arm wl (make_prompt (wl_prompt_len wl)) ks ?a0 w2 = (Some a, w3)"
    using assms by (auto simp: run_arm_def Let_def split: prod.splits sum.splits option.splits)
  from arm_ks_covers [OF this, of "[]"] show ?thesis by (simp add: covers_def)
qed

lemma find_some: "find P xs \<noteq> None \<longleftrightarrow> (\<exists>x \<in> set xs. P x)"
  by (auto simp: find_None_iff)

lemma covers_lookup:
  assumes "covers ks a"
  shows "k \<in> set ks \<Longrightarrow> summary_of (am_summary a) k \<noteq> None" "agg_of a k \<noteq> None \<longleftrightarrow> k \<in> set ks"
proof -
  have s: "set ks = fst ` set (am_agg_by_k a)" using assms unfolding covers_def by (metis list.set_map)
  then show "agg_of a k \<noteq> None \<longleftrightarrow> k \<in> set ks" unfolding agg_of_def option.map_disc_iff find_some by (simp add: image_iff Bex_def)
  assume "k \<in> set ks"
  then have "jnat (of_nat k) \<in> set (map (\<lambda>s. json_at s ''k'') (am_summary a))"
    using assms by (simp add: covers_def)
  then show "summary_of (am_summary a) k \<noteq> None" unfolding summary_of_def find_some by auto
qed

lemma all_some_map: "(\<And>x. x \<in> set xs \<Longrightarrow> f x \<noteq> None) \<Longrightarrow> all_some (map f xs) \<noteq> None"
  by (induction xs) (auto split: option.splits)

lemma judge_total:
  assumes "covers ks a" "covers ks' b" "8 \<in> set ks" "wl_ks_batch_only wl = [] \<or> 4 \<in> set ks"
  shows "judge_workload fl txt wl a b re \<noteq> None"
proof -
  have "compare_k fl a b p \<noteq> None" if "p \<in> set (am_agg_by_k a)" for p
  proof -
    have "fst p \<in> set ks" using that assms(1) unfolding covers_def by (metis imageI list.set_map)
    with covers_lookup [OF assms(1), of "fst p"] covers_lookup [OF assms(2), of "fst p"]
    show ?thesis by (cases p) (auto simp: compare_k_def split: option.splits)
  qed
  then have "all_some (map (compare_k fl a b) (am_agg_by_k a)) \<noteq> None" by (rule all_some_map)
  moreover have g: "agg_of a 8 \<noteq> None" "wl_ks_batch_only wl = [] \<or> agg_of a 4 \<noteq> None"
    using covers_lookup(2) [OF assms(1)] assms(3,4) by simp_all
  moreover have "nonpow2 fl wl a \<noteq> None" using g by (auto simp: nonpow2_def Let_def)
  ultimately show ?thesis by (auto simp: judge_workload_def Let_def)
qed

lemma run_workloads_panic:
  assumes "\<And>wl. wl \<in> set wls \<Longrightarrow> 8 \<in> set (ks_batch wl) \<and> (wl_ks_batch_only wl = [] \<or> 4 \<in> set (ks_batch wl))"
  shows "run_workloads io fl bo txt wls re w = (None, w1) \<Longrightarrow>
    \<exists>arm on ks. \<exists>wl \<in> set wls. \<exists>w0. run_arm io fl bo arm on ks wl w0 = (None, w1)"
  using assms
proof (induction wls arbitrary: re w)
  case (Cons wl wls)
  have j: "judge_workload fl txt wl a b re' \<noteq> None"
    if "run_arm io fl bo ''batch'' True (ks_batch wl) wl v = (Some (Inr a), v1)"
      "run_arm io fl bo ''solo'' False (ks_solo wl) wl v1 = (Some (Inr b), v2)" for v v1 v2 a b re'
    using Cons.prems(2) [of wl] by (intro judge_total [OF run_arm_covers [OF that(1)] run_arm_covers [OF that(2)]]) simp_all
  obtain rb v where b: "run_arm io fl bo ''batch'' True (ks_batch wl) wl w = (rb, v)"
    by (cases "run_arm io fl bo ''batch'' True (ks_batch wl) wl w")
  obtain rs v' where sv: "run_arm io fl bo ''solo'' False (ks_solo wl) wl v = (rs, v')"
    by (cases "run_arm io fl bo ''solo'' False (ks_solo wl) wl v")
  have in_arm: ?case if "run_arm io fl bo arm on ks wl w0 = (None, w1)" for arm on ks w0
    using that by auto
  consider "rb = None" | e where "rb = Some (Inl e)" | a where "rb = Some (Inr a)" "rs = None"
    | a e where "rb = Some (Inr a)" "rs = Some (Inl e)" | a a' where "rb = Some (Inr a)" "rs = Some (Inr a')"
    by (metis option.exhaust sum.exhaust)
  then show ?case
  proof cases
    case 5
    from 5 b sv obtain r where "judge_workload fl txt wl a a' re = Some r"
      using j [of w a v a' v' re] by auto
    with 5 b sv Cons.prems(1) obtain re1 where "run_workloads io fl bo txt wls re1 v' = (None, w1)"
      by (cases r) auto
    from Cons.IH [OF this Cons.prems(2)] show ?thesis by fastforce
  qed (use b sv Cons.prems(1) in_arm in auto)
qed simp

text \<open>The lookups of the report, by \<open>k\<close> and for the sizes 4 and 8, find their entries: when the whole benchmark
  panics, an arm did.\<close>

theorem bench_panics_only_in_arms:
  assumes "run_workloads io fl bo txt workloads re w = (None, w1)"
  shows "\<exists>arm on ks. \<exists>wl \<in> set workloads. \<exists>w0. run_arm io fl bo arm on ks wl w0 = (None, w1)"
  by (rule run_workloads_panic [OF _ assms]) (auto simp: workloads_def ks_batch_def)

theorem bench_panics_only_in_arms_witness:
  "\<exists>arm on ks. \<exists>wl \<in> set workloads. \<exists>w0.
     run_arm refusing_io int_ops None arm on ks wl w0 = ((None, 0) :: (string + int arm_result) option \<times> nat)"
proof (rule bench_panics_only_in_arms)
  show "run_workloads refusing_io int_ops None id workloads \<lparr>re_workloads = [], re_k1 = JNull, re_official = JNull\<rparr> 0 = (None, 0)"
    by (simp add: workloads_def run_arm_def warmup_def refusing_io_def eos_io_def numeral_eq_Suc)
qed

end
