(* ===== verification/Generation_Loop.thy ===== *)
theory Generation_Loop
  imports Stop Stream_Decode Tool_Call Scheduler
begin

section \<open>The generation loop shared by the protocols\<close>

text \<open>
  \<open>run_generation\<close> and its helpers in \<open>minicpm-server/src/chat.rs\<close>: the scheduler's events go
  through the stop conditions, the incremental detokenizer and the tool-call parser and come
  out as protocol-neutral emissions. The consumer is the closure \<open>emit\<close>, a function of the
  emission and its own state \<open>'k\<close>, which returns false when the client is gone. The events are
  the list that \<open>recv\<close> yields before the channel closes. The parameters \<open>quote\<close> and \<open>ser\<close> print
  JSON, \<open>dec\<close> is the prompt builder's \<open>decode_ids\<close>. The outer \<open>option\<close> is a panic of a slice.
\<close>

datatype emission =
    Em_Role
  | Em_Content string
  | Em_ToolStart nat string string
  | Em_ToolArgs nat string
  | Em_Final string usage
  | Em_Error string

record gen_result =
  gr_content :: string
  gr_tool_calls :: "tool_call list"
  gr_finish_reason :: finish_reason
  gr_usage :: usage
  gr_error :: "string option"

subsection \<open>Argument fragments\<close>

record tool_arg_stream =
  ta_index :: nat
  ta_next_index :: nat
  ta_open :: bool
  ta_cur_param :: "string option"

definition ta_default :: tool_arg_stream where
  "ta_default = \<lparr>ta_index = 0, ta_next_index = 0, ta_open = False, ta_cur_param = None\<rparr>"

text \<open>\<open>str::trim_matches\<close> of one character.\<close>

definition trim_matches :: "char \<Rightarrow> string \<Rightarrow> string" where
  "trim_matches c s = rev (dropWhile (\<lambda>x. x = c) (rev (dropWhile (\<lambda>x. x = c) s)))"

definition escape_json_fragment :: "(string \<Rightarrow> string) \<Rightarrow> string \<Rightarrow> string" where
  "escape_json_fragment quote s = trim_matches DQ (quote s)"

definition begin_call :: "nat \<Rightarrow> tool_arg_stream \<Rightarrow> tool_arg_stream" where
  "begin_call index ta =
     ta\<lparr>ta_index := index, ta_next_index := index + 1, ta_open := False, ta_cur_param := None\<rparr>"

definition ta_param ::
  "(string \<Rightarrow> string) \<Rightarrow> string \<Rightarrow> string \<Rightarrow> tool_arg_stream \<Rightarrow> string list \<times> tool_arg_stream" where
  "ta_param quote name v ta =
     (if ta_cur_param ta = Some name then ([escape_json_fragment quote v], ta)
      else
        ((if ta_cur_param ta \<noteq> None then [[DQ]] else []) @
         [if ta_open ta then '','' else ''{''] @
         [[DQ] @ escape_json_fragment quote name @ [DQ] @ '':''] @
         [[DQ]] @ [escape_json_fragment quote v],
         ta\<lparr>ta_open := True, ta_cur_param := Some name\<rparr>))"

definition ta_end_call :: "tool_arg_stream \<Rightarrow> string list \<times> tool_arg_stream" where
  "ta_end_call ta =
     ((if ta_cur_param ta \<noteq> None then [[DQ]] else []) @
      [if ta_open ta then ''}'' else ''{}''],
      ta\<lparr>ta_open := False, ta_cur_param := None\<rparr>)"

fun push_tool_event ::
  "(string \<Rightarrow> string) \<Rightarrow> tool_arg_stream \<Rightarrow> tool_call_event \<Rightarrow> emission list \<times> tool_arg_stream" where
  "push_tool_event quote ta (Ev_Text t) = ([Em_Content t], ta)"
| "push_tool_event quote ta (Ev_Start name) =
     (let index = ta_next_index ta; ta1 = begin_call index ta
      in ([Em_ToolStart index (''call_'' @ dec_digits index) name], ta1))"
| "push_tool_event quote ta (Ev_Param name v) =
     (let (chunks, ta1) = ta_param quote name v ta in (map (Em_ToolArgs (ta_index ta1)) chunks, ta1))"
| "push_tool_event quote ta (Ev_End c) =
     (let (chunks, ta1) = ta_end_call ta in (map (Em_ToolArgs (ta_index ta1)) chunks, ta1))"

text \<open>\<open>for ev in events { push_tool_event(..) }\<close>\<close>

fun push_tool_events ::
  "(string \<Rightarrow> string) \<Rightarrow> tool_arg_stream \<Rightarrow> tool_call_event list \<Rightarrow> emission list \<times> tool_arg_stream" where
  "push_tool_events quote ta [] = ([], ta)"
| "push_tool_events quote ta (ev # evs) =
     (let (es, ta1) = push_tool_event quote ta ev; (fs, ta2) = push_tool_events quote ta1 evs
      in (es @ fs, ta2))"

subsection \<open>The loop\<close>

type_synonym 'k emit = "emission \<Rightarrow> 'k \<Rightarrow> bool \<times> 'k"

record 'k gen_loop =
  gl_stop :: stop_state
  gl_decoder :: stream_decoder
  gl_tool :: tool_parser
  gl_args :: tool_arg_stream
  gl_emitted :: nat
  gl_reason :: "finish_reason option"
  gl_failed :: "string option"
  gl_gone :: bool
  gl_sink :: 'k

text \<open>Each emission of \<open>pending\<close> in order; false, and the flag, at the first that is refused.\<close>

fun emit_pending :: "'k emit \<Rightarrow> emission list \<Rightarrow> 'k gen_loop \<Rightarrow> bool \<times> 'k gen_loop" where
  "emit_pending out [] g = (True, g)"
| "emit_pending out (em # ems) g =
     (case out em (gl_sink g) of
        (True, k) \<Rightarrow> emit_pending out ems (g\<lparr>gl_sink := k\<rparr>)
      | (False, k) \<Rightarrow> (False, g\<lparr>gl_sink := k, gl_gone := True\<rparr>))"

definition forward_tool_text ::
  "(string \<Rightarrow> string) \<Rightarrow> (json \<Rightarrow> string) \<Rightarrow> 'k emit \<Rightarrow> string \<Rightarrow> 'k gen_loop \<Rightarrow> bool \<times> 'k gen_loop" where
  "forward_tool_text quote ser out chunk g =
     (let (tp, events) = tp_push ser (gl_tool g) chunk;
          (pending, ta) = push_tool_events quote (gl_args g) events
      in emit_pending out pending (g\<lparr>gl_tool := tp, gl_args := ta\<rparr>))"

text \<open>\<open>StreamDecodeError\<close>'s \<open>Display\<close>.\<close>

definition decode_error_text :: "string \<Rightarrow> string" where
  "decode_error_text e = ''decode backend error: '' @ e"

text \<open>The bytes from \<open>emitted\<close> up to \<open>n\<close>: \<open>visible_text(n)[emitted..n]\<close>.\<close>

definition unsent :: "stop_state \<Rightarrow> nat \<Rightarrow> nat \<Rightarrow> string option" where
  "unsent st emitted n =
     (case visible_text st n of None \<Rightarrow> None | Some vis \<Rightarrow> slice vis emitted n)"

definition on_text ::
  "(string \<Rightarrow> string) \<Rightarrow> (json \<Rightarrow> string) \<Rightarrow> 'k emit \<Rightarrow> string \<Rightarrow> 'k gen_loop \<Rightarrow>
   (bool \<times> 'k gen_loop) option" where
  "on_text quote ser out txt g =
     (case push_text (gl_stop g) txt of
        None \<Rightarrow> None
      | Some (hit, ss) \<Rightarrow>
          (let g1 = g\<lparr>gl_stop := ss\<rparr>; safe = safe_len ss;
               stop_or_go = (\<lambda>g2. if hit \<noteq> None then (False, g2\<lparr>gl_reason := Some Fr_Stop\<rparr>) else (True, g2))
           in if safe > gl_emitted g1
              then (case unsent ss (gl_emitted g1) safe of
                      None \<Rightarrow> None
                    | Some chunk \<Rightarrow>
                        (case forward_tool_text quote ser out chunk (g1\<lparr>gl_emitted := safe\<rparr>) of
                           (False, g2) \<Rightarrow> Some (False, g2)
                         | (True, g2) \<Rightarrow> Some (stop_or_go g2)))
              else Some (stop_or_go g1)))"

definition on_token ::
  "(string \<Rightarrow> string) \<Rightarrow> (json \<Rightarrow> string) \<Rightarrow> decode_fn \<Rightarrow> 'k emit \<Rightarrow> i32 \<Rightarrow> 'k gen_loop \<Rightarrow>
   (bool \<times> 'k gen_loop) option" where
  "on_token quote ser dec out i g =
     (let (hit, ss) = check_token (gl_stop g) i; g0 = g\<lparr>gl_stop := ss\<rparr>
      in if hit \<noteq> None then Some (False, g0\<lparr>gl_reason := Some Fr_Stop\<rparr>)
         else case sd_push (gl_decoder g0) (ucast i) dec of
           None \<Rightarrow> None
         | Some (Inl e, sd) \<Rightarrow>
             Some (False, g0\<lparr>gl_decoder := sd, gl_failed := Some (decode_error_text e)\<rparr>)
         | Some (Inr None, sd) \<Rightarrow> Some (True, g0\<lparr>gl_decoder := sd\<rparr>)
         | Some (Inr (Some txt), sd) \<Rightarrow> on_text quote ser out txt (g0\<lparr>gl_decoder := sd\<rparr>))"

fun on_event ::
  "(string \<Rightarrow> string) \<Rightarrow> (json \<Rightarrow> string) \<Rightarrow> decode_fn \<Rightarrow> 'k emit \<Rightarrow> gen_event \<Rightarrow> 'k gen_loop \<Rightarrow>
   (bool \<times> 'k gen_loop) option" where
  "on_event quote ser dec out (Ge_Token i) g = on_token quote ser dec out i g"
| "on_event quote ser dec out (Ge_Done r _) g = Some (False, g\<lparr>gl_reason := Some r\<rparr>)"
| "on_event quote ser dec out (Ge_Failed e) g = Some (False, g\<lparr>gl_failed := Some e\<rparr>)"

fun event_loop ::
  "(string \<Rightarrow> string) \<Rightarrow> (json \<Rightarrow> string) \<Rightarrow> decode_fn \<Rightarrow> 'k emit \<Rightarrow> gen_event list \<Rightarrow> 'k gen_loop \<Rightarrow>
   'k gen_loop option" where
  "event_loop quote ser dec out [] g = Some g"
| "event_loop quote ser dec out (ev # evs) g =
     (case on_event quote ser dec out ev g of
        None \<Rightarrow> None
      | Some (True, g1) \<Rightarrow> event_loop quote ser dec out evs g1
      | Some (False, g1) \<Rightarrow> Some g1)"

subsection \<open>The final flush\<close>

definition flush_decoder :: "decode_fn \<Rightarrow> 'k gen_loop \<Rightarrow> 'k gen_loop option" where
  "flush_decoder dec g =
     (case sd_finish (gl_decoder g) dec of
        None \<Rightarrow> None
      | Some (Inl e, sd) \<Rightarrow> Some (g\<lparr>gl_decoder := sd, gl_failed := Some (decode_error_text e)\<rparr>)
      | Some (Inr None, sd) \<Rightarrow> Some (g\<lparr>gl_decoder := sd\<rparr>)
      | Some (Inr (Some txt), sd) \<Rightarrow>
          (case push_text (gl_stop g) txt of
             None \<Rightarrow> None
           | Some (_, ss) \<Rightarrow> Some (g\<lparr>gl_decoder := sd, gl_stop := ss\<rparr>)))"

definition flush_text ::
  "(string \<Rightarrow> string) \<Rightarrow> (json \<Rightarrow> string) \<Rightarrow> 'k emit \<Rightarrow> 'k gen_loop \<Rightarrow> 'k gen_loop option" where
  "flush_text quote ser out g =
     (case stop_finish (gl_stop g) of
        None \<Rightarrow> None
      | Some (fin, ss) \<Rightarrow>
          (let g1 = g\<lparr>gl_stop := ss\<rparr> in
           if fin > gl_emitted g1
           then (case unsent ss (gl_emitted g1) fin of
                   None \<Rightarrow> None
                 | Some chunk \<Rightarrow>
                     Some (snd (forward_tool_text quote ser out chunk (g1\<lparr>gl_emitted := fin\<rparr>))))
           else Some g1))"

definition flush_tools ::
  "(string \<Rightarrow> string) \<Rightarrow> (json \<Rightarrow> string) \<Rightarrow> 'k emit \<Rightarrow> 'k gen_loop \<Rightarrow> 'k gen_loop" where
  "flush_tools quote ser out g =
     (let (tp, events) = tp_finish ser (gl_tool g);
          (pending, ta) = push_tool_events quote (gl_args g) events
      in snd (emit_pending out pending (g\<lparr>gl_tool := tp, gl_args := ta\<rparr>)))"

definition final_flush ::
  "(string \<Rightarrow> string) \<Rightarrow> (json \<Rightarrow> string) \<Rightarrow> decode_fn \<Rightarrow> 'k emit \<Rightarrow> 'k gen_loop \<Rightarrow> 'k gen_loop option" where
  "final_flush quote ser dec out g =
     (if gl_failed g \<noteq> None \<or> gl_gone g then Some g
      else case flush_decoder dec g of
        None \<Rightarrow> None
      | Some g1 \<Rightarrow>
          (case (if gl_failed g1 = None then flush_text quote ser out g1 else Some g1) of
             None \<Rightarrow> None
           | Some g2 \<Rightarrow>
               Some (if gl_failed g2 = None \<and> \<not> gl_gone g2
                     then flush_tools quote ser out g2 else g2)))"

definition gen_start :: "string list \<Rightarrow> 'k \<Rightarrow> 'k gen_loop" where
  "gen_start stops k =
     \<lparr>gl_stop = stop_new eos_ids stops, gl_decoder = sd_new, gl_tool = tp_new,
      gl_args = ta_default, gl_emitted = 0, gl_reason = None, gl_failed = None,
      gl_gone = False, gl_sink = k\<rparr>"

text \<open>The last emission and the result.\<close>

definition gen_end :: "'k emit \<Rightarrow> u64 \<Rightarrow> 'k gen_loop \<Rightarrow> (gen_result \<times> 'k) option" where
  "gen_end out prompt_len g =
     (let reason = (if gl_failed g \<noteq> None then Fr_Error
                    else case gl_reason g of Some r \<Rightarrow> r | None \<Rightarrow> Fr_Cancelled);
          u = \<lparr>us_prompt_tokens = prompt_len,
               us_completion_tokens = of_nat (token_count (gl_decoder g))\<rparr>;
          k = (if gl_gone g then gl_sink g
               else case gl_failed g of
                 Some e \<Rightarrow> snd (out (Em_Error e) (gl_sink g))
               | None \<Rightarrow> snd (out (Em_Final (finish_reason_as_str reason) u) (gl_sink g)))
      in case visible_text (gl_stop g) (gl_emitted g) of
           None \<Rightarrow> None
         | Some content \<Rightarrow>
             Some (\<lparr>gr_content = content, gr_tool_calls = tp_calls (gl_tool g),
                    gr_finish_reason = reason, gr_usage = u, gr_error = gl_failed g\<rparr>, k))"

definition run_generation ::
  "(string \<Rightarrow> string) \<Rightarrow> (json \<Rightarrow> string) \<Rightarrow> decode_fn \<Rightarrow> 'k emit \<Rightarrow> string list \<Rightarrow> u64 \<Rightarrow>
   gen_event list \<Rightarrow> 'k \<Rightarrow> (gen_result \<times> 'k) option" where
  "run_generation quote ser dec out stops prompt_len events k =
     (case event_loop quote ser dec out events (gen_start stops (snd (out Em_Role k))) of
        None \<Rightarrow> None
      | Some g \<Rightarrow>
          (case final_flush quote ser dec out g of
             None \<Rightarrow> None
           | Some g1 \<Rightarrow> gen_end out prompt_len g1))"

subsection \<open>A consumer that records\<close>

text \<open>The log of a stream; \<open>alive log\<close> says whether the consumer accepts the last emission of \<open>log\<close>.\<close>

definition log_out :: "(emission list \<Rightarrow> bool) \<Rightarrow> emission list emit" where
  "log_out alive em log = (alive (log @ [em]), log @ [em])"

lemma log_out_apply: "log_out alive em log = (alive (log @ [em]), log @ [em])"
  by (simp add: log_out_def)

fun is_delta :: "emission \<Rightarrow> bool" where
  "is_delta (Em_Content _) = True"
| "is_delta (Em_ToolStart _ _ _) = True"
| "is_delta (Em_ToolArgs _ _) = True"
| "is_delta _ = False"

lemma push_tool_event_delta: "push_tool_event quote ta ev = (es, ta') \<Longrightarrow> list_all is_delta es"
  by (cases ev) (auto simp: Let_def list_all_iff split: prod.splits)

lemma push_tool_events_delta: "push_tool_events quote ta evs = (es, ta') \<Longrightarrow> list_all is_delta es"
  by (induction evs arbitrary: ta es ta')
     (auto simp: Let_def dest: push_tool_event_delta split: prod.splits)

lemma push_tool_events_append:
  "push_tool_events quote ta (xs @ ys) =
     (let (es, ta1) = push_tool_events quote ta xs; (fs, ta2) = push_tool_events quote ta1 ys
      in (es @ fs, ta2))"
  by (induction xs arbitrary: ta) (simp_all add: Let_def split: prod.splits)

lemma tp_feed_snoc:
  "tp_feed ser p (fs @ [f]) =
     (let (p1, e1) = tp_feed ser p fs; (p2, e2) = tp_push ser p1 f in (p2, e1 @ e2))"
  by (induction fs arbitrary: p) (simp_all add: Let_def split: prod.splits)

lemma emit_pending_log:
  "emit_pending (log_out alive) ems g = (b, g') \<Longrightarrow>
   \<exists>pre. prefix pre ems \<and> (b \<longrightarrow> pre = ems) \<and>
     (\<not> b \<longrightarrow> pre \<noteq> [] \<and> \<not> alive (gl_sink g @ pre)) \<and>
     g' = g\<lparr>gl_sink := gl_sink g @ pre, gl_gone := gl_gone g \<or> \<not> b\<rparr>"
proof (induction ems arbitrary: g)
  case Nil
  then show ?case by simp
next
  case (Cons em ems)
  show ?case
  proof (cases "alive (gl_sink g @ [em])")
    case True
    have "log_out alive em (gl_sink g) = (True, gl_sink g @ [em])" by (simp add: log_out_apply True)
    with Cons.prems have "emit_pending (log_out alive) ems (g\<lparr>gl_sink := gl_sink g @ [em]\<rparr>) = (b, g')"
      by simp
    from Cons.IH [OF this] obtain pre where "prefix pre ems" "b \<longrightarrow> pre = ems"
      "\<not> b \<longrightarrow> pre \<noteq> [] \<and> \<not> alive (gl_sink g @ em # pre)"
      "g' = g\<lparr>gl_sink := gl_sink g @ em # pre, gl_gone := gl_gone g \<or> \<not> b\<rparr>" by auto
    then show ?thesis by (intro exI [of _ "em # pre"]) auto
  next
    case False
    have "log_out alive em (gl_sink g) = (False, gl_sink g @ [em])" by (simp add: log_out_apply False)
    with Cons.prems False show ?thesis by (intro exI [of _ "[em]"]) auto
  qed
qed

subsection \<open>Invariants of the loop\<close>

text \<open>The first \<open>n\<close> bytes may be shown: no stop string can start among them any more.\<close>

definition shown :: "stop_state \<Rightarrow> nat \<Rightarrow> bool" where
  "shown st n \<longleftrightarrow>
     (case ss_matched st of
        Some i \<Rightarrow> n \<le> i
      | None \<Rightarrow> n \<le> length (ss_text st) - (max_pattern_len st - 1))"

lemma shown_safe_len: "shown st (safe_len st)"
  using floor_le [of "ss_text st"] by (simp add: shown_def safe_len_def split: option.split)

lemma shown_le: "stop_inv st \<Longrightarrow> shown st n \<Longrightarrow> n \<le> length (ss_text st)"
  by (cases "ss_matched st")
     (auto simp: shown_def earliest_stop_Some dest!: stop_inv_matched_text stop_at_le)

lemma shown_push:
  assumes inv: "stop_inv st" and push: "push_text st f = Some (h, st')" and n: "shown st n"
  shows "shown st' n \<and> take n (ss_text st') = take n (ss_text st)"
proof (cases rule: push_text_SomeE [OF inv push, case_names skip miss hit])
  case skip
  with n show ?thesis by simp
next
  case miss
  from miss(1) inv have "ss_matched st = None" by (auto simp: stop_inv_def)
  with miss n shown_le [OF inv n] show ?thesis by (simp add: shown_def)
next
  case (hit i)
  from hit(1) inv have none: "ss_matched st = None" by (auto simp: stop_inv_def)
  with inv have "ss_text st = [] \<or> earliest_stop (stop_strings st) (ss_text st) = None"
    by (auto simp: stop_inv_def)
  moreover have "stop_at (stop_strings st) (ss_text st @ f) i"
    using hit(4) by (simp add: earliest_stop_Some)
  ultimately have "length (ss_text st) - (max_pattern_len st - 1) \<le> i"
    using inv safe_before_match by (simp add: stop_inv_def)
  with hit none n shown_le [OF inv n] show ?thesis by (simp add: shown_def)
qed

lemma shown_earliest:
  assumes "stop_inv st" "shown st n" "earliest_stop (stop_strings st) (ss_text st) = Some i"
  shows "n \<le> i"
proof (cases "ss_text st = []")
  case True
  with shown_le [OF assms(1,2)] show ?thesis by simp
next
  case False
  with assms show ?thesis by (auto simp: stop_inv_def shown_def)
qed

definition stop_part :: "string list \<Rightarrow> 'k gen_loop \<Rightarrow> bool" where
  "stop_part pats g \<longleftrightarrow>
     stop_inv (gl_stop g) \<and> stop_strings (gl_stop g) = pats \<and> shown (gl_stop g) (gl_emitted g)"

text \<open>What went to the parser is the released text, and what came out of it went to the consumer.\<close>

definition piped ::
  "(string \<Rightarrow> string) \<Rightarrow> (json \<Rightarrow> string) \<Rightarrow> (emission list \<Rightarrow> bool) \<Rightarrow> string list \<Rightarrow> tool_call_event list \<Rightarrow>
   emission list gen_loop \<Rightarrow> bool" where
  "piped quote ser alive fs evs g \<longleftrightarrow>
     concat fs = take (gl_emitted g) (ss_text (gl_stop g)) \<and>
     (\<exists>ems pre. push_tool_events quote ta_default evs = (ems, gl_args g) \<and> prefix pre ems \<and>
        gl_sink g = Em_Role # pre \<and> (\<not> gl_gone g \<longrightarrow> pre = ems) \<and>
        (gl_gone g \<longrightarrow> pre \<noteq> [] \<and> \<not> alive (Em_Role # pre)))"

definition wired ::
  "(string \<Rightarrow> string) \<Rightarrow> (json \<Rightarrow> string) \<Rightarrow> (emission list \<Rightarrow> bool) \<Rightarrow> emission list gen_loop \<Rightarrow> bool" where
  "wired quote ser alive g \<longleftrightarrow>
     (\<exists>fs evs. tp_feed ser tp_new fs = (gl_tool g, evs) \<and> piped quote ser alive fs evs g)"

lemma piped_emit:
  assumes p: "piped quote ser alive fs evs g" and "\<not> gl_gone g"
    and pe: "push_tool_events quote (gl_args g) evs' = (pending, ta)"
    and g1: "gl_sink g1 = gl_sink g" "gl_gone g1 = gl_gone g" "gl_args g1 = ta"
      "concat fs @ x = take (gl_emitted g1) (ss_text (gl_stop g1))"
    and em: "emit_pending (log_out alive) pending g1 = (b, g2)"
  shows "piped quote ser alive (fs @ [x]) (evs @ evs') g2 \<and> (b \<longleftrightarrow> \<not> gl_gone g2) \<and>
    gl_stop g2 = gl_stop g1 \<and> gl_emitted g2 = gl_emitted g1 \<and> gl_tool g2 = gl_tool g1 \<and>
    gl_decoder g2 = gl_decoder g1 \<and> gl_reason g2 = gl_reason g1 \<and> gl_failed g2 = gl_failed g1"
proof -
  obtain ems where ems: "push_tool_events quote ta_default evs = (ems, gl_args g)" "gl_sink g = Em_Role # ems"
    using p assms(2) by (auto simp: piped_def)
  obtain pre where pre: "prefix pre pending" "b \<longrightarrow> pre = pending"
    "\<not> b \<longrightarrow> pre \<noteq> [] \<and> \<not> alive (gl_sink g1 @ pre)"
    "g2 = g1\<lparr>gl_sink := gl_sink g1 @ pre, gl_gone := gl_gone g1 \<or> \<not> b\<rparr>"
    using emit_pending_log [OF em] by blast
  have "push_tool_events quote ta_default (evs @ evs') = (ems @ pending, ta)"
    using ems(1) pe by (simp add: push_tool_events_append)
  with pre g1 ems assms(2) show ?thesis by (auto simp: piped_def)
qed

lemma forward_wired:
  assumes w: "wired quote ser alive g" and "\<not> gl_gone g"
    and g1: "gl_sink g1 = gl_sink g" "gl_gone g1 = gl_gone g" "gl_args g1 = gl_args g" "gl_tool g1 = gl_tool g"
      "take (gl_emitted g) (ss_text (gl_stop g)) @ chunk = take (gl_emitted g1) (ss_text (gl_stop g1))"
    and f: "forward_tool_text quote ser (log_out alive) chunk g1 = (b, g2)"
  shows "wired quote ser alive g2 \<and> (b \<longleftrightarrow> \<not> gl_gone g2) \<and>
    gl_stop g2 = gl_stop g1 \<and> gl_emitted g2 = gl_emitted g1 \<and>
    gl_decoder g2 = gl_decoder g1 \<and> gl_reason g2 = gl_reason g1 \<and> gl_failed g2 = gl_failed g1"
proof -
  obtain fs evs where fs: "tp_feed ser tp_new fs = (gl_tool g, evs)" "piped quote ser alive fs evs g"
    using w by (auto simp: wired_def)
  obtain tp events where tp: "tp_push ser (gl_tool g) chunk = (tp, events)" by (cases "tp_push ser (gl_tool g) chunk")
  obtain pending ta where ta: "push_tool_events quote (gl_args g) events = (pending, ta)"
    by (cases "push_tool_events quote (gl_args g) events")
  let ?g = "g1\<lparr>gl_tool := tp, gl_args := ta\<rparr>"
  have em: "emit_pending (log_out alive) pending ?g = (b, g2)"
    using f tp ta g1 by (simp add: forward_tool_text_def)
  have "concat fs @ chunk = take (gl_emitted ?g) (ss_text (gl_stop ?g))"
    using fs(2) g1(5) by (simp add: piped_def)
  note p = piped_emit [OF fs(2) assms(2) ta _ _ _ this em]
  have "tp_feed ser tp_new (fs @ [chunk]) = (tp, evs @ events)"
    using fs(1) tp by (simp add: tp_feed_snoc)
  with p g1 show ?thesis by (auto simp: wired_def)
qed

lemma unsent_SomeD:
  "unsent st a n = Some chunk \<Longrightarrow> a \<le> n \<and> n \<le> length (ss_text st) \<and>
   take a (ss_text st) @ chunk = take n (ss_text st)"
  by (auto simp: unsent_def visible_text_def slice_def slice_to_def boundary_le min_def
           split: option.splits if_splits simp flip: take_add)
     (metis append_take_drop_id min.absorb1 take_take)

lemma wired_fields:
  "gl_sink g' = gl_sink g \<Longrightarrow> gl_gone g' = gl_gone g \<Longrightarrow> gl_args g' = gl_args g \<Longrightarrow> gl_tool g' = gl_tool g \<Longrightarrow>
   take (gl_emitted g') (ss_text (gl_stop g')) = take (gl_emitted g) (ss_text (gl_stop g)) \<Longrightarrow>
   wired quote ser alive g' = wired quote ser alive g"
  by (simp add: wired_def piped_def)

lemma stop_part_fields:
  "gl_stop g' = gl_stop g \<Longrightarrow> gl_emitted g' = gl_emitted g \<Longrightarrow> stop_part pats g' = stop_part pats g"
  by (simp add: stop_part_def)

lemma check_token_fields:
  "check_token st i = (h, st') \<Longrightarrow> stop_inv st \<Longrightarrow>
   stop_inv st' \<and> ss_text st' = ss_text st \<and> stop_strings st' = stop_strings st \<and>
   (\<forall>n. shown st' n = shown st n)"
  by (auto simp: check_token_def stop_inv_def shown_def split: if_splits)

lemma on_text_inv:
  assumes s: "stop_part pats g" and w: "wired quote ser alive g" and "\<not> gl_gone g"
    and ot: "on_text quote ser (log_out alive) txt g = Some (b, g')"
  shows "stop_part pats g' \<and> wired quote ser alive g' \<and> (gl_gone g' \<longrightarrow> \<not> b) \<and>
    gl_decoder g' = gl_decoder g \<and> gl_failed g' = gl_failed g"
proof -
  obtain h ss where p: "push_text (gl_stop g) txt = Some (h, ss)"
    using ot by (cases "push_text (gl_stop g) txt") (auto simp: on_text_def)
  have inv: "stop_inv (gl_stop g)" and pats: "stop_strings (gl_stop g) = pats" and sh: "shown (gl_stop g) (gl_emitted g)"
    using s by (simp_all add: stop_part_def)
  have ss: "stop_inv ss" "stop_strings ss = pats" using stop_inv_push [OF inv p] pats by simp_all
  note keep = shown_push [OF inv p sh]
  let ?g1 = "g\<lparr>gl_stop := ss\<rparr>"
  have s1: "stop_part pats ?g1" using ss keep by (simp add: stop_part_def)
  have w1: "wired quote ser alive ?g1" using w keep by (subst wired_fields [of _ g]) simp_all
  show ?thesis
  proof (cases "safe_len ss > gl_emitted g")
    case False
    with ot p s1 w1 assms(3) show ?thesis
      by (auto simp: on_text_def Let_def stop_part_fields [of "_\<lparr>gl_reason := _\<rparr>" ?g1] wired_fields [of "_\<lparr>gl_reason := _\<rparr>" ?g1] split: if_splits)
  next
    case True
    obtain chunk where c: "unsent ss (gl_emitted g) (safe_len ss) = Some chunk"
      using ot p True by (cases "unsent ss (gl_emitted g) (safe_len ss)") (auto simp: on_text_def)
    obtain ok g2 where f: "forward_tool_text quote ser (log_out alive) chunk (?g1\<lparr>gl_emitted := safe_len ss\<rparr>) = (ok, g2)"
      by (cases "forward_tool_text quote ser (log_out alive) chunk (?g1\<lparr>gl_emitted := safe_len ss\<rparr>)")
    have fw: "wired quote ser alive g2 \<and> (ok \<longleftrightarrow> \<not> gl_gone g2) \<and> gl_stop g2 = ss \<and> gl_emitted g2 = safe_len ss \<and>
        gl_decoder g2 = gl_decoder g \<and> gl_failed g2 = gl_failed g"
      using forward_wired [OF w1 _ _ _ _ _ _ f] assms(3) unsent_SomeD [OF c] by simp
    then have s2: "stop_part pats g2" using ss shown_safe_len by (simp add: stop_part_def)
    have "(b, g') = (if ok then (if h \<noteq> None then (False, g2\<lparr>gl_reason := Some Fr_Stop\<rparr>) else (True, g2)) else (False, g2))"
      using ot p True c f by (cases ok) (auto simp: on_text_def Let_def)
    with fw s2 show ?thesis
      by (auto simp: stop_part_fields [of "_\<lparr>gl_reason := _\<rparr>" g2] wired_fields [of "_\<lparr>gl_reason := _\<rparr>" g2] split: if_splits)
  qed
qed

lemma on_event_inv:
  assumes s: "stop_part pats g" and w: "wired quote ser alive g" and ng: "\<not> gl_gone g"
    and oe: "on_event quote ser dec (log_out alive) ev g = Some (b, g')"
  shows "stop_part pats g' \<and> wired quote ser alive g' \<and> (gl_gone g' \<longrightarrow> \<not> b)"
proof (cases ev)
  case (Ge_Token i)
  obtain h ss where c: "check_token (gl_stop g) i = (h, ss)" by (cases "check_token (gl_stop g) i")
  have inv: "stop_inv (gl_stop g)" using s by (simp add: stop_part_def)
  note ct = check_token_fields [OF c inv]
  have s0: "stop_part pats g1 \<and> wired quote ser alive g1 \<and> \<not> gl_gone g1"
    if "gl_stop g1 = ss" "gl_emitted g1 = gl_emitted g" "gl_sink g1 = gl_sink g" "gl_gone g1 = gl_gone g"
      "gl_args g1 = gl_args g" "gl_tool g1 = gl_tool g" for g1
    using s w ct ng that wired_fields [of g1 g] by (simp add: stop_part_def)
  show ?thesis
  proof (cases "h = None \<and> (\<exists>txt sd. sd_push (gl_decoder g) (ucast i) dec = Some (Inr (Some txt), sd))")
    case True
    then obtain t sd where p: "h = None" "sd_push (gl_decoder g) (ucast i) dec = Some (Inr (Some t), sd)" by blast
    have "on_text quote ser (log_out alive) t (g\<lparr>gl_stop := ss, gl_decoder := sd\<rparr>) = Some (b, g')"
      using oe Ge_Token c p by (simp add: on_token_def)
    from on_text_inv [where pats = pats, OF _ _ _ this] s0 [of "g\<lparr>gl_stop := ss, gl_decoder := sd\<rparr>"]
    show ?thesis by simp
  next
    case False
    then have "stop_part pats g' \<and> wired quote ser alive g' \<and> \<not> gl_gone g'"
      using oe Ge_Token c
      by (intro s0) (auto simp: on_token_def Let_def split: if_splits option.splits sum.splits)
    then show ?thesis by simp
  qed
next
  case (Ge_Done r u)
  with oe ng s w show ?thesis
    by (auto simp: stop_part_fields [of "_\<lparr>gl_reason := _\<rparr>" g] wired_fields [of "_\<lparr>gl_reason := _\<rparr>" g])
next
  case (Ge_Failed e)
  with oe ng s w show ?thesis
    by (auto simp: stop_part_fields [of "_\<lparr>gl_failed := _\<rparr>" g] wired_fields [of "_\<lparr>gl_failed := _\<rparr>" g])
qed

lemma event_loop_inv:
  "stop_part pats g \<Longrightarrow> wired quote ser alive g \<Longrightarrow> \<not> gl_gone g \<Longrightarrow>
   event_loop quote ser dec (log_out alive) evs g = Some g' \<Longrightarrow>
   stop_part pats g' \<and> wired quote ser alive g'"
proof (induction evs arbitrary: g)
  case (Cons ev evs)
  obtain b g1 where oe: "on_event quote ser dec (log_out alive) ev g = Some (b, g1)"
    using Cons.prems(4) by (auto split: option.splits)
  note i = on_event_inv [OF Cons.prems(1-3) oe]
  show ?case
  proof (cases b)
    case True
    with i Cons.IH [of g1] Cons.prems(4) oe show ?thesis by auto
  next
    case False
    with i Cons.prems(4) oe show ?thesis by auto
  qed
qed simp

subsection \<open>The end of a generation\<close>

text \<open>The bytes released at the end: all before the earliest stop string.\<close>

definition cut_at_stop :: "string list \<Rightarrow> string \<Rightarrow> nat" where
  "cut_at_stop pats txt = (case earliest_stop pats txt of Some i \<Rightarrow> i | None \<Rightarrow> length txt)"

lemma shown_cut: "stop_inv st \<Longrightarrow> shown st n \<Longrightarrow> n \<le> cut_at_stop (stop_strings st) (ss_text st)"
  using shown_earliest shown_le by (auto simp: cut_at_stop_def split: option.split)

lemma cut_le: "cut_at_stop pats txt \<le> length txt"
  by (auto simp: cut_at_stop_def earliest_stop_Some split: option.split dest: stop_at_le)

text \<open>The state before the last emission: interrupted, or complete.\<close>

definition interrupted ::
  "(string \<Rightarrow> string) \<Rightarrow> (json \<Rightarrow> string) \<Rightarrow> (emission list \<Rightarrow> bool) \<Rightarrow> string list \<Rightarrow> emission list gen_loop \<Rightarrow> bool" where
  "interrupted quote ser alive pats g \<longleftrightarrow>
     (gl_failed g \<noteq> None \<or> gl_gone g) \<and> wired quote ser alive g \<and>
     gl_emitted g \<le> cut_at_stop pats (ss_text (gl_stop g))"

definition complete ::
  "(string \<Rightarrow> string) \<Rightarrow> (json \<Rightarrow> string) \<Rightarrow> (emission list \<Rightarrow> bool) \<Rightarrow> string list \<Rightarrow> emission list gen_loop \<Rightarrow> bool" where
  "complete quote ser alive pats g \<longleftrightarrow>
     gl_failed g = None \<and> gl_emitted g = cut_at_stop pats (ss_text (gl_stop g)) \<and>
     (\<exists>fs evs. tp_parse ser fs = (gl_tool g, evs) \<and> piped quote ser alive fs evs g)"

lemma stop_part_cut: "stop_part pats g \<Longrightarrow> gl_emitted g \<le> cut_at_stop pats (ss_text (gl_stop g))"
  using shown_cut [of "gl_stop g"] by (auto simp: stop_part_def)

lemma flush_decoder_inv:
  assumes s: "stop_part pats g" and w: "wired quote ser alive g" and fd: "flush_decoder dec g = Some g'"
  shows "stop_part pats g' \<and> wired quote ser alive g' \<and> gl_gone g' = gl_gone g"
proof -
  have inv: "stop_inv (gl_stop g)" and sh: "shown (gl_stop g) (gl_emitted g)" using s by (simp_all add: stop_part_def)
  have k: "stop_part pats g1 \<and> wired quote ser alive g1"
    if "gl_stop g1 = gl_stop g \<or> (\<exists>t h. push_text (gl_stop g) t = Some (h, gl_stop g1))"
      "gl_emitted g1 = gl_emitted g" "gl_sink g1 = gl_sink g" "gl_gone g1 = gl_gone g"
      "gl_args g1 = gl_args g" "gl_tool g1 = gl_tool g" for g1
    using that(1)
  proof
    assume "gl_stop g1 = gl_stop g"
    with that s w wired_fields [of g1 g] show ?thesis by (simp add: stop_part_def)
  next
    assume "\<exists>t h. push_text (gl_stop g) t = Some (h, gl_stop g1)"
    then obtain t h where t: "push_text (gl_stop g) t = Some (h, gl_stop g1)" by blast
    from stop_inv_push [OF inv t] shown_push [OF inv t sh] that s w wired_fields [of g1 g]
    show ?thesis by (simp add: stop_part_def)
  qed
  have "stop_part pats g' \<and> wired quote ser alive g'"
    using fd by (intro k) (auto simp: flush_decoder_def split: option.splits sum.splits)
  moreover have "gl_gone g' = gl_gone g"
    using fd by (auto simp: flush_decoder_def split: option.splits sum.splits)
  ultimately show ?thesis by simp
qed

lemma flush_text_inv:
  assumes s: "stop_part pats g" and w: "wired quote ser alive g" and ng: "\<not> gl_gone g"
    and ft: "flush_text quote ser (log_out alive) g = Some g'"
  shows "wired quote ser alive g' \<and> gl_failed g' = gl_failed g \<and>
    gl_emitted g' = cut_at_stop pats (ss_text (gl_stop g'))"
proof -
  have inv: "stop_inv (gl_stop g)" and pats: "stop_strings (gl_stop g) = pats"
    using s by (simp_all add: stop_part_def)
  obtain ss where fin: "stop_finish (gl_stop g) = Some (cut_at_stop pats (ss_text (gl_stop g)), ss)"
    and tx: "ss_text ss = ss_text (gl_stop g)"
    using stop_finish_eq [OF inv] pats by (auto simp: cut_at_stop_def)
  let ?n = "cut_at_stop pats (ss_text (gl_stop g))" and ?g1 = "g\<lparr>gl_stop := ss\<rparr>"
  have w1: "wired quote ser alive ?g1" using w tx by (subst wired_fields [of _ g]) simp_all
  show ?thesis
  proof (cases "?n > gl_emitted g")
    case False
    with stop_part_cut [OF s] have "gl_emitted g = ?n" by simp
    with ft fin tx w1 False show ?thesis by (auto simp: flush_text_def Let_def)
  next
    case True
    obtain chunk where c: "unsent ss (gl_emitted g) ?n = Some chunk"
      using ft fin True by (cases "unsent ss (gl_emitted g) ?n") (auto simp: flush_text_def)
    obtain ok g2 where f: "forward_tool_text quote ser (log_out alive) chunk (?g1\<lparr>gl_emitted := ?n\<rparr>) = (ok, g2)"
      by (cases "forward_tool_text quote ser (log_out alive) chunk (?g1\<lparr>gl_emitted := ?n\<rparr>)")
    have "g' = g2" using ft fin True c f by (simp add: flush_text_def Let_def)
    with forward_wired [OF w1 _ _ _ _ _ _ f] ng unsent_SomeD [OF c] tx show ?thesis by simp
  qed
qed

lemma flush_tools_complete:
  assumes w: "wired quote ser alive g" and ng: "\<not> gl_gone g" and "gl_failed g = None"
    and e: "gl_emitted g = cut_at_stop pats (ss_text (gl_stop g))"
  shows "complete quote ser alive pats (flush_tools quote ser (log_out alive) g)"
proof -
  obtain fs evs where fs: "tp_feed ser tp_new fs = (gl_tool g, evs)" "piped quote ser alive fs evs g"
    using w by (auto simp: wired_def)
  obtain tp events where tp: "tp_finish ser (gl_tool g) = (tp, events)" by (cases "tp_finish ser (gl_tool g)")
  obtain pending ta where ta: "push_tool_events quote (gl_args g) events = (pending, ta)"
    by (cases "push_tool_events quote (gl_args g) events")
  let ?g = "g\<lparr>gl_tool := tp, gl_args := ta\<rparr>"
  obtain b g2 where em: "emit_pending (log_out alive) pending ?g = (b, g2)"
    by (cases "emit_pending (log_out alive) pending ?g")
  have "concat fs @ [] = take (gl_emitted ?g) (ss_text (gl_stop ?g))"
    using fs(2) by (simp add: piped_def)
  note p = piped_emit [OF fs(2) ng ta _ _ _ this em]
  then have "piped quote ser alive fs (evs @ events) g2" by (auto simp: piped_def)
  moreover have "tp_parse ser fs = (tp, evs @ events)" using fs(1) tp by (simp add: tp_parse_def)
  ultimately show ?thesis
    using p assms(3) e tp ta em by (auto simp: complete_def flush_tools_def)
qed

lemma final_flush_cases:
  assumes s: "stop_part pats g" and w: "wired quote ser alive g"
    and ff: "final_flush quote ser dec (log_out alive) g = Some g'"
  shows "interrupted quote ser alive pats g' \<or> complete quote ser alive pats g'"
proof (cases "gl_failed g \<noteq> None \<or> gl_gone g")
  case True
  with ff s w stop_part_cut [OF s] show ?thesis by (auto simp: final_flush_def interrupted_def)
next
  case ok: False
  then obtain g1 where g1: "flush_decoder dec g = Some g1"
    using ff by (auto simp: final_flush_def split: option.splits)
  note i1 = flush_decoder_inv [OF s w g1]
  show ?thesis
  proof (cases "gl_failed g1 = None")
    case False
    with ff g1 ok i1 stop_part_cut [of pats g1] show ?thesis
      by (auto simp: final_flush_def interrupted_def)
  next
    case True
    then obtain g2 where g2: "flush_text quote ser (log_out alive) g1 = Some g2"
      using ff g1 ok by (auto simp: final_flush_def split: option.splits)
    have i2: "wired quote ser alive g2 \<and> gl_failed g2 = gl_failed g1 \<and>
        gl_emitted g2 = cut_at_stop pats (ss_text (gl_stop g2))"
      using flush_text_inv [OF _ _ _ g2] i1 ok by blast
    show ?thesis
    proof (cases "gl_gone g2")
      case True
      with ff g1 g2 ok i2 \<open>gl_failed g1 = None\<close> show ?thesis
        by (auto simp: final_flush_def interrupted_def)
    next
      case False
      with flush_tools_complete [of quote ser alive g2 pats] i2 True ff g1 g2 ok show ?thesis
        by (auto simp: final_flush_def)
    qed
  qed
qed

lemma gen_start_inv:
  assumes "k = [Em_Role]"
  shows "stop_part stops (gen_start stops k) \<and> wired quote ser alive (gen_start stops k) \<and>
    \<not> gl_gone (gen_start stops k)"
proof -
  have "tp_feed ser tp_new [] = (tp_new, [])" by simp
  then have "wired quote ser alive (gen_start stops k)"
    unfolding wired_def using assms
    by (intro exI [of _ "[]"]) (auto simp: gen_start_def piped_def)
  then show ?thesis
    using stop_inv_new by (auto simp: gen_start_def stop_part_def shown_def stop_new_def)
qed

text \<open>Every run ends interrupted or complete, and its result and log are read off that state.\<close>

lemma run_generation_cases:
  assumes "run_generation quote ser dec (log_out alive) stops n events [] = Some (r, log)"
  obtains g where "interrupted quote ser alive stops g \<or> complete quote ser alive stops g"
    and "gen_end (log_out alive) n g = Some (r, log)"
proof -
  have role: "snd (log_out alive Em_Role []) = [Em_Role]" by (simp add: log_out_apply)
  obtain g where g: "event_loop quote ser dec (log_out alive) events (gen_start stops [Em_Role]) = Some g"
    using assms role by (auto simp: run_generation_def split: option.splits)
  obtain g1 where g1: "final_flush quote ser dec (log_out alive) g = Some g1"
    "gen_end (log_out alive) n g1 = Some (r, log)"
    using assms role g by (auto simp: run_generation_def split: option.splits)
  have i: "stop_part stops g \<and> wired quote ser alive g"
    using event_loop_inv [OF _ _ _ g] gen_start_inv [OF refl, of stops quote ser alive] by blast
  with final_flush_cases [OF _ _ g1(1)] g1(2) that show thesis by blast
qed

end
