(* ===== verification/Generation_Props.thy ===== *)
theory Generation_Props
  imports Generation_Loop Prompt
begin

section \<open>Properties of the generation loop\<close>

subsection \<open>Shape of a run\<close>

lemma gen_end_SomeD:
  assumes "gen_end (log_out alive) n g = Some (r, log)"
  shows "gr_content r = take (gl_emitted g) (ss_text (gl_stop g)) \<and> gr_tool_calls r = tp_calls (gl_tool g) \<and>
    gr_error r = gl_failed g \<and>
    gr_finish_reason r = (if gl_failed g \<noteq> None then Fr_Error
      else case gl_reason g of Some x \<Rightarrow> x | None \<Rightarrow> Fr_Cancelled) \<and>
    gr_usage r = \<lparr>us_prompt_tokens = n, us_completion_tokens = of_nat (token_count (gl_decoder g))\<rparr> \<and>
    log = gl_sink g @
      (if gl_gone g then []
       else case gl_failed g of
         Some e \<Rightarrow> [Em_Error e]
       | None \<Rightarrow> [Em_Final (finish_reason_as_str (gr_finish_reason r)) (gr_usage r)])"
  using assms
  by (auto simp: gen_end_def visible_text_def slice_to_def Let_def log_out_apply split: option.splits if_splits)

text \<open>The numbering of a stream's tool calls: the starts are numbered from \<open>n\<close> on with the ids
  \<open>call_n\<close>, and argument fragments belong to the last start, with no text between; \<open>cur\<close> says
  that fragments may come.\<close>

fun calls_numbered :: "nat \<Rightarrow> bool \<Rightarrow> emission list \<Rightarrow> bool" where
  "calls_numbered n cur [] = True"
| "calls_numbered n cur (Em_Content t # es) = calls_numbered n False es"
| "calls_numbered n cur (Em_ToolStart i c name # es) =
     (i = n \<and> c = ''call_'' @ dec_digits i \<and> calls_numbered (n + 1) True es)"
| "calls_numbered n cur (Em_ToolArgs i x # es) = (cur \<and> i + 1 = n \<and> calls_numbered n cur es)"
| "calls_numbered n cur (_ # es) = False"

lemma calls_numbered_prefix: "calls_numbered n cur (xs @ ys) \<Longrightarrow> calls_numbered n cur xs"
  by (induction n cur xs rule: calls_numbered.induct) auto

lemma calls_numbered_mono: "calls_numbered n False es \<Longrightarrow> calls_numbered n True es"
  by (cases "(n, False, es)" rule: calls_numbered.cases) auto

lemma calls_numbered_args:
  "calls_numbered (i + 1) True es \<Longrightarrow> calls_numbered (i + 1) True (map (Em_ToolArgs i) cs @ es)"
  by (induction cs) simp_all

lemma push_tool_events_numbered:
  "ev_run s evs = Some s' \<Longrightarrow> push_tool_events quote ta evs = (ems, ta') \<Longrightarrow>
   (s \<noteq> None \<Longrightarrow> ta_index ta + 1 = ta_next_index ta) \<Longrightarrow>
   calls_numbered (ta_next_index ta) (s \<noteq> None) ems"
proof (induction s evs arbitrary: ta ta' ems rule: ev_run.induct)
  case (1 s)
  then show ?case by simp
next
  case (2 t es)
  from 2 show ?case by (auto simp: Let_def split: prod.splits)
next
  case (3 name es)
  let ?ta = "begin_call (ta_next_index ta) ta"
  obtain fs ta2 where f: "push_tool_events quote ?ta es = (fs, ta2)"
    by (cases "push_tool_events quote ?ta es")
  have "calls_numbered (ta_next_index ?ta) (Some name \<noteq> None) fs"
    by (rule "3.IH" [OF _ f]) (use "3.prems" in \<open>simp_all add: begin_call_def\<close>)
  with "3.prems" f show ?case by (auto simp: Let_def begin_call_def)
next
  case (4 name k v es)
  obtain cs ta1 where p: "ta_param quote k v ta = (cs, ta1)" by (cases "ta_param quote k v ta")
  then have i: "ta_index ta1 = ta_index ta" "ta_next_index ta1 = ta_next_index ta"
    by (auto simp: ta_param_def split: if_splits)
  obtain fs ta2 where f: "push_tool_events quote ta1 es = (fs, ta2)" by (cases "push_tool_events quote ta1 es")
  have "calls_numbered (ta_next_index ta1) (Some name \<noteq> None) fs"
    by (rule "4.IH" [OF _ f]) (use "4.prems" i in simp_all)
  with calls_numbered_args [of "ta_index ta" fs cs] 4 p f i show ?case by auto
next
  case (5 name c es)
  obtain cs ta1 where p: "ta_end_call ta = (cs, ta1)" by (cases "ta_end_call ta")
  then have i: "ta_index ta1 = ta_index ta" "ta_next_index ta1 = ta_next_index ta"
    by (auto simp: ta_end_call_def)
  obtain fs ta2 where f: "push_tool_events quote ta1 es = (fs, ta2)" by (cases "push_tool_events quote ta1 es")
  have n: "tc_name c = name" and "ev_run None es = Some s'" using "5.prems"(1) by (auto split: if_splits)
  from "5.IH" [OF n this(2) f] have "calls_numbered (ta_next_index ta1) False fs" by simp
  with calls_numbered_mono calls_numbered_args [of "ta_index ta" fs cs] "5.prems" p f i show ?case by auto
qed simp_all

lemma wired_sink:
  assumes "wired quote ser alive g \<or> complete quote ser alive pats g"
  obtains pre where "gl_sink g = Em_Role # pre" "list_all is_delta pre" "calls_numbered 0 False pre"
    "gl_gone g \<longrightarrow> pre \<noteq> [] \<and> \<not> alive (Em_Role # pre)"
proof -
  have "\<exists>fs evs s. piped quote ser alive fs evs g \<and> ev_run None evs = Some s"
  proof (cases "wired quote ser alive g")
    case True
    then obtain fs evs where "tp_feed ser tp_new fs = (gl_tool g, evs)" "piped quote ser alive fs evs g"
      by (auto simp: wired_def)
    with feed_ev_ok [of ser tp_new fs "gl_tool g" evs] show ?thesis
      by (auto simp: ev_ok_def open_call_def tp_new_def)
  next
    case False
    then obtain fs evs where f: "tp_parse ser fs = (gl_tool g, evs)" "piped quote ser alive fs evs g"
      using assms by (auto simp: complete_def)
    obtain q e where "tp_parse ser fs = (q, e)" "ev_ok tp_new q e" by (rule parse_ev_ok)
    with f show ?thesis by (auto simp: ev_ok_def open_call_def tp_new_def)
  qed
  then obtain fs evs s where p: "piped quote ser alive fs evs g" "ev_run None evs = Some s" by blast
  then obtain ems pre ta where ems: "push_tool_events quote ta_default evs = (ems, ta)" "prefix pre ems"
    "gl_sink g = Em_Role # pre" "gl_gone g \<longrightarrow> pre \<noteq> [] \<and> \<not> alive (Em_Role # pre)"
    by (auto simp: piped_def)
  have "calls_numbered 0 False ems"
    using push_tool_events_numbered [OF p(2) ems(1)] by (simp add: ta_default_def)
  with ems calls_numbered_prefix push_tool_events_delta [of quote ta_default evs ems ta] show thesis
    by (intro that) (auto simp: prefix_def)
qed

definition stream_log :: "(emission list \<Rightarrow> bool) \<Rightarrow> gen_result \<Rightarrow> emission list \<Rightarrow> emission list \<Rightarrow> bool" where
  "stream_log alive r mid log \<longleftrightarrow>
     list_all is_delta mid \<and> calls_numbered 0 False mid \<and>
     ((log = Em_Role # mid @ [Em_Final (finish_reason_as_str (gr_finish_reason r)) (gr_usage r)] \<and>
        gr_error r = None) \<or>
      (\<exists>e. log = Em_Role # mid @ [Em_Error e] \<and> gr_error r = Some e \<and> gr_finish_reason r = Fr_Error) \<or>
      (log = Em_Role # mid \<and> mid \<noteq> [] \<and> \<not> alive (Em_Role # mid)))"

lemma run_log:
  assumes "run_generation quote ser dec (log_out alive) stops n events [] = Some (r, log)"
  shows "\<exists>mid. stream_log alive r mid log"
proof (rule run_generation_cases [OF assms])
  fix g assume g: "interrupted quote ser alive stops g \<or> complete quote ser alive stops g"
    and e: "gen_end (log_out alive) n g = Some (r, log)"
  then obtain pre where pre: "gl_sink g = Em_Role # pre" "list_all is_delta pre" "calls_numbered 0 False pre"
    "gl_gone g \<longrightarrow> pre \<noteq> [] \<and> \<not> alive (Em_Role # pre)"
    using wired_sink [of quote ser alive g stops] by (auto simp: interrupted_def)
  with gen_end_SomeD [OF e] show ?thesis
    by (intro exI [of _ pre]) (auto simp: stream_log_def split: option.splits if_splits)
qed

text \<open>C27: The stream of a request: the role first, then content and tool-call deltas, then exactly one terminal emission, which is an error exactly when the result has one and otherwise carries the result's finish reason and usage; only a client that refused a delta misses it, and then nothing follows the refused delta. The calls are numbered from 0, and argument fragments always belong to the call started last, with no text in between.\<close>

theorem generation_emissions:
  assumes "run_generation quote ser dec (log_out alive) stops n events [] = Some (r, log)"
  shows "\<exists>mid. list_all is_delta mid \<and> calls_numbered 0 False mid \<and>
    ((log = Em_Role # mid @ [Em_Final (finish_reason_as_str (gr_finish_reason r)) (gr_usage r)] \<and>
        gr_error r = None) \<or>
     (\<exists>e. log = Em_Role # mid @ [Em_Error e] \<and> gr_error r = Some e \<and> gr_finish_reason r = Fr_Error) \<or>
     (log = Em_Role # mid \<and> mid \<noteq> [] \<and> \<not> alive (Em_Role # mid)))"
  using run_log [OF assms] by (simp add: stream_log_def)

text \<open>C18: Whatever the fragments, the text handed to the client contains no stop string, whether the generation completed, failed or was cut off.\<close>

theorem content_has_no_stop_string:
  assumes "run_generation quote ser dec (log_out alive) stops n events [] = Some (r, log)"
    and "p \<in> set stops" "p \<noteq> []"
  shows "\<not> occurs_at p (gr_content r) j"
proof (rule run_generation_cases [OF assms(1)])
  fix g assume g: "interrupted quote ser alive stops g \<or> complete quote ser alive stops g"
    and e: "gen_end (log_out alive) n g = Some (r, log)"
  let ?s = "ss_text (gl_stop g)"
  have c: "gr_content r = take (gl_emitted g) ?s" using gen_end_SomeD [OF e] by simp
  have le: "gl_emitted g \<le> cut_at_stop stops ?s" using g by (auto simp: interrupted_def complete_def)
  show ?thesis
  proof
    assume o: "occurs_at p (gr_content r) j"
    obtain x where "take (cut_at_stop stops ?s) ?s = gr_content r @ x"
      using le unfolding c by (metis append_take_drop_id min.absorb1 take_take)
    with occurs_at_append_left [OF o, of x] have oc: "occurs_at p (take (cut_at_stop stops ?s) ?s) j" by simp
    show False
    proof (cases "earliest_stop stops ?s")
      case None
      with oc assms(2) show False by (auto simp: cut_at_stop_def earliest_stop_None stop_at_def)
    next
      case (Some i)
      with oc no_stop_before_earliest [OF Some assms(2,3)] show False by (simp add: cut_at_stop_def)
    qed
  qed
qed

subsection \<open>From tokens to tool calls\<close>

definition plain_stop :: "string \<Rightarrow> stop_state" where
  "plain_stop s =
     \<lparr>stop_token_ids = eos_ids, stop_strings = [], max_pattern_len = 0, ss_text = s, ss_matched = None,
      ss_stopped = False\<rparr>"

lemma no_stops: "earliest_stop [] s = None"
  unfolding earliest_stop_None by (simp add: stop_at_def)

lemma plain_inv: "stop_inv (plain_stop s)"
  by (simp add: plain_stop_def stop_inv_def no_stops)

lemma plain_push:
  assumes "starts_char f"
  shows "push_text (plain_stop s) f = Some (None, plain_stop (s @ f))"
proof (cases "f = []")
  case False
  have "stop_strings (plain_stop s) = []" "ss_text (plain_stop s) = s" "\<not> ss_stopped (plain_stop s)"
    "max_pattern_len (plain_stop s) = 0" by (simp_all add: plain_stop_def)
  then show ?thesis
    using push_text_cases [OF plain_inv _ False, of s] boundary_append_length [OF assms, of s]
    by (simp add: no_stops) (simp add: plain_stop_def)
qed (simp add: push_text_skip plain_stop_def)

lemma plain_safe: "safe_len (plain_stop s) = length s"
  by (simp add: safe_len_def plain_stop_def floor_id)

lemma plain_finish: "stop_finish (plain_stop s) = Some (length s, plain_stop s)"
  by (simp add: stop_finish_def plain_stop_def find_match_0 no_stops)

lemma plain_unsent: "a \<le> length s \<Longrightarrow> is_char_boundary s a \<Longrightarrow> unsent (plain_stop s) a (length s) = Some (drop a s)"
  by (simp add: unsent_def visible_text_def slice_def slice_to_def plain_stop_def)

lemma starts_char_appendD: "starts_char (x @ y) \<Longrightarrow> starts_char x"
  by (cases x) (auto simp: starts_char_def)

text \<open>A step of the loop for a token that no stop condition concerns.\<close>

lemma forward_alive:
  assumes "forward_tool_text quote ser (log_out (\<lambda>_. True)) chunk g = (b, g')"
  shows "b \<and> gl_stop g' = gl_stop g \<and> gl_emitted g' = gl_emitted g \<and> gl_decoder g' = gl_decoder g \<and>
    gl_gone g' = gl_gone g \<and> gl_failed g' = gl_failed g \<and> gl_reason g' = gl_reason g"
  using assms by (auto simp: forward_tool_text_def Let_def dest!: emit_pending_log split: prod.splits)

lemma on_text_plain:
  assumes "gl_stop g = plain_stop P" "gl_emitted g = length P" "starts_char f"
  obtains g' where "on_text quote ser (log_out (\<lambda>_. True)) f g = Some (True, g')"
    "gl_stop g' = plain_stop (P @ f)" "gl_emitted g' = length (P @ f)" "gl_decoder g' = gl_decoder g"
    "gl_gone g' = gl_gone g" "gl_failed g' = gl_failed g"
proof (cases "f = []")
  case True
  with assms that [of g] plain_push [OF assms(3), of P] plain_safe [of P] show thesis
    by (simp add: on_text_def Let_def)
next
  case False
  let ?g = "g\<lparr>gl_stop := plain_stop (P @ f), gl_emitted := length (P @ f)\<rparr>"
  obtain b g' where f: "forward_tool_text quote ser (log_out (\<lambda>_. True)) f ?g = (b, g')"
    by (cases "forward_tool_text quote ser (log_out (\<lambda>_. True)) f ?g")
  have u: "unsent (plain_stop (P @ f)) (length P) (length (P @ f)) = Some f"
    using plain_unsent [of "length P" "P @ f"] boundary_append_length [OF assms(3), of P] by simp
  have "on_text quote ser (log_out (\<lambda>_. True)) f g = Some (True, g')"
    using assms False plain_push [OF assms(3), of P] plain_safe [of "P @ f"] u f forward_alive [OF f]
    by (simp add: on_text_def Let_def)
  with that [of g'] forward_alive [OF f] show thesis by simp
qed

context prefix_stable_decoder
begin

lemma push_inv_char:
  assumes inv: "stream_inv ids P sd"
  obtains d sd' where "sd_push sd i dec = Some (Inr d, sd')"
    "stream_inv (ids @ [i]) (P @ delta_text d) sd'" "starts_char (delta_text d)"
proof -
  obtain d sd' where p: "sd_push sd i dec = Some (Inr d, sd')" "stream_inv (ids @ [i]) (P @ delta_text d) sd'"
    by (rule push_inv [OF inv])
  obtain t where t: "dec (ids @ [i]) = Inr t" using total by blast
  obtain r where r: "t = P @ r" "starts_char r" using inv t by (auto simp: stream_inv_def)
  have "dec ((ids @ [i]) @ []) = Inr t" using t by simp
  with p(2) obtain r' where "t = (P @ delta_text d) @ r'" unfolding stream_inv_def by blast
  with r have "r = delta_text d @ r'" by simp
  with r(2) starts_char_appendD have "starts_char (delta_text d)" by blast
  with p that show thesis by blast
qed

lemma on_token_plain:
  assumes inv: "stream_inv ids P (gl_decoder g)" and g: "gl_stop g = plain_stop P" "gl_emitted g = length P"
    and i: "i \<notin> set eos_ids"
  obtains g' P' where "on_token quote ser dec (log_out (\<lambda>_. True)) i g = Some (True, g')"
    "stream_inv (ids @ [ucast i]) P' (gl_decoder g')" "gl_stop g' = plain_stop P'" "gl_emitted g' = length P'"
    "gl_gone g' = gl_gone g" "gl_failed g' = gl_failed g"
proof -
  obtain d sd where d: "sd_push (gl_decoder g) (ucast i) dec = Some (Inr d, sd)"
    "stream_inv (ids @ [ucast i]) (P @ delta_text d) sd" "starts_char (delta_text d)"
    by (rule push_inv_char [OF inv])
  have c: "check_token (plain_stop P) i = (None, plain_stop P)"
    using i by (simp add: check_token_def plain_stop_def)
  let ?g = "g\<lparr>gl_stop := plain_stop P, gl_decoder := sd\<rparr>"
  show thesis
  proof (cases d)
    case None
    then have "on_token quote ser dec (log_out (\<lambda>_. True)) i g = Some (True, ?g)"
      using d(1) c g by (simp add: on_token_def)
    with that [of ?g P] d None g show thesis by (simp add: delta_text_def)
  next
    case (Some f)
    have st: "starts_char f" using d(3) Some by (simp add: delta_text_def)
    obtain g' where g': "on_text quote ser (log_out (\<lambda>_. True)) f ?g = Some (True, g')"
      "gl_stop g' = plain_stop (P @ f)" "gl_emitted g' = length (P @ f)" "gl_decoder g' = gl_decoder ?g"
      "gl_gone g' = gl_gone ?g" "gl_failed g' = gl_failed ?g"
      by (rule on_text_plain [of ?g P f quote ser]) (simp_all add: g st)
    have "on_token quote ser dec (log_out (\<lambda>_. True)) i g = Some (True, g')"
      using d(1) c g Some g'(1) by (simp add: on_token_def)
    with that [of g' "P @ f"] d(2) Some g' show thesis by (simp add: delta_text_def)
  qed
qed

lemma loop_tokens:
  "stream_inv ids P (gl_decoder g) \<Longrightarrow> gl_stop g = plain_stop P \<Longrightarrow> gl_emitted g = length P \<Longrightarrow>
   set toks \<inter> set eos_ids = {} \<Longrightarrow>
   \<exists>g' P'. event_loop quote ser dec (log_out (\<lambda>_. True)) (map Ge_Token toks @ evs) g =
       event_loop quote ser dec (log_out (\<lambda>_. True)) evs g' \<and>
     stream_inv (ids @ map ucast toks) P' (gl_decoder g') \<and> gl_stop g' = plain_stop P' \<and>
     gl_emitted g' = length P' \<and> gl_gone g' = gl_gone g \<and> gl_failed g' = gl_failed g"
proof (induction toks arbitrary: ids P g)
  case Nil
  then show ?case by auto
next
  case (Cons i toks)
  obtain g1 P1 where g1: "on_token quote ser dec (log_out (\<lambda>_. True)) i g = Some (True, g1)"
    "stream_inv (ids @ [ucast i]) P1 (gl_decoder g1)" "gl_stop g1 = plain_stop P1" "gl_emitted g1 = length P1"
    "gl_gone g1 = gl_gone g" "gl_failed g1 = gl_failed g"
    by (rule on_token_plain [OF Cons.prems(1-3), of i quote ser]) (use Cons.prems(4) in auto)
  from Cons.IH [OF g1(2-4)] Cons.prems(4) g1 show ?case by auto
qed

lemma loop_plain:
  assumes "stream_inv ids P (gl_decoder g)" "gl_stop g = plain_stop P" "gl_emitted g = length P"
    "set toks \<inter> set eos_ids = {}"
  shows "\<exists>g' P'. event_loop quote ser dec (log_out (\<lambda>_. True)) (map Ge_Token toks @ Ge_Done r u # rest) g = Some g' \<and>
     stream_inv (ids @ map ucast toks) P' (gl_decoder g') \<and> gl_stop g' = plain_stop P' \<and>
     gl_emitted g' = length P' \<and> gl_gone g' = gl_gone g \<and> gl_failed g' = gl_failed g \<and> gl_reason g' = Some r"
proof -
  obtain g' P' where g': "event_loop quote ser dec (log_out (\<lambda>_. True)) (map Ge_Token toks @ Ge_Done r u # rest) g =
      event_loop quote ser dec (log_out (\<lambda>_. True)) (Ge_Done r u # rest) g'"
    "stream_inv (ids @ map ucast toks) P' (gl_decoder g')" "gl_stop g' = plain_stop P'"
    "gl_emitted g' = length P'" "gl_gone g' = gl_gone g" "gl_failed g' = gl_failed g"
    using loop_tokens [OF assms, of quote ser "Ge_Done r u # rest"] by blast
  then show ?thesis by (intro exI [of _ "g'\<lparr>gl_reason := Some r\<rparr>"] exI [of _ P']) simp
qed

lemma finish_ids: "sd_finish sd dec = Some (x, sd') \<Longrightarrow> sd_ids sd' = sd_ids sd"
  by (auto simp: sd_finish_def take_delta_def Let_def split: sum.splits option.splits if_splits)

lemma flush_plain:
  assumes inv: "stream_inv ids P (gl_decoder g)" and t: "dec ids = Inr t"
    and g: "gl_stop g = plain_stop P" "gl_emitted g = length P" "gl_failed g = None" "\<not> gl_gone g"
  obtains g' where "final_flush quote ser dec (log_out (\<lambda>_. True)) g = Some g'"
    "gl_stop g' = plain_stop t" "gl_emitted g' = length t" "sd_ids (gl_decoder g') = ids"
    "gl_failed g' = None" "\<not> gl_gone g'" "gl_reason g' = gl_reason g"
proof -
  obtain d sd where d: "sd_finish (gl_decoder g) dec = Some (Inr d, sd)" "P @ delta_text d = t"
    by (rule finish_all [OF inv t])
  have "\<exists>r. t = P @ r \<and> starts_char r" using inv t unfolding stream_inv_def by (metis append_Nil2)
  then have sc: "starts_char (delta_text d)" using d(2) by auto
  let ?g1 = "g\<lparr>gl_decoder := sd, gl_stop := plain_stop t\<rparr>"
  have fd: "flush_decoder dec g = Some ?g1"
  proof (cases d)
    case None
    with d g show ?thesis by (simp add: flush_decoder_def delta_text_def)
  next
    case (Some f)
    with d g plain_push [of f P] sc show ?thesis by (simp add: flush_decoder_def delta_text_def)
  qed
  have ids: "sd_ids sd = ids" using finish_ids [OF d(1)] inv by (simp add: stream_inv_def)
  obtain g2 where g2: "flush_text quote ser (log_out (\<lambda>_. True)) ?g1 = Some g2"
    "gl_stop g2 = plain_stop t" "gl_emitted g2 = length t" "gl_decoder g2 = sd" "gl_failed g2 = None"
    "\<not> gl_gone g2" "gl_reason g2 = gl_reason g"
  proof (cases "length t > length P")
    case False
    with d(2) have "length t = length P" by auto
    with that [of ?g1] g plain_finish [of t] show thesis by (simp add: flush_text_def)
  next
    case True
    have u: "unsent (plain_stop t) (length P) (length t) = Some (delta_text d)"
      using plain_unsent [of "length P" t] boundary_append_length [OF sc, of P] d(2) by auto
    obtain b g2 where f: "forward_tool_text quote ser (log_out (\<lambda>_. True)) (delta_text d)
        (?g1\<lparr>gl_emitted := length t\<rparr>) = (b, g2)"
      by (cases "forward_tool_text quote ser (log_out (\<lambda>_. True)) (delta_text d) (?g1\<lparr>gl_emitted := length t\<rparr>)")
    have "flush_text quote ser (log_out (\<lambda>_. True)) ?g1 = Some g2"
      using True g plain_finish [of t] u f by (simp add: flush_text_def)
    with that [of g2] forward_alive [OF f] g show thesis by simp
  qed
  obtain tp evs where tp: "tp_finish ser (gl_tool g2) = (tp, evs)" by (cases "tp_finish ser (gl_tool g2)")
  obtain pend ta where ta: "push_tool_events quote (gl_args g2) evs = (pend, ta)"
    by (cases "push_tool_events quote (gl_args g2) evs")
  let ?g3 = "g2\<lparr>gl_tool := tp, gl_args := ta\<rparr>"
  obtain b g4 where em: "emit_pending (log_out (\<lambda>_. True)) pend ?g3 = (b, g4)"
    by (cases "emit_pending (log_out (\<lambda>_. True)) pend ?g3")
  have "final_flush quote ser dec (log_out (\<lambda>_. True)) g = Some g4"
    using g fd g2 tp ta em by (simp add: final_flush_def flush_tools_def)
  with that [of g4] emit_pending_log [OF em] g2 ids show thesis by auto
qed

end

text \<open>The text of a stream: what its content deltas join to.\<close>

fun em_text :: "emission list \<Rightarrow> string" where
  "em_text [] = []"
| "em_text (Em_Content t # es) = t @ em_text es"
| "em_text (_ # es) = em_text es"

fun text_of :: "tp_atom list \<Rightarrow> string" where
  "text_of [] = []"
| "text_of (At_Text c # as) = c # text_of as"
| "text_of (_ # as) = text_of as"

lemma text_of_append [simp]: "text_of (as @ bs) = text_of as @ text_of bs"
  by (induction as rule: text_of.induct) simp_all

lemma text_of_map [simp]: "text_of (map At_Text s) = s" "text_of (map (At_Param k) s) = []"
  by (induction s) simp_all

lemma em_text_append [simp]: "em_text (xs @ ys) = em_text xs @ em_text ys"
  by (induction xs rule: em_text.induct) simp_all

lemma em_text_args [simp]: "em_text (map (Em_ToolArgs i) cs) = []"
  by (induction cs) simp_all

lemma em_text_event: "push_tool_event quote ta ev = (es, ta') \<Longrightarrow> em_text es = text_of (ev_atoms ev)"
  by (cases ev) (auto simp: Let_def split: prod.splits)

lemma em_text_events: "push_tool_events quote ta evs = (es, ta') \<Longrightarrow> em_text es = text_of (atoms evs)"
  by (induction evs arbitrary: ta es ta') (auto simp: Let_def dest: em_text_event split: prod.splits)

lemma text_of_params: "text_of (param_atoms ps) = []"
  by (induction ps) (auto simp: param_atoms_def)

lemma text_of_doc: "text_of (doc_atoms ser n d) = doc_text d"
  by (induction d arbitrary: n) (auto simp: call_atoms_def text_of_params)

lemma conversation_run:
  assumes "prefix_stable_decoder dec" "dec (map ucast toks) = Inr (render_doc d @ tail)"
    and "good_doc d" "CHR ''<'' \<notin> set tail" "set toks \<inter> set eos_ids = {}"
  shows "\<exists>r log. run_generation quote ser dec (log_out (\<lambda>_. True)) [] n
        (map Ge_Token toks @ Ge_Done fr u # rest) [] = Some (r, log) \<and>
      gr_error r = None \<and> gr_content r = render_doc d @ tail \<and> gr_tool_calls r = doc_calls ser 0 d \<and>
      gr_finish_reason r = fr \<and> us_completion_tokens (gr_usage r) = of_nat (length toks) \<and>
      em_text log = doc_text d @ tail"
proof -
  note dec = assms(1) and t = assms(2)
  let ?t = "render_doc d @ tail" and ?out = "log_out (\<lambda>_. True)" and ?evs = "map Ge_Token toks @ Ge_Done fr u # rest"
  have role: "snd (?out Em_Role []) = [Em_Role]" by (simp add: log_out_apply)
  have s0: "prefix_stable_decoder.stream_inv dec [] [] (gl_decoder (gen_start [] [Em_Role]))"
    using prefix_stable_decoder.stream_inv_new [OF dec] by (simp add: gen_start_def)
  have p0: "gl_stop (gen_start [] [Em_Role]) = plain_stop []" "gl_emitted (gen_start [] [Em_Role]) = length ([] :: string)"
    by (simp_all add: gen_start_def plain_stop_def stop_new_def)
  obtain g P where g: "event_loop quote ser dec ?out ?evs (gen_start [] [Em_Role]) = Some g"
    "prefix_stable_decoder.stream_inv dec (map ucast toks) P (gl_decoder g)" "gl_stop g = plain_stop P"
    "gl_emitted g = length P" "\<not> gl_gone g" "gl_failed g = None" "gl_reason g = Some fr"
    using prefix_stable_decoder.loop_plain [OF dec s0 p0 assms(5), of quote ser fr u rest]
    by (auto simp: gen_start_def)
  obtain g1 where g1: "final_flush quote ser dec ?out g = Some g1" "gl_stop g1 = plain_stop ?t"
    "gl_emitted g1 = length ?t" "sd_ids (gl_decoder g1) = map ucast toks" "gl_failed g1 = None" "\<not> gl_gone g1"
    "gl_reason g1 = Some fr"
    by (rule prefix_stable_decoder.flush_plain [OF dec g(2) t g(3,4,6,5), of quote ser]) (simp add: g(7))
  have tx: "ss_text (plain_stop ?t) = ?t" by (simp add: plain_stop_def)
  have v: "visible_text (plain_stop ?t) (length ?t) = Some ?t"
    using boundary_length [of ?t] by (simp add: visible_text_def slice_to_def tx)
  obtain r log where fin: "gen_end ?out n g1 = Some (r, log)"
    using v g1(2,3) by (simp add: gen_end_def Let_def)
  have run: "run_generation quote ser dec ?out [] n ?evs [] = Some (r, log)"
    using g(1) g1(1) fin role by (simp add: run_generation_def)
  have "complete quote ser (\<lambda>_. True) [] g1"
  proof -
    have "stop_part [] g \<and> wired quote ser (\<lambda>_. True) g"
      using event_loop_inv [OF _ _ _ g(1)] gen_start_inv [OF refl, of "[]" quote ser "\<lambda>_. True"] by blast
    from final_flush_cases [OF _ _ g1(1)] this g1(5,6) show ?thesis by (auto simp: interrupted_def)
  qed
  then obtain fs evs where fs: "tp_parse ser fs = (gl_tool g1, evs)" "piped quote ser (\<lambda>_. True) fs evs g1"
    by (auto simp: complete_def)
  have "concat fs = ?t" using fs(2) g1(2,3) tx by (simp add: piped_def)
  from parse_doc [OF assms(3,4) this, of ser] fs(1)
  have calls: "tp_calls (gl_tool g1) = doc_calls ser 0 d" "atoms evs = doc_atoms ser 0 d @ map At_Text tail"
    by (simp_all add: tp_idle_def)
  obtain ems where ems: "push_tool_events quote ta_default evs = (ems, gl_args g1)" "gl_sink g1 = Em_Role # ems"
    using fs(2) g1(6) by (auto simp: piped_def)
  have "em_text ems = doc_text d @ tail"
    using em_text_events [OF ems(1)] calls(2) by (simp add: text_of_doc)
  with gen_end_SomeD [OF fin] g1 calls(1) ems(2) tx run show ?thesis
    by (auto simp: token_count_def)
qed

lemma failed_run:
  assumes dec: "prefix_stable_decoder dec" and "set toks \<inter> set eos_ids = {}"
  shows "\<exists>r log. run_generation quote ser dec (log_out (\<lambda>_. True)) [] n
        (map Ge_Token toks @ [Ge_Failed e]) [] = Some (r, log) \<and>
      gr_error r = Some e \<and> gr_finish_reason r = Fr_Error \<and> last log = Em_Error e"
proof -
  let ?out = "log_out (\<lambda>_. True)"
  have role: "snd (?out Em_Role []) = [Em_Role]" by (simp add: log_out_apply)
  have s0: "prefix_stable_decoder.stream_inv dec [] [] (gl_decoder (gen_start [] [Em_Role]))"
    using prefix_stable_decoder.stream_inv_new [OF dec] by (simp add: gen_start_def)
  have p0: "gl_stop (gen_start [] [Em_Role]) = plain_stop []" "gl_emitted (gen_start [] [Em_Role]) = length ([] :: string)"
    by (simp_all add: gen_start_def plain_stop_def stop_new_def)
  obtain g P where g: "event_loop quote ser dec ?out (map Ge_Token toks @ [Ge_Failed e]) (gen_start [] [Em_Role]) =
      event_loop quote ser dec ?out [Ge_Failed e] g"
    "gl_stop g = plain_stop P" "gl_emitted g = length P" "\<not> gl_gone g"
    using prefix_stable_decoder.loop_tokens [OF dec s0 p0 assms(2), of quote ser "[Ge_Failed e]"]
    by (auto simp: gen_start_def)
  have v: "visible_text (plain_stop P) (length P) = Some P"
    using boundary_length [of P] by (simp add: visible_text_def slice_to_def plain_stop_def)
  show ?thesis
    using g v role by (simp add: run_generation_def final_flush_def gen_end_def log_out_apply Let_def)
qed


definition ascii_tokens :: "string \<Rightarrow> i32 list" where
  "ascii_tokens s = map (\<lambda>c. char_to_id (of_char c)) s"

lemma ascii_tokens_decode:
  "\<forall>c \<in> set s. (of_char c :: nat) < 128 \<Longrightarrow> scripted_decode_ids (map ucast (ascii_tokens s)) = Inr s"
  by (induction s)
     (simp_all add: scripted_decode_ids_def ascii_tokens_def id_to_char_to_id utf8_encode_def)

lemma ascii_tokens_plain: "set (ascii_tokens s) \<inter> set eos_ids = {}"
proof -
  have "char_to_id c \<notin> set eos_ids" for c
    using char_to_id_range [of c] by (auto simp: eos_ids_def)
  then show ?thesis by (auto simp: ascii_tokens_def)
qed

definition demo_doc :: call_doc where
  "demo_doc = [(''hi '', ''f'', [(''a'', ''1 < 2'')])]"


lemma demo_run_ok:
  obtains r log where "run_generation rfc_quote (rfc_ser (\<lambda>_. [])) scripted_decode_ids (log_out (\<lambda>_. True)) [] 3
      (map Ge_Token (ascii_tokens ''hello'') @ [Ge_Done Fr_Length \<lparr>us_prompt_tokens = 3, us_completion_tokens = 5\<rparr>]) [] =
    Some (r, log)" "gr_finish_reason r = Fr_Length" "gr_error r = None"
proof -
  have "\<forall>c \<in> set (render_doc [] @ ''hello''). (of_char c :: nat) < 128" by code_simp
  note d = ascii_tokens_decode [OF this]
  have g: "good_doc []" "CHR ''<'' \<notin> set ''hello''" by (simp_all add: good_doc_def)
  from conversation_run [OF scripted.prefix_stable_decoder_axioms d g ascii_tokens_plain,
      of rfc_quote "rfc_ser (\<lambda>_. [])" 3 Fr_Length "\<lparr>us_prompt_tokens = 3, us_completion_tokens = 5\<rparr>" "[]"] that
  show thesis by auto
qed

theorem generation_emissions_witness:
  "\<exists>r mid. list_all is_delta mid \<and>
    run_generation rfc_quote (rfc_ser (\<lambda>_. [])) scripted_decode_ids (log_out (\<lambda>_. True)) [] 3
      (map Ge_Token (ascii_tokens ''hello'') @ [Ge_Done Fr_Length \<lparr>us_prompt_tokens = 3, us_completion_tokens = 5\<rparr>]) [] =
    Some (r, Em_Role # mid @ [Em_Final ''length'' (gr_usage r)])"
proof (rule demo_run_ok)
  fix r log
  assume r: "run_generation rfc_quote (rfc_ser (\<lambda>_. [])) scripted_decode_ids (log_out (\<lambda>_. True)) [] 3
      (map Ge_Token (ascii_tokens ''hello'') @ [Ge_Done Fr_Length \<lparr>us_prompt_tokens = 3, us_completion_tokens = 5\<rparr>]) [] =
    Some (r, log)" "gr_finish_reason r = Fr_Length" "gr_error r = None"
  from generation_emissions [OF r(1)] r show ?thesis by auto
qed

lemma stop_demo:
  "\<exists>r log. run_generation rfc_quote (rfc_ser (\<lambda>_. []))
      (\<lambda>ids. Inr (concat (map (\<lambda>i. if i = 65 then ''ab'' else ''xyz'') ids)))
      (log_out (\<lambda>_. True)) [''zab''] 3 [Ge_Token 66, Ge_Token 65] [] = Some (r, log) \<and> gr_content r = ''xy''"
  by (simp add: run_generation_def gen_start_def stop_new_def on_token_def check_token_def eos_ids_def sd_push_def
      sd_new_def take_delta_def sync_emission_def ends_with_def slice_def on_text_def push_text_def find_match_def
      slice_from_def slice_to_def safe_len_def is_char_boundary_def is_cont_def Let_def log_out_apply
      suffix_to_prefix unsent_def visible_text_def forward_tool_text_def tp_push_def run_steps.simps tp_step_def
      step_text_def tp_new_def ta_default_def final_flush_def flush_decoder_def sd_finish_def flush_text_def
      stop_finish_def flush_tools_def tp_finish_def gen_end_def cong: let_weak_cong)

theorem content_has_no_stop_string_witness:
  "\<exists>r log. run_generation rfc_quote (rfc_ser (\<lambda>_. []))
      (\<lambda>ids. Inr (concat (map (\<lambda>i. if i = 65 then ''ab'' else ''xyz'') ids)))
      (log_out (\<lambda>_. True)) [''zab''] 3 [Ge_Token 66, Ge_Token 65] [] = Some (r, log) \<and>
    gr_content r = ''xy'' \<and> (\<forall>j. \<not> occurs_at ''zab'' (gr_content r) j)"
proof -
  obtain r log where r: "run_generation rfc_quote (rfc_ser (\<lambda>_. []))
      (\<lambda>ids. Inr (concat (map (\<lambda>i. if i = 65 then ''ab'' else ''xyz'') ids)))
      (log_out (\<lambda>_. True)) [''zab''] 3 [Ge_Token 66, Ge_Token 65] [] = Some (r, log)" "gr_content r = ''xy''"
    using stop_demo by blast
  from content_has_no_stop_string [OF r(1), of "''zab''"] r show ?thesis by auto
qed

end
