(* ===== verification/Tool_Args.thy ===== *)
theory Tool_Args
  imports Generation_Loop
begin

section \<open>The streamed arguments of a tool call\<close>

text \<open>
  \<open>ToolArgStream\<close> streams the arguments of a call as fragments of a JSON object. Whether they
  join to the object that the parser reports is a matter of the JSON printer: what is needed of
  it is the locale \<open>json_printing\<close>, which the escaping of RFC 8259 provides.
\<close>

locale json_escaping = json_quoting +
  assumes body_start: "body s \<noteq> DQ # x"
    and body_end: "body s = x @ [DQ] \<Longrightarrow> \<exists>y. s = y @ [DQ]"

locale json_printing = json_escaping quote body
  for quote :: "string \<Rightarrow> string" and body :: "string \<Rightarrow> string" +
  fixes ser :: "json \<Rightarrow> string"
  assumes ser_str: "ser (JStr s) = quote s"
    and ser_obj: "ser (JObj xs) = ''{'' @ join_with '','' (map (\<lambda>(k, v). quote k @ '':'' @ ser v) xs) @ ''}''"

text \<open>The joined fragments of the emissions.\<close>

fun args_text :: "emission list \<Rightarrow> string" where
  "args_text [] = []"
| "args_text (Em_ToolArgs _ s # es) = s @ args_text es"
| "args_text (_ # es) = args_text es"

lemma args_text_append [simp]: "args_text (xs @ ys) = args_text xs @ args_text ys"
  by (induction xs rule: args_text.induct) simp_all

lemma args_text_map [simp]: "args_text (map (Em_ToolArgs i) cs) = concat cs"
  by (induction cs) simp_all

definition ends_dq :: "string \<Rightarrow> bool" where
  "ends_dq s \<longleftrightarrow> (\<exists>y. s = y @ [DQ])"

text \<open>The events of one parameter, its value in fragments.\<close>

definition param_events :: "string \<times> string list \<Rightarrow> tool_call_event list" where
  "param_events p = map (Ev_Param (fst p)) (snd p)"

context json_escaping
begin

lemma escape_plain: "\<not> ends_dq s \<Longrightarrow> escape_json_fragment quote s = body s"
proof -
  assume s: "\<not> ends_dq s"
  have l: "dropWhile (\<lambda>x. x = DQ) (quote s) = body s @ [DQ]" if "body s \<noteq> []"
    using that body_start by (cases "body s") (auto simp: quote_body)
  show ?thesis
  proof (cases "body s" rule: rev_cases)
    case Nil
    then show ?thesis by (simp add: escape_json_fragment_def trim_matches_def quote_body)
  next
    case (snoc x c)
    then have "c \<noteq> DQ" using body_end [of s x] s by (auto simp: ends_dq_def)
    with snoc l show ?thesis by (simp add: escape_json_fragment_def trim_matches_def)
  qed
qed

lemma same_param:
  "\<forall>f \<in> set fs. \<not> ends_dq f \<Longrightarrow> ta_cur_param ta = Some k \<Longrightarrow>
   \<exists>es. push_tool_events quote ta (map (Ev_Param k) fs) = (es, ta) \<and> args_text es = body (concat fs)"
proof (induction fs)
  case Nil
  then show ?case by (simp add: body_Nil)
next
  case (Cons f fs)
  then show ?case by (auto simp: ta_param_def escape_plain body_append)
qed

text \<open>The text of the fragments after the values before are closed.\<close>

lemma one_param:
  assumes "fs \<noteq> []" "\<forall>f \<in> set fs. \<not> ends_dq f" "\<not> ends_dq k" "ta_cur_param ta \<noteq> Some k"
  obtains es where "push_tool_events quote ta (param_events (k, fs)) = (es, ta\<lparr>ta_open := True, ta_cur_param := Some k\<rparr>)"
    "args_text es = (if ta_cur_param ta = None then [] else [DQ]) @ (if ta_open ta then '','' else ''{'') @
       quote k @ '':'' @ DQ # body (concat fs)"
proof -
  obtain f fs' where fs: "fs = f # fs'" using assms(1) by (cases fs) auto
  let ?ta = "ta\<lparr>ta_open := True, ta_cur_param := Some k\<rparr>"
  obtain es where "push_tool_events quote ?ta (map (Ev_Param k) fs') = (es, ?ta)" "args_text es = body (concat fs')"
    using same_param [of fs' ?ta k] assms(2) fs by auto
  with assms fs that [of "map (Em_ToolArgs (ta_index ta)) (fst (ta_param quote k f ta)) @ es"] show thesis
    by (auto simp: param_events_def ta_param_def escape_plain body_append quote_body)
qed

lemma all_params:
  assumes "\<forall>(k, fs) \<in> set ps. fs \<noteq> [] \<and> (\<forall>f \<in> set fs. \<not> ends_dq f) \<and> \<not> ends_dq k"
    and "distinct (map fst ps)" "ta_cur_param ta \<notin> Some ` set (map fst ps)" "ta_open ta"
    and "ta_cur_param ta \<noteq> None"
  shows "\<exists>es ta'. push_tool_events quote ta (concat (map param_events ps)) = (es, ta') \<and>
    ta_open ta' \<and> ta_cur_param ta' \<noteq> None \<and>
    args_text es @ [DQ] = DQ # concat (map (\<lambda>(k, fs). '','' @ quote k @ '':'' @ quote (concat fs)) ps)"
  using assms
proof (induction ps arbitrary: ta)
  case (Cons p ps)
  obtain k fs where p: "p = (k, fs)" by (cases p)
  obtain es where es: "push_tool_events quote ta (param_events (k, fs)) = (es, ta\<lparr>ta_open := True, ta_cur_param := Some k\<rparr>)"
    "args_text es = (if ta_cur_param ta = None then [] else [DQ]) @ (if ta_open ta then '','' else ''{'') @
       quote k @ '':'' @ DQ # body (concat fs)"
    by (rule one_param [of fs k ta]) (use Cons.prems p in auto)
  let ?ta = "ta\<lparr>ta_open := True, ta_cur_param := Some k\<rparr>"
  have "\<exists>es ta'. push_tool_events quote ?ta (concat (map param_events ps)) = (es, ta') \<and>
      ta_open ta' \<and> ta_cur_param ta' \<noteq> None \<and>
      args_text es @ [DQ] = DQ # concat (map (\<lambda>(k, fs). '','' @ quote k @ '':'' @ quote (concat fs)) ps)"
    by (rule Cons.IH) (use Cons.prems p in auto)
  then obtain es2 ta2 where r: "push_tool_events quote ?ta (concat (map param_events ps)) = (es2, ta2)"
    "ta_open ta2" "ta_cur_param ta2 \<noteq> None"
    "args_text es2 @ [DQ] = DQ # concat (map (\<lambda>(k, fs). '','' @ quote k @ '':'' @ quote (concat fs)) ps)" by blast
  have "push_tool_events quote ta (concat (map param_events (p # ps))) = (es @ es2, ta2)"
    using es(1) r(1) p by (simp add: push_tool_events_append)
  moreover have "args_text (es @ es2) @ [DQ] =
      DQ # concat (map (\<lambda>(k, fs). '','' @ quote k @ '':'' @ quote (concat fs)) (p # ps))"
    using es(2) r(4) p Cons.prems(4,5) quote_body [of "concat fs"] by simp
  ultimately show ?case using r(2,3) by blast
qed simp

end

lemma obj_insert_new: "k \<notin> fst ` set xs \<Longrightarrow> obj_insert xs k v = xs @ [(k, v)]"
  by (induction xs k v rule: obj_insert.induct) auto

lemma foldl_obj_insert:
  "distinct (map fst (acc @ map (\<lambda>(k, v). (k, JStr v)) ps)) \<Longrightarrow>
   foldl (\<lambda>m (k, v). obj_insert m k (JStr v)) acc ps = acc @ map (\<lambda>(k, v). (k, JStr v)) ps"
proof (induction ps arbitrary: acc)
  case (Cons p ps)
  then show ?case by (cases p) (auto simp: obj_insert_new)
qed simp

text \<open>A call whose parameters arrive in fragments, the recorded call last.\<close>

definition call_events ::
  "(json \<Rightarrow> string) \<Rightarrow> string \<Rightarrow> (string \<times> string list) list \<Rightarrow> nat \<Rightarrow> tool_call_event list" where
  "call_events ser name ps n =
     Ev_Start name # concat (map param_events ps) @
     [Ev_End (finalize_call ser name (map (\<lambda>(k, fs). (k, concat fs)) ps) n)]"

definition plain_params :: "(string \<times> string list) list \<Rightarrow> bool" where
  "plain_params ps \<longleftrightarrow>
     distinct (map fst ps) \<and>
     (\<forall>(k, fs) \<in> set ps. fs \<noteq> [] \<and> (\<forall>f \<in> set fs. \<not> ends_dq f) \<and> \<not> ends_dq k)"

context json_printing
begin

lemma arguments_text:
  assumes "distinct (map fst ps)"
  shows "tc_arguments (finalize_call ser name (map (\<lambda>(k, fs). (k, concat fs)) ps) n) =
    ''{'' @ join_with '','' (map (\<lambda>(k, fs). quote k @ '':'' @ quote (concat fs)) ps) @ ''}''"
proof -
  have "distinct (map fst ([] @ map (\<lambda>(k, v). (k, JStr v)) (map (\<lambda>(k, fs). (k, concat fs)) ps)))"
    using assms by (simp add: comp_def case_prod_beta)
  from foldl_obj_insert [OF this] show ?thesis
    by (simp add: finalize_call_def ser_obj ser_str comp_def case_prod_unfold)
qed

lemma joined_arguments:
  assumes "plain_params ps"
  shows "args_text (fst (push_tool_events quote ta (call_events ser name ps n))) =
    tc_arguments (finalize_call ser name (map (\<lambda>(k, fs). (k, concat fs)) ps) n)"
proof -
  have d: "distinct (map fst ps)" using assms by (simp add: plain_params_def)
  define ta0 where "ta0 = begin_call (ta_next_index ta) ta"
  have t0: "\<not> ta_open ta0" "ta_cur_param ta0 = None" by (simp_all add: ta0_def begin_call_def)
  have ev: "fst (push_tool_events quote ta (call_events ser name ps n)) =
      Em_ToolStart (ta_next_index ta) (''call_'' @ dec_digits (ta_next_index ta)) name #
      (case push_tool_events quote ta0 (concat (map param_events ps)) of
        (es, ta1) \<Rightarrow> es @ map (Em_ToolArgs (ta_index (snd (ta_end_call ta1)))) (fst (ta_end_call ta1)))"
    by (simp add: call_events_def push_tool_events_append ta0_def Let_def case_prod_beta)
  show ?thesis
  proof (cases ps)
    case Nil
    with ev t0 arguments_text [of "[]"] show ?thesis by (simp add: ta_end_call_def join_with_def)
  next
    case (Cons p qs)
    obtain k fs where p: "p = (k, fs)" by (cases p)
    obtain es where es: "push_tool_events quote ta0 (param_events (k, fs)) = (es, ta0\<lparr>ta_open := True, ta_cur_param := Some k\<rparr>)"
      "args_text es = (if ta_cur_param ta0 = None then [] else [DQ]) @ (if ta_open ta0 then '','' else ''{'') @
         quote k @ '':'' @ DQ # body (concat fs)"
      by (rule one_param [of fs k ta0]) (use assms Cons p t0 in \<open>auto simp: plain_params_def\<close>)
    let ?ta = "ta0\<lparr>ta_open := True, ta_cur_param := Some k\<rparr>"
    have "\<exists>es ta'. push_tool_events quote ?ta (concat (map param_events qs)) = (es, ta') \<and>
        ta_open ta' \<and> ta_cur_param ta' \<noteq> None \<and>
        args_text es @ [DQ] = DQ # concat (map (\<lambda>(k, fs). '','' @ quote k @ '':'' @ quote (concat fs)) qs)"
      by (rule all_params) (use assms Cons p in \<open>auto simp: plain_params_def\<close>)
    then obtain es2 ta2 where r: "push_tool_events quote ?ta (concat (map param_events qs)) = (es2, ta2)"
      "ta_open ta2" "ta_cur_param ta2 \<noteq> None"
      "args_text es2 @ [DQ] = DQ # concat (map (\<lambda>(k, fs). '','' @ quote k @ '':'' @ quote (concat fs)) qs)" by blast
    have "args_text (fst (push_tool_events quote ta (call_events ser name ps n))) =
        ''{'' @ quote k @ '':'' @ DQ # body (concat fs) @ (args_text es2 @ [DQ]) @ ''}''"
      using ev es r(1,2,3) Cons p t0 by (simp add: push_tool_events_append ta_end_call_def)
    also have "\<dots> = ''{'' @ join_with '','' (map (\<lambda>(k, fs). quote k @ '':'' @ quote (concat fs)) ps) @ ''}''"
      unfolding r(4) using Cons p quote_body [of "concat fs"] by (simp add: join_with_def comp_def case_prod_unfold)
    finally show ?thesis unfolding arguments_text [OF d] .
  qed
qed

end

subsection \<open>RFC 8259 provides the contract\<close>

lemma rfc_escape_start: "rfc_escape_char c \<noteq> [] \<and> hd (rfc_escape_char c) \<noteq> DQ"
  by (auto simp: rfc_escape_char_def Let_def)

lemma hex_digit_not_dq: "n < 16 \<Longrightarrow> hex_digit n \<noteq> DQ"
proof
  assume n: "n < 16" and "hex_digit n = DQ"
  then have "(of_char (hex_digit n) :: nat) = 34" by simp
  then show False using n by (auto simp: hex_digit_def split: if_splits)
qed

lemma rfc_escape_end: "last (rfc_escape_char c) = DQ \<Longrightarrow> c = DQ"
  using hex_digit_not_dq [of "of_char c mod 16"]
  by (auto simp: rfc_escape_char_def Let_def split: if_splits)

interpretation rfc_print: json_printing rfc_quote rfc_body "rfc_ser fl" for fl
proof
  show "rfc_body s \<noteq> DQ # x" for s x
  proof (cases s)
    case (Cons c cs)
    with rfc_escape_start [of c] show ?thesis
      by (cases "rfc_escape_char c") (auto simp: rfc_body_def)
  qed (simp add: rfc_body_def)
  show "\<exists>y. s = y @ [DQ]" if "rfc_body s = x @ [DQ]" for s x
  proof (cases s rule: rev_cases)
    case Nil
    with that show ?thesis by (simp add: rfc_body_def)
  next
    case (snoc y c)
    then have "rfc_body s = rfc_body y @ rfc_escape_char c" by (simp add: rfc_body_def)
    then have "last (rfc_escape_char c) = DQ"
      using that rfc_escape_start [of c] by (metis last_appendR last_snoc)
    with rfc_escape_end snoc show ?thesis by blast
  qed
qed simp_all

subsection \<open>Properties\<close>




end

