(* ===== verification/Server.thy ===== *)
theory Server
  imports Prompt Metrics Scheduler
begin

section \<open>Application state and shared responses of the server\<close>

text \<open>
  \<open>minicpm-server/src/lib.rs\<close>: the application state, ids, the observability endpoints and the
  shared error responses, and two things every protocol uses: server-sent-event frames and the
  conversion of request numbers (\<open>f64 as f32\<close>). The HTTP framework is not modelled: a response
  is a status with headers and a JSON body, or the sequence of frames written to an event
  stream. The scheduler handle is a pair of parameters of the state: submission, which yields
  the events the receiver will get or a refusal, and cancellation.
\<close>

datatype http_response =
    Rs_Json nat "(string \<times> string) list" json
  | Rs_Sse "string list"

record 'w app_state =
  st_try_generate :: "generation_job \<Rightarrow> 'w \<Rightarrow> gen_event list option \<times> 'w"
  st_cancel :: "'w \<Rightarrow> 'w"
  st_prompt :: prompt_builder
  st_model_name :: string
  st_default_config :: gen_config
  st_max_sessions :: nat
  st_unix_now :: u64

text \<open>What the handlers change: the shared id counter, the metrics, the scheduler's world.\<close>

record 'w app_vars =
  av_counter :: u64
  av_metrics :: metrics
  av_world :: 'w

definition next_id :: "string \<Rightarrow> 'w app_vars \<Rightarrow> string \<times> 'w app_vars" where
  "next_id pre v =
     (let n = av_counter v + 1 in (pre @ ''-'' @ dec_digits (unat n), v\<lparr>av_counter := n\<rparr>))"

definition next_chunk_id :: "'w app_vars \<Rightarrow> string \<times> 'w app_vars" where
  "next_chunk_id v =
     (let n = av_counter v + 1 in (''chatcmpl-'' @ dec_digits (unat n), v\<lparr>av_counter := n\<rparr>))"

definition models_response :: "'w app_state \<Rightarrow> http_response" where
  "models_response st =
     Rs_Json 200 []
       (JObj [(''object'', JStr ''list''),
              (''data'', JArr [JObj [(''id'', JStr (st_model_name st)), (''object'', JStr ''model''),
                                     (''created'', jnat (st_unix_now st)),
                                     (''owned_by'', JStr ''minicpm'')]])])"

definition health_response :: http_response where
  "health_response = Rs_Json 200 [] (JObj [(''status'', JStr ''ok'')])"

text \<open>\<open>snap[key] = value\<close> on an object.\<close>

fun json_set :: "json \<Rightarrow> string \<Rightarrow> json \<Rightarrow> json" where
  "json_set (JObj xs) k v = JObj (obj_insert xs k v)"
| "json_set j k v = j"

text \<open>\<open>a.checked_div(b).unwrap_or(0)\<close>\<close>

definition div_or_zero :: "u64 \<Rightarrow> u64 \<Rightarrow> u64" where
  "div_or_zero a b = (if b = 0 then 0 else a div b)"

definition stats_response :: "'w app_state \<Rightarrow> metrics \<Rightarrow> http_response" where
  "stats_response st m =
     (let sched = JObj
            [(''queue_depth'', ji64 (queue_depth m)),
             (''active_sessions'', ji64 (active_sessions m)),
             (''max_sessions'', jnat (of_nat (st_max_sessions st))),
             (''batch'', JObj
               [(''batched_steps_total'', jnat (batched_steps_total m)),
                (''batch_fallbacks_total'', jnat (batch_fallbacks_total m)),
                (''batch_size_mean'', jnat (div_or_zero (batch_size_sum m) (batched_steps_total m)))])]
      in Rs_Json 200 []
           (json_set (json_set (metrics_snapshot m) ''scheduler'' sched)
              ''recent_requests'' (recent_requests_json m)))"

definition error_response :: "nat \<Rightarrow> string \<Rightarrow> http_response" where
  "error_response status msg =
     Rs_Json status []
       (JObj [(''error'', JObj [(''message'', JStr msg), (''type'', JStr ''invalid_request_error'')])])"

definition queue_full_response :: http_response where
  "queue_full_response =
     Rs_Json 429 [(''Retry-After'', ''1'')]
       (JObj [(''error'', JObj [(''message'', JStr ''queue full: too many waiting requests, retry later''),
                                (''type'', JStr ''rate_limit_error'')])])"

definition count_request :: "bool \<Rightarrow> 'w app_vars \<Rightarrow> 'w app_vars" where
  "count_request stream v =
     (let m = av_metrics v; m1 = m\<lparr>requests_total := requests_total m + 1\<rparr>
      in v\<lparr>av_metrics := (if stream then m1\<lparr>stream_requests_total := stream_requests_total m1 + 1\<rparr> else m1)\<rparr>)"

subsection \<open>Event-stream frames\<close>

text \<open>\<open>format!("data: {v}\n\n")\<close>, and a named frame.\<close>

definition data_frame :: "string \<Rightarrow> string" where
  "data_frame s = ''data: '' @ s @ [NL, NL]"

definition event_frame :: "string \<Rightarrow> string \<Rightarrow> string" where
  "event_frame name s = ''event: '' @ name @ [NL] @ data_frame s"

text \<open>Frames handed to the client's channel one by one, up to the first that it refuses; \<open>alive n\<close>
  says whether the client still takes frame number \<open>n\<close>. The result has what the client got: after a
  refusal nothing more arrives.\<close>

fun send_frames :: "(nat \<Rightarrow> bool) \<Rightarrow> string list \<Rightarrow> string list \<Rightarrow> bool \<times> string list" where
  "send_frames alive [] ws = (True, ws)"
| "send_frames alive (f # fs) ws =
     (if alive (length ws) then send_frames alive fs (ws @ [f]) else (False, ws))"

text \<open>Everything arrived, or a prefix and the client is gone.\<close>

definition delivered :: "(nat \<Rightarrow> bool) \<Rightarrow> string list \<Rightarrow> string list \<Rightarrow> bool" where
  "delivered alive ws all \<longleftrightarrow> prefix ws all \<and> (ws = all \<or> \<not> alive (length ws))"

lemma delivered_refl [simp]: "delivered alive ws ws"
  by (simp add: delivered_def)

lemma send_frames_spec:
  "send_frames alive fs ws = (ok, ws') \<Longrightarrow>
   delivered alive ws' (ws @ fs) \<and> (ok \<longleftrightarrow> ws' = ws @ fs) \<and> (\<not> ok \<longrightarrow> \<not> alive (length ws'))"
proof (induction fs arbitrary: ws)
  case (Cons f fs)
  show ?case
  proof (cases "alive (length ws)")
    case True
    with Cons.IH [of "ws @ [f]"] Cons.prems show ?thesis by simp
  next
    case False
    with Cons.prems show ?thesis by (auto simp: delivered_def)
  qed
qed simp

lemma delivered_send:
  assumes d: "delivered alive ws all" and s: "send_frames alive fs ws = (ok, ws')"
  shows "delivered alive ws' (all @ fs) \<and> (\<not> ok \<longrightarrow> \<not> alive (length ws'))"
proof (cases "ws = all")
  case True
  with send_frames_spec [OF s] show ?thesis by simp
next
  case False
  then have "\<not> alive (length ws)" and p: "prefix ws all" using d by (simp_all add: delivered_def)
  then have "ws' = ws" using s by (cases fs) auto
  with \<open>\<not> alive (length ws)\<close> p show ?thesis by (auto simp: delivered_def)
qed

lemma prefix_map_take: "prefix ws (map f xs) \<Longrightarrow> \<exists>k. ws = map f (take k xs)"
  by (metis append_eq_conv_conj prefix_def take_map)

lemma take_map_full: "map f (take k xs) = map f xs \<Longrightarrow> take k xs = xs"
  by (drule arg_cong [of _ _ length]) (simp add: min_def split: if_splits)

lemma list_all_take: "list_all P xs \<Longrightarrow> list_all P (take k xs)"
  by (auto simp: list_all_iff dest: in_set_takeD)

lemma delivered_all: "delivered alive ws all \<Longrightarrow> alive (length ws) \<Longrightarrow> ws = all"
  by (simp add: delivered_def)

text \<open>A client's reading of a stream: lines, an event at each blank line, the \<open>data\<close> lines of an
  event joined.\<close>

fun sse_lines :: "string \<Rightarrow> string \<Rightarrow> string list" where
  "sse_lines cur [] = []"
| "sse_lines cur (c # cs) = (if c = NL then cur # sse_lines [] cs else sse_lines (cur @ [c]) cs)"

fun sse_events :: "string option \<Rightarrow> string option \<Rightarrow> string list \<Rightarrow> (string option \<times> string) list" where
  "sse_events ev dat [] = []"
| "sse_events ev dat (l # ls) =
     (if l = [] then (case dat of None \<Rightarrow> sse_events None None ls
                      | Some d \<Rightarrow> (ev, d) # sse_events None None ls)
      else case strip_prefix l ''data: '' of
        Some d \<Rightarrow> sse_events ev (Some (case dat of None \<Rightarrow> d | Some d0 \<Rightarrow> d0 @ [NL] @ d)) ls
      | None \<Rightarrow>
          (case strip_prefix l ''event: '' of
             Some n \<Rightarrow> sse_events (Some n) dat ls
           | None \<Rightarrow> sse_events ev dat ls))"

definition sse_read :: "string \<Rightarrow> (string option \<times> string) list" where
  "sse_read s = sse_events None None (sse_lines [] s)"

lemma sse_lines_step: "NL \<notin> set l \<Longrightarrow> sse_lines cur (l @ NL # s) = (cur @ l) # sse_lines [] s"
  by (induction l arbitrary: cur) auto

lemma strip_data: "strip_prefix (''data: '' @ s) ''data: '' = Some s"
  by (simp add: strip_prefix_def)

lemma strip_event: "strip_prefix (''event: '' @ s) ''event: '' = Some s"
  "strip_prefix (''event: '' @ s) ''data: '' = None"
  by (simp_all add: strip_prefix_def)

definition frame_of :: "string option \<times> string \<Rightarrow> string" where
  "frame_of f = (case f of (None, d) \<Rightarrow> data_frame d | (Some n, d) \<Rightarrow> event_frame n d)"

lemma frame_of_simps [simp]: "frame_of (None, d) = data_frame d" "frame_of (Some n, d) = event_frame n d"
  by (simp_all add: frame_of_def)

definition one_line :: "string option \<times> string \<Rightarrow> bool" where
  "one_line f \<longleftrightarrow> NL \<notin> set (snd f) \<and> (\<forall>n. fst f = Some n \<longrightarrow> NL \<notin> set n)"

lemma sse_lines_data: "NL \<notin> set d \<Longrightarrow> sse_lines [] (data_frame d @ s) = (''data: '' @ d) # [] # sse_lines [] s"
  using sse_lines_step [of "''data: '' @ d" "[]" "NL # s"] sse_lines_step [of "[]" "[]" s]
  by (simp add: data_frame_def)

lemma sse_lines_event:
  "NL \<notin> set n \<Longrightarrow> NL \<notin> set d \<Longrightarrow>
   sse_lines [] (event_frame n d @ s) = (''event: '' @ n) # (''data: '' @ d) # [] # sse_lines [] s"
  using sse_lines_step [of "''event: '' @ n" "[]" "data_frame d @ s"] sse_lines_data [of d s]
  by (simp add: event_frame_def)

lemma sse_read_frames:
  "list_all one_line fs \<Longrightarrow> sse_read (concat (map frame_of fs)) = fs"
proof (induction fs)
  case Nil
  then show ?case by (simp add: sse_read_def)
next
  case (Cons f fs)
  obtain n d where f: "f = (n, d)" by (cases f)
  show ?case
  proof (cases n)
    case None
    with Cons f show ?thesis
      using sse_lines_data [of d "concat (map frame_of fs)"] strip_data [of d]
      by (simp add: sse_read_def one_line_def)
  next
    case (Some m)
    with Cons f show ?thesis
      using sse_lines_event [of m d "concat (map frame_of fs)"] strip_data [of d] strip_event [of m]
      by (simp add: sse_read_def one_line_def)
  qed
qed

subsection \<open>\<open>f64 as f32\<close>\<close>

text \<open>On IEEE 754 bit patterns: round to nearest, ties to even; overflow to infinity, gradual
  underflow to subnormals and zero; a NaN gives a quiet NaN.\<close>

definition round_shift :: "nat \<Rightarrow> nat \<Rightarrow> nat" where
  "round_shift m s =
     (let q = m div 2 ^ s; r = m mod 2 ^ s; half = 2 ^ (s - 1)
      in if half < r \<or> (r = half \<and> odd q) then q + 1 else q)"

definition f64_to_f32 :: "u64 \<Rightarrow> f32" where
  "f64_to_f32 w =
     (let n = unat w; sign = (n div 2 ^ 63) * 2 ^ 31; e = (n div 2 ^ 52) mod 2048; f = n mod 2 ^ 52
      in if e = 2047 then of_nat (sign + 2139095040 + (if f = 0 then 0 else 4194304))
         else
           let m = (if e = 0 then f else f + 2 ^ 52); e1 = max e 1;
               bits = (if 896 < e1 then (e1 - 897) * 2 ^ 23 + round_shift m 29
                       else round_shift m (29 + (897 - e1)))
           in of_nat (sign + min bits 2139095040))"

lemma f64_to_f32_examples:
  "f64_to_f32 0x3FF0000000000000 = 0x3F800000" "f64_to_f32 0x3FEE666666666666 = 0x3F733333"
  "f64_to_f32 0 = 0" "f64_to_f32 0x47F0000000000000 = 0x7F800000" "f64_to_f32 0x36A0000000000000 = 1"
  by (simp_all add: f64_to_f32_def Let_def round_shift_def)

end
