(* ===== verification/Chat.thy ===== *)
theory Chat
  imports Server Generation_Loop
begin

section \<open>Chat completions\<close>

text \<open>
  \<open>minicpm-server/src/chat.rs\<close>: the request, the merge of its sampling parameters into the
  default configuration, the rendering of emissions as server-sent events, the JSON response and
  the handler. Deserialization has happened: the request is the record of its parsed fields.
  \<open>ser\<close> and \<open>quote\<close> print JSON. The frames of a stream are what the client gets of it (\<open>send_frames\<close>).
  \<open>None\<close> as a response is a panic of the generation loop.
\<close>

datatype stop_param = Stop_One string | Stop_Many "string list"

fun stop_into_vec :: "stop_param \<Rightarrow> string list" where
  "stop_into_vec (Stop_One s) = [s]"
| "stop_into_vec (Stop_Many v) = v"

record chat_request =
  cr_model :: "string option"
  cr_messages :: "json list"
  cr_tools :: "json option"
  cr_temperature :: "u64 option"
  cr_top_p :: "u64 option"
  cr_top_k :: "u32 option"
  cr_repetition_penalty :: "u64 option"
  cr_seed :: "u64 option"
  cr_max_tokens :: "u64 option"
  cr_max_completion_tokens :: "u64 option"
  cr_stream :: "bool option"
  cr_stop :: "stop_param option"
  cr_enable_thinking :: "bool option"

text \<open>\<open>if let Some(x) = field { c.f = .. }\<close>, and \<open>m.min(u32::MAX as u64) as u32\<close>.\<close>

definition set_opt :: "'a option \<Rightarrow> ('a \<Rightarrow> 'c \<Rightarrow> 'c) \<Rightarrow> 'c \<Rightarrow> 'c" where
  "set_opt x f c = (case x of None \<Rightarrow> c | Some v \<Rightarrow> f v c)"

definition min_u32 :: "u64 \<Rightarrow> u32" where
  "min_u32 m = ucast (min m 4294967295)"

definition or_else :: "'a option \<Rightarrow> 'a option \<Rightarrow> 'a option" where
  "or_else x y = (case x of None \<Rightarrow> y | Some _ \<Rightarrow> x)"

definition merge_config :: "'w app_state \<Rightarrow> chat_request \<Rightarrow> gen_config" where
  "merge_config st req =
     (let c0 = st_default_config st;
          c1 = set_opt (cr_temperature req) (\<lambda>t c. c\<lparr>gc_temperature := f64_to_f32 t\<rparr>) c0;
          c2 = set_opt (cr_top_p req) (\<lambda>p c. c\<lparr>gc_top_p := f64_to_f32 p\<rparr>) c1;
          c3 = set_opt (cr_top_k req) (\<lambda>k c. c\<lparr>gc_top_k := k\<rparr>) c2;
          c4 = set_opt (cr_repetition_penalty req) (\<lambda>r c. c\<lparr>gc_repetition_penalty := f64_to_f32 r\<rparr>) c3;
          c5 = set_opt (cr_seed req) (\<lambda>s c. c\<lparr>gc_seed := s\<rparr>) c4
      in set_opt (or_else (cr_max_completion_tokens req) (cr_max_tokens req))
           (\<lambda>m c. c\<lparr>gc_max_new_tokens := min_u32 m\<rparr>) c5)"

subsection \<open>Rendering\<close>

record sse_ctx =
  sx_id :: string
  sx_created :: u64
  sx_model :: string

definition usage_json :: "usage \<Rightarrow> json" where
  "usage_json u =
     JObj [(''prompt_tokens'', jnat (us_prompt_tokens u)),
           (''completion_tokens'', jnat (us_completion_tokens u)),
           (''total_tokens'', jnat (total_tokens u))]"

definition opt_str :: "string option \<Rightarrow> json" where
  "opt_str s = (case s of None \<Rightarrow> JNull | Some x \<Rightarrow> JStr x)"

definition chunk_json :: "sse_ctx \<Rightarrow> json \<Rightarrow> string option \<Rightarrow> usage option \<Rightarrow> json" where
  "chunk_json ctx delta reason u =
     (let v = JObj [(''id'', JStr (sx_id ctx)), (''object'', JStr ''chat.completion.chunk''),
                    (''created'', jnat (sx_created ctx)), (''model'', JStr (sx_model ctx)),
                    (''choices'', JArr [JObj [(''index'', jnat 0), (''delta'', delta),
                                              (''finish_reason'', opt_str reason)]])]
      in case u of None \<Rightarrow> v | Some us \<Rightarrow> json_set v ''usage'' (usage_json us))"

fun emission_json :: "sse_ctx \<Rightarrow> emission \<Rightarrow> json" where
  "emission_json ctx Em_Role =
     chunk_json ctx (JObj [(''role'', JStr ''assistant''), (''content'', JStr [])]) None None"
| "emission_json ctx (Em_Content t) = chunk_json ctx (JObj [(''content'', JStr t)]) None None"
| "emission_json ctx (Em_ToolStart index i name) =
     chunk_json ctx
       (JObj [(''tool_calls'', JArr [JObj
          [(''index'', jnat (of_nat index)), (''id'', JStr i), (''type'', JStr ''function''),
           (''function'', JObj [(''name'', JStr name), (''arguments'', JStr [])])]])]) None None"
| "emission_json ctx (Em_ToolArgs index chunk) =
     chunk_json ctx
       (JObj [(''tool_calls'', JArr [JObj
          [(''index'', jnat (of_nat index)), (''function'', JObj [(''arguments'', JStr chunk)])]])])
       None None"
| "emission_json ctx (Em_Final reason u) = chunk_json ctx (JObj []) (Some reason) (Some u)"
| "emission_json ctx (Em_Error msg) =
     JObj [(''error'', JObj [(''message'', JStr msg), (''type'', JStr ''server_error'')])]"

definition sse_render :: "(json \<Rightarrow> string) \<Rightarrow> sse_ctx \<Rightarrow> emission \<Rightarrow> string" where
  "sse_render ser ctx em = data_frame (ser (emission_json ctx em))"

definition call_json :: "tool_call \<Rightarrow> json" where
  "call_json c =
     JObj [(''id'', JStr (tc_id c)), (''type'', JStr ''function''),
           (''function'', JObj [(''name'', JStr (tc_name c)), (''arguments'', JStr (tc_arguments c))])]"

definition non_stream_json :: "gen_result \<Rightarrow> string \<Rightarrow> u64 \<Rightarrow> string \<Rightarrow> http_response" where
  "non_stream_json r chunk_id created model =
     (let msg0 = JObj [(''role'', JStr ''assistant''), (''content'', JStr (gr_content r))];
          msg = (if gr_tool_calls r = [] then msg0
                 else json_set msg0 ''tool_calls'' (JArr (map call_json (gr_tool_calls r))))
      in Rs_Json 200 []
           (JObj [(''id'', JStr chunk_id), (''object'', JStr ''chat.completion''),
                  (''created'', jnat created), (''model'', JStr model),
                  (''choices'', JArr [JObj [(''index'', jnat 0), (''message'', msg),
                     (''finish_reason'', JStr (finish_reason_as_str (gr_finish_reason r)))]]),
                  (''usage'', usage_json (gr_usage r))]))"

subsection \<open>The handler\<close>

definition frame_out :: "(nat \<Rightarrow> bool) \<Rightarrow> (emission \<Rightarrow> string) \<Rightarrow> string list emit" where
  "frame_out alive render em ws = send_frames alive [render em] ws"

definition done_frame :: string where
  "done_frame = data_frame ''[DONE]''"

definition stream_response ::
  "(string \<Rightarrow> string) \<Rightarrow> (json \<Rightarrow> string) \<Rightarrow> (nat \<Rightarrow> bool) \<Rightarrow> 'w app_state \<Rightarrow> gen_event list \<Rightarrow> string list \<Rightarrow>
   u64 \<Rightarrow> sse_ctx \<Rightarrow> http_response option" where
  "stream_response quote ser alive st events stops prompt_len ctx =
     (case run_generation quote ser (pb_decode_ids (st_prompt st)) (frame_out alive (sse_render ser ctx))
             stops prompt_len events [] of
        None \<Rightarrow> None
      | Some (_, ws) \<Rightarrow> Some (Rs_Sse (snd (send_frames alive [done_frame] ws))))"

definition chat_completions ::
  "(string \<Rightarrow> string) \<Rightarrow> (json \<Rightarrow> string) \<Rightarrow> (nat \<Rightarrow> bool) \<Rightarrow> 'w app_state \<Rightarrow> chat_request \<Rightarrow> 'w app_vars \<Rightarrow>
   http_response option \<times> 'w app_vars" where
  "chat_completions quote ser alive st req v =
     (if cr_messages req = [] then (Some (error_response 400 ''`messages` must not be empty''), v)
      else case pb_prompt_ids (st_prompt st) (cr_messages req) (cr_tools req) (cr_enable_thinking req) of
        Inl e \<Rightarrow> (Some (error_response 500 (''prompt build failed: '' @ e)), v)
      | Inr ids \<Rightarrow>
          if ids = [] then (Some (error_response 400 ''prompt encoded to zero tokens''), v)
          else
            let prompt_len = of_nat (length ids);
                config = merge_config st req;
                stops = (case cr_stop req of None \<Rightarrow> [] | Some s \<Rightarrow> stop_into_vec s);
                stream = (case cr_stream req of None \<Rightarrow> False | Some b \<Rightarrow> b);
                v1 = count_request stream v
            in case st_try_generate st \<lparr>gj_prompt_ids = ids, gj_config = config\<rparr> (av_world v1) of
                 (None, w) \<Rightarrow> (Some queue_full_response, v1\<lparr>av_world := w\<rparr>)
               | (Some events, w) \<Rightarrow>
                   (let (chunk_id, v2) = next_chunk_id (v1\<lparr>av_world := w\<rparr>);
                        v3 = v2\<lparr>av_world := st_cancel st (av_world v2)\<rparr>
                    in if stream
                       then (stream_response quote ser alive st events stops prompt_len
                               \<lparr>sx_id = chunk_id, sx_created = st_unix_now st, sx_model = st_model_name st\<rparr>,
                             v3)
                       else (case run_generation quote ser (pb_decode_ids (st_prompt st)) (\<lambda>_ k. (True, k))
                                    stops prompt_len events () of
                               None \<Rightarrow> None
                             | Some (r, _) \<Rightarrow>
                                 Some (case gr_error r of
                                         Some e \<Rightarrow> error_response 500 (''generation failed: '' @ e)
                                       | None \<Rightarrow> non_stream_json r chunk_id (st_unix_now st) (st_model_name st)),
                             v3)))"

text \<open>A state for concrete runs: every job yields the given events, and the decoder shows any
  tokens as one text.\<close>

definition one_shot :: "string \<Rightarrow> decode_fn" where
  "one_shot s ids = Inr (if ids = [] then [] else s)"

definition demo_usage :: usage where
  "demo_usage = \<lparr>us_prompt_tokens = 3, us_completion_tokens = 1\<rparr>"

definition demo_state :: "string \<Rightarrow> unit app_state" where
  "demo_state s =
     \<lparr>st_try_generate = (\<lambda>_ w. (Some [Ge_Token 66, Ge_Done Fr_Stop demo_usage], w)),
      st_cancel = (\<lambda>w. w),
      st_prompt = \<lparr>pb_prompt_ids = (\<lambda>_ _ _. Inr [1, 2, 3]), pb_decode_ids = one_shot s, pb_bos_token = ''<s>''\<rparr>,
      st_model_name = ''m'', st_default_config = gen_config_default, st_max_sessions = 1, st_unix_now = 0\<rparr>"

end
