(* ===== verification/Consumer.thy ===== *)
theory Consumer
  imports Generation_Props
begin

section \<open>Any consumer of the generation loop\<close>

text \<open>
  The protocols give \<open>run_generation\<close> closures with a state of their own (an encoder, the frames
  sent so far). What the loop does depends on a consumer only through its answers, which is the
  locale \<open>consumer_simulation\<close>; every consumer is simulated by the recorder of
  \<open>Generation_Loop\<close>, so its final state is what the emissions of the recorded log make of it.
  The shape of such a log, with the numbering of the tool calls, is stated at the end.
\<close>

text \<open>Equal loops up to the consumers' states.\<close>

definition same_loop :: "('k \<Rightarrow> 'm \<Rightarrow> bool) \<Rightarrow> 'k gen_loop \<Rightarrow> 'm gen_loop \<Rightarrow> bool" where
  "same_loop S g h \<longleftrightarrow>
     gl_stop g = gl_stop h \<and> gl_decoder g = gl_decoder h \<and> gl_tool g = gl_tool h \<and>
     gl_args g = gl_args h \<and> gl_emitted g = gl_emitted h \<and> gl_reason g = gl_reason h \<and>
     gl_failed g = gl_failed h \<and> gl_gone g = gl_gone h \<and> S (gl_sink g) (gl_sink h)"

abbreviation same_step :: "('k \<Rightarrow> 'm \<Rightarrow> bool) \<Rightarrow> bool \<times> 'k gen_loop \<Rightarrow> bool \<times> 'm gen_loop \<Rightarrow> bool" where
  "same_step S \<equiv> rel_prod (=) (same_loop S)"

lemma rel_option_chain:
  assumes "rel_option A x y" "\<And>a b. A a b \<Longrightarrow> rel_option B (f a) (f' b)"
  shows "rel_option B (case x of None \<Rightarrow> None | Some a \<Rightarrow> f a) (case y of None \<Rightarrow> None | Some b \<Rightarrow> f' b)"
  using assms by (cases x; cases y) auto

locale consumer_simulation =
  fixes out :: "'k emit" and out' :: "'m emit" and S :: "'k \<Rightarrow> 'm \<Rightarrow> bool"
  assumes answer: "S k m \<Longrightarrow> rel_prod (=) S (out em k) (out' em m)"
begin

lemma emit_pending_same:
  "same_loop S g h \<Longrightarrow> same_step S (emit_pending out ems g) (emit_pending out' ems h)"
proof (induction ems arbitrary: g h)
  case Nil
  then show ?case by simp
next
  case (Cons em ems)
  have "S (gl_sink g) (gl_sink h)" using Cons.prems by (simp add: same_loop_def)
  note a = answer [OF this, of em]
  obtain b k where o: "out em (gl_sink g) = (b, k)" by (cases "out em (gl_sink g)")
  with a obtain m where o': "out' em (gl_sink h) = (b, m)" and s: "S k m"
    by (cases "out' em (gl_sink h)") auto
  show ?case
  proof (cases b)
    case True
    have "same_loop S (g\<lparr>gl_sink := k\<rparr>) (h\<lparr>gl_sink := m\<rparr>)" using Cons.prems s by (simp add: same_loop_def)
    from Cons.IH [OF this] o o' True show ?thesis by simp
  next
    case False
    with o o' Cons.prems s show ?thesis by (simp add: same_loop_def)
  qed
qed

lemma forward_same:
  assumes "same_loop S g h"
  shows "same_step S (forward_tool_text quote ser out x g) (forward_tool_text quote ser out' x h)"
proof -
  have e: "gl_tool h = gl_tool g" "gl_args h = gl_args g" using assms by (simp_all add: same_loop_def)
  show ?thesis
    unfolding forward_tool_text_def e
    using assms by (auto simp: Let_def same_loop_def split: prod.split intro!: emit_pending_same)
qed

lemma on_text_same:
  assumes "same_loop S g h"
  shows "rel_option (same_step S) (on_text quote ser out t g) (on_text quote ser out' t h)"
proof -
  have e: "gl_stop h = gl_stop g" "gl_emitted h = gl_emitted g" using assms by (simp_all add: same_loop_def)
  show ?thesis
  proof (cases "push_text (gl_stop g) t")
    case None
    then show ?thesis by (simp add: on_text_def e)
  next
    case (Some r)
    obtain hit ss where r: "r = (hit, ss)" by (cases r)
    show ?thesis
    proof (cases "unsent ss (gl_emitted g) (safe_len ss)")
      case None
      with Some r assms show ?thesis by (simp add: on_text_def e Let_def same_loop_def)
    next
      case u: (Some chunk)
      let ?g = "g\<lparr>gl_stop := ss, gl_emitted := safe_len ss\<rparr>" and ?h = "h\<lparr>gl_stop := ss, gl_emitted := safe_len ss\<rparr>"
      have "same_loop S ?g ?h" using assms by (simp add: same_loop_def)
      note f = forward_same [OF this, of quote ser chunk]
      obtain b g2 where g2: "forward_tool_text quote ser out chunk ?g = (b, g2)"
        by (cases "forward_tool_text quote ser out chunk ?g")
      with f obtain h2 where h2: "forward_tool_text quote ser out' chunk ?h = (b, h2)" "same_loop S g2 h2"
        by (cases "forward_tool_text quote ser out' chunk ?h") auto
      show ?thesis
        using Some r u g2 h2 assms by (cases b) (simp_all add: on_text_def e Let_def same_loop_def)
    qed
  qed
qed

lemma on_event_same:
  assumes "same_loop S g h"
  shows "rel_option (same_step S) (on_event quote ser dec out ev g) (on_event quote ser dec out' ev h)"
proof (cases ev)
  case (Ge_Token i)
  have e: "gl_stop h = gl_stop g" "gl_decoder h = gl_decoder g" using assms by (simp_all add: same_loop_def)
  obtain hit ss where c: "check_token (gl_stop g) i = (hit, ss)" by (cases "check_token (gl_stop g) i")
  have t: "rel_option (same_step S) (on_text quote ser out t (g\<lparr>gl_stop := ss, gl_decoder := sd\<rparr>))
      (on_text quote ser out' t (h\<lparr>gl_stop := ss, gl_decoder := sd\<rparr>))" for t sd
    using assms by (intro on_text_same) (simp add: same_loop_def)
  show ?thesis
    using assms t
    by (auto simp: Ge_Token on_token_def e c Let_def same_loop_def split: option.splits sum.splits prod.splits)
qed (use assms in \<open>simp_all add: same_loop_def\<close>)

lemma event_loop_same:
  "same_loop S g h \<Longrightarrow>
   rel_option (same_loop S) (event_loop quote ser dec out evs g) (event_loop quote ser dec out' evs h)"
proof (induction evs arbitrary: g h)
  case Nil
  then show ?case by simp
next
  case (Cons ev evs)
  note s = on_event_same [OF Cons.prems, of quote ser dec ev]
  show ?case
  proof (cases "on_event quote ser dec out ev g")
    case None
    with s show ?thesis by simp
  next
    case (Some r)
    then obtain b g1 where r: "on_event quote ser dec out ev g = Some (b, g1)" by (cases r) simp
    with s obtain h1 where "on_event quote ser dec out' ev h = Some (b, h1)" "same_loop S g1 h1"
      by (cases "on_event quote ser dec out' ev h") auto
    with r Cons.IH show ?thesis by (cases b) simp_all
  qed
qed

lemma flush_decoder_same:
  assumes "same_loop S g h"
  shows "rel_option (same_loop S) (flush_decoder dec g) (flush_decoder dec h)"
proof -
  have e: "gl_stop h = gl_stop g" "gl_decoder h = gl_decoder g" using assms by (simp_all add: same_loop_def)
  show ?thesis
    using assms by (auto simp: flush_decoder_def e same_loop_def split: option.splits sum.splits prod.splits)
qed

lemma flush_text_same:
  assumes "same_loop S g h"
  shows "rel_option (same_loop S) (flush_text quote ser out g) (flush_text quote ser out' h)"
proof -
  have e: "gl_stop h = gl_stop g" "gl_emitted h = gl_emitted g" using assms by (simp_all add: same_loop_def)
  have "same_loop S (snd (forward_tool_text quote ser out x (g\<lparr>gl_stop := ss, gl_emitted := n\<rparr>)))
      (snd (forward_tool_text quote ser out' x (h\<lparr>gl_stop := ss, gl_emitted := n\<rparr>)))" for x ss n
  proof -
    have "same_loop S (g\<lparr>gl_stop := ss, gl_emitted := n\<rparr>) (h\<lparr>gl_stop := ss, gl_emitted := n\<rparr>)"
      using assms by (simp add: same_loop_def)
    from forward_same [OF this, of quote ser x] show ?thesis by (auto simp: rel_prod_sel)
  qed
  then show ?thesis
    using assms by (auto simp: flush_text_def e Let_def same_loop_def split: option.splits)
qed

lemma flush_tools_same:
  assumes "same_loop S g h"
  shows "same_loop S (flush_tools quote ser out g) (flush_tools quote ser out' h)"
proof -
  have e: "gl_tool h = gl_tool g" "gl_args h = gl_args g" using assms by (simp_all add: same_loop_def)
  have "same_loop S (snd (emit_pending out ems (g\<lparr>gl_tool := tp, gl_args := ta\<rparr>)))
      (snd (emit_pending out' ems (h\<lparr>gl_tool := tp, gl_args := ta\<rparr>)))" for ems tp ta
  proof -
    have "same_loop S (g\<lparr>gl_tool := tp, gl_args := ta\<rparr>) (h\<lparr>gl_tool := tp, gl_args := ta\<rparr>)"
      using assms by (simp add: same_loop_def)
    from emit_pending_same [OF this, of ems] show ?thesis by (auto simp: rel_prod_sel)
  qed
  then show ?thesis by (simp add: flush_tools_def e split: prod.split)
qed

lemma final_flush_same:
  assumes s: "same_loop S g h"
  shows "rel_option (same_loop S) (final_flush quote ser dec out g) (final_flush quote ser dec out' h)"
proof (cases "gl_failed g \<noteq> None \<or> gl_gone g")
  case True
  with s show ?thesis by (auto simp: final_flush_def same_loop_def)
next
  case False
  then have F: "\<not> (gl_failed h \<noteq> None \<or> gl_gone h)" using s by (simp add: same_loop_def)
  note d = flush_decoder_same [OF s, of dec]
  show ?thesis
  proof (cases "flush_decoder dec g")
    case None
    with d False F show ?thesis by (simp add: final_flush_def)
  next
    case (Some g1)
    with d obtain h1 where h1: "flush_decoder dec h = Some h1" and s1: "same_loop S g1 h1"
      by (cases "flush_decoder dec h") auto
    have f: "gl_failed h1 = gl_failed g1" using s1 by (simp add: same_loop_def)
    let ?G = "if gl_failed g1 = None then flush_text quote ser out g1 else Some g1"
    let ?H = "if gl_failed h1 = None then flush_text quote ser out' h1 else Some h1"
    have t: "rel_option (same_loop S) ?G ?H"
      using flush_text_same [OF s1] s1 by (simp add: f)
    have last: "same_loop S (if gl_failed g2 = None \<and> \<not> gl_gone g2 then flush_tools quote ser out g2 else g2)
        (if gl_failed h2 = None \<and> \<not> gl_gone h2 then flush_tools quote ser out' h2 else h2)"
      if "same_loop S g2 h2" for g2 h2
      using that flush_tools_same [OF that] by (simp add: same_loop_def)
    have u: "final_flush quote ser dec out g =
        map_option (\<lambda>g2. if gl_failed g2 = None \<and> \<not> gl_gone g2 then flush_tools quote ser out g2 else g2) ?G"
      using False Some by (simp add: final_flush_def split: option.split)
    have v: "final_flush quote ser dec out' h =
        map_option (\<lambda>g2. if gl_failed g2 = None \<and> \<not> gl_gone g2 then flush_tools quote ser out' g2 else g2) ?H"
      using F h1 by (simp add: final_flush_def split: option.split)
    show ?thesis unfolding u v using t last by (cases ?G; cases ?H) simp_all
  qed
qed

lemma gen_end_same:
  assumes s: "same_loop S g h"
  shows "rel_option (rel_prod (=) S) (gen_end out n g) (gen_end out' n h)"
proof -
  have e: "gl_stop h = gl_stop g" "gl_decoder h = gl_decoder g" "gl_tool h = gl_tool g"
      "gl_emitted h = gl_emitted g" "gl_reason h = gl_reason g" "gl_failed h = gl_failed g"
      "gl_gone h = gl_gone g" and sink: "S (gl_sink g) (gl_sink h)"
    using s by (simp_all add: same_loop_def)
  have "S (snd (out em (gl_sink g))) (snd (out' em (gl_sink h)))" for em
    using answer [OF sink, of em] by (auto simp: rel_prod_sel)
  with sink show ?thesis by (auto simp: gen_end_def e Let_def split: option.splits)
qed

lemma run_same:
  assumes s: "S k m"
  shows "rel_option (rel_prod (=) S) (run_generation quote ser dec out stops n evs k)
    (run_generation quote ser dec out' stops n evs m)"
proof -
  have "S (snd (out Em_Role k)) (snd (out' Em_Role m))" using answer [OF s, of Em_Role] by (auto simp: rel_prod_sel)
  then have "same_loop S (gen_start stops (snd (out Em_Role k))) (gen_start stops (snd (out' Em_Role m)))"
    by (simp add: same_loop_def gen_start_def)
  from event_loop_same [OF this, of quote ser dec evs] show ?thesis
    unfolding run_generation_def
    by (rule rel_option_chain) (blast intro: rel_option_chain final_flush_same gen_end_same)
qed

end

subsection \<open>The recorder simulates every consumer\<close>

text \<open>The state of a consumer after a log, and its answer to the last emission of a log.\<close>

definition sent :: "'k emit \<Rightarrow> emission list \<Rightarrow> 'k \<Rightarrow> 'k" where
  "sent out log k = fold (\<lambda>em k. snd (out em k)) log k"

definition answers :: "'k emit \<Rightarrow> 'k \<Rightarrow> emission list \<Rightarrow> bool" where
  "answers out k log = fst (out (last log) (sent out (butlast log) k))"

lemma sent_simps [simp]: "sent out [] k = k" "sent out (em # log) k = sent out log (snd (out em k))"
  by (simp_all add: sent_def)

lemma sent_append [simp]: "sent out (xs @ ys) k = sent out ys (sent out xs k)"
  by (simp add: sent_def)

lemma answers_Cons: "log \<noteq> [] \<Longrightarrow> answers out k (em # log) = answers out (snd (out em k)) log"
  by (simp add: answers_def)

interpretation recorder: consumer_simulation out "log_out (answers out k)" "\<lambda>k' log. k' = sent out log k"
  for out k
  by unfold_locales (simp add: log_out_apply answers_def rel_prod_sel)

theorem run_recorded:
  assumes "run_generation quote ser dec out stops n evs k = Some (r, k')"
  obtains log mid where
    "run_generation quote ser dec (log_out (answers out k)) stops n evs [] = Some (r, log)"
    "k' = sent out log k" "stream_log (answers out k) r mid log"
proof -
  have s: "k = sent out [] k" by simp
  from recorder.run_same [OF s, of quote ser dec stops n evs] assms
  obtain log where l: "run_generation quote ser dec (log_out (answers out k)) stops n evs [] = Some (r, log)"
      "k' = sent out log k"
    by (cases "run_generation quote ser dec (log_out (answers out k)) stops n evs []") auto
  from run_log [OF l(1)] that [OF l] show thesis by blast
qed

text \<open>A consumer that never refuses gets the whole stream.\<close>

lemma run_total_consumer:
  assumes "run_generation quote ser dec out stops n evs k = Some (r, k')"
    and "\<And>em k. fst (out em k)"
  obtains log mid where
    "run_generation quote ser dec (log_out (\<lambda>_. True)) stops n evs [] = Some (r, log)"
    "k' = sent out log k" "stream_log (\<lambda>_. True) r mid log"
proof -
  have "answers out k = (\<lambda>_. True)" using assms(2) by (simp add: answers_def fun_eq_iff)
  with run_recorded [OF assms(1)] that show thesis by metis
qed

end
