(* ===== verification/Blocks.thy ===== *)
theory Blocks
  imports Consumer Server
begin

section \<open>What a stream says: content blocks\<close>

text \<open>
  The abstract meaning of a stream of deltas is the list of its content blocks: a run of text
  is one block, a tool call is one block with its id, its name and its joined argument
  fragments. Both block protocols (Anthropic messages, OpenAI responses) encode these blocks
  with a state machine of their own. The locale \<open>block_protocol\<close> is their contract: a client's
  reading of the frames keeps step with the blocks, one emission at a time; the consequence for
  whole streams is proved once.
\<close>

datatype block = Bk_Text string | Bk_Tool string string string

fun is_tool :: "block \<Rightarrow> bool" where
  "is_tool (Bk_Tool _ _ _) = True"
| "is_tool (Bk_Text _) = False"

definition tools_in :: "block list \<Rightarrow> nat" where
  "tools_in bs = length (filter is_tool bs)"

definition ends_text :: "block list \<Rightarrow> bool" where
  "ends_text bs \<longleftrightarrow> bs \<noteq> [] \<and> \<not> is_tool (last bs)"

definition ends_tool :: "block list \<Rightarrow> bool" where
  "ends_tool bs \<longleftrightarrow> bs \<noteq> [] \<and> is_tool (last bs)"

fun grow :: "string \<Rightarrow> block \<Rightarrow> block" where
  "grow x (Bk_Text s) = Bk_Text (s @ x)"
| "grow x (Bk_Tool i n a) = Bk_Tool i n (a @ x)"

definition grow_last :: "string \<Rightarrow> block list \<Rightarrow> block list" where
  "grow_last x bs = bs[length bs - 1 := grow x (bs ! (length bs - 1))]"

text \<open>The blocks after one more delta.\<close>

fun add_delta :: "block list \<Rightarrow> emission \<Rightarrow> block list" where
  "add_delta bs (Em_Content t) = (if ends_text bs then grow_last t bs else bs @ [Bk_Text t])"
| "add_delta bs (Em_ToolStart i c name) = bs @ [Bk_Tool c name []]"
| "add_delta bs (Em_ToolArgs i x) = grow_last x bs"
| "add_delta bs _ = bs"

definition blocks_of :: "emission list \<Rightarrow> block list" where
  "blocks_of ems = foldl add_delta [] ems"

lemma is_tool_grow [simp]: "is_tool (grow x b) = is_tool b"
  by (cases b) simp_all

lemma grow_last_snoc [simp]: "grow_last x (bs @ [b]) = bs @ [grow x b]"
  by (simp add: grow_last_def)

lemma length_grow_last [simp]: "length (grow_last x bs) = length bs"
  by (simp add: grow_last_def)

lemma tools_in_simps [simp]:
  "tools_in [] = 0" "tools_in (b # bs) = (if is_tool b then 1 else 0) + tools_in bs"
  "tools_in (bs @ cs) = tools_in bs + tools_in cs"
  by (simp_all add: tools_in_def)

lemma ends_simps [simp]:
  "\<not> ends_text []" "\<not> ends_tool []"
  "ends_text (bs @ [b]) = (\<not> is_tool b)" "ends_tool (bs @ [b]) = is_tool b"
  "ends_text (bs @ [c, b]) = (\<not> is_tool b)" "ends_tool (bs @ [c, b]) = is_tool b"
  "ends_text [b] = (\<not> is_tool b)" "ends_tool [b] = is_tool b"
  by (simp_all add: ends_text_def ends_tool_def)

lemma grow_last_kind [simp]:
  "tools_in (grow_last x bs) = tools_in bs" "ends_text (grow_last x bs) = ends_text bs"
  "ends_tool (grow_last x bs) = ends_tool bs"
  by (cases bs rule: rev_cases; simp add: grow_last_def)+

lemma ends_text_not_tool: "ends_text bs \<Longrightarrow> \<not> ends_tool bs"
  by (simp add: ends_text_def ends_tool_def)

lemma ends_text_cases: "ends_text bs \<Longrightarrow> \<exists>cs s. bs = cs @ [Bk_Text s]"
  by (cases bs rule: rev_cases; cases "last bs") (auto simp: ends_text_def)

lemma ends_tool_cases: "ends_tool bs \<Longrightarrow> \<exists>cs i n a. bs = cs @ [Bk_Tool i n a]"
  by (cases bs rule: rev_cases; cases "last bs") (auto simp: ends_tool_def)

lemma length_add_delta: "length bs \<le> length (add_delta bs em)" "length (add_delta bs em) \<le> length bs + 1"
  by (cases em; simp)+

lemma length_add_deltas: "length (foldl add_delta bs ems) \<le> length bs + length ems"
proof (induction ems arbitrary: bs)
  case (Cons em ems)
  from Cons [of "add_delta bs em"] length_add_delta(2) [of bs em] show ?case by simp
qed simp

text \<open>When a delta fits the blocks before it.\<close>

fun fits :: "block list \<Rightarrow> emission \<Rightarrow> bool" where
  "fits bs (Em_Content t) = True"
| "fits bs (Em_ToolStart i c name) = (i = tools_in bs)"
| "fits bs (Em_ToolArgs i x) = (ends_tool bs \<and> i + 1 = tools_in bs)"
| "fits bs _ = False"

lemma tools_in_add: "tools_in (add_delta bs em) =
    tools_in bs + (case em of Em_ToolStart _ _ _ \<Rightarrow> 1 | _ \<Rightarrow> 0)"
  by (cases em) simp_all

lemma ends_tool_add: "fits bs em \<Longrightarrow>
    ends_tool (add_delta bs em) = (case em of Em_Content _ \<Rightarrow> False | _ \<Rightarrow> True)"
  by (cases em) (auto dest: ends_text_not_tool)

lemma numbered_fits:
  assumes "calls_numbered (tools_in bs) cur (em # ems)" "cur \<longrightarrow> ends_tool bs"
  shows "fits bs em \<and> calls_numbered (tools_in (add_delta bs em)) (ends_tool (add_delta bs em)) ems"
proof -
  have f: "fits bs em" using assms by (cases em) auto
  show ?thesis
    using assms f by (cases em) (auto simp: tools_in_add ends_tool_add dest: ends_text_not_tool)
qed

subsection \<open>Rendering and reading\<close>

text \<open>A client reads a position as a number.\<close>

definition get_nat :: "json \<Rightarrow> string \<Rightarrow> nat option" where
  "get_nat j k = map_option unat (Option.bind (json_get j k) as_u64)"

definition read_usage :: "json \<Rightarrow> usage option" where
  "read_usage j =
     (case (Option.bind (json_get j ''input_tokens'') as_u64, Option.bind (json_get j ''output_tokens'') as_u64) of
        (Some p, Some c) \<Rightarrow> Some \<lparr>us_prompt_tokens = p, us_completion_tokens = c\<rparr> | _ \<Rightarrow> None)"

lemma unat_of_nat64: "i < 2 ^ 64 \<Longrightarrow> unat (of_nat i :: u64) = i"
  by (simp add: unsigned_of_nat take_bit_nat_eq_self)

lemma snoc_update [simp]: "n = length xs \<Longrightarrow> (xs @ [y])[n := z] = xs @ [z]"
  by simp

lemma get_simps [simp]:
  "get_str (JObj xs) k = Option.bind (map_of xs k) as_str"
  "get_nat (JObj xs) k = map_option unat (Option.bind (map_of xs k) as_u64)"
  by (simp_all add: get_str_def get_nat_def)


fun render_all :: "(emission \<Rightarrow> 'e \<Rightarrow> 'f list \<times> 'e) \<Rightarrow> emission list \<Rightarrow> 'e \<Rightarrow> 'f list \<times> 'e" where
  "render_all render [] e = ([], e)"
| "render_all render (em # ems) e =
     (let (fs, e1) = render em e; (gs, e2) = render_all render ems e1 in (fs @ gs, e2))"

fun read_all :: "('f \<Rightarrow> 'c \<Rightarrow> 'c option) \<Rightarrow> 'f list \<Rightarrow> 'c \<Rightarrow> 'c option" where
  "read_all read [] c = Some c"
| "read_all read (f # fs) c = Option.bind (read f c) (read_all read fs)"

lemma read_all_append: "read_all read (fs @ gs) c = Option.bind (read_all read fs c) (read_all read gs)"
  by (induction fs arbitrary: c) (auto split: Option.bind_split)

lemma render_all_append:
  "render_all render (xs @ ys) e =
     (let (fs, e1) = render_all render xs e; (gs, e2) = render_all render ys e1 in (fs @ gs, e2))"
  by (induction xs arbitrary: e) (simp_all add: Let_def split: prod.splits)

text \<open>The frames of each emission by itself.\<close>

fun render_each :: "(emission \<Rightarrow> 'e \<Rightarrow> 'f list \<times> 'e) \<Rightarrow> emission list \<Rightarrow> 'e \<Rightarrow> 'f list list \<times> 'e" where
  "render_each render [] e = ([], e)"
| "render_each render (em # ems) e =
     (let (fs, e1) = render em e; (fss, e2) = render_each render ems e1 in (fs # fss, e2))"

lemma render_each_append:
  "render_each render (xs @ ys) e =
     (let (fs, e1) = render_each render xs e; (gs, e2) = render_each render ys e1 in (fs @ gs, e2))"
  by (induction xs arbitrary: e) (simp_all add: Let_def split: prod.splits)

lemma render_each_all: "render_all render ems e = (concat (fst (render_each render ems e)), snd (render_each render ems e))"
  by (induction ems arbitrary: e) (simp_all add: Let_def split: prod.splits)

text \<open>\<open>keep\<close> says which deltas the protocol shows; \<open>cap\<close> bounds the number of blocks, because
  positions travel as 64-bit integers.\<close>

locale block_protocol =
  fixes render :: "emission \<Rightarrow> 'e \<Rightarrow> 'f list \<times> 'e"
    and read :: "'f \<Rightarrow> 'c \<Rightarrow> 'c option"
    and keep :: "emission \<Rightarrow> bool"
    and cap :: nat
    and rel :: "block list \<Rightarrow> 'e \<Rightarrow> 'c \<Rightarrow> bool"
    and closed :: "block list \<Rightarrow> string \<Rightarrow> usage \<Rightarrow> 'c \<Rightarrow> bool"
  assumes shown: "rel bs e c \<Longrightarrow> keep em \<Longrightarrow> fits bs em \<Longrightarrow> length bs < cap \<Longrightarrow> render em e = (fs, e') \<Longrightarrow>
      \<exists>c'. read_all read fs c = Some c' \<and> rel (add_delta bs em) e' c'"
    and hidden: "rel bs e c \<Longrightarrow> is_delta em \<Longrightarrow> \<not> keep em \<Longrightarrow> render em e = ([], e)"
    and kept_tools: "keep (Em_ToolStart i x n)" "keep (Em_ToolArgs i x)"
    and final: "rel bs e c \<Longrightarrow> length bs \<le> cap \<Longrightarrow> render (Em_Final reason u) e = (fs, e') \<Longrightarrow>
      \<exists>c'. read_all read fs c = Some c' \<and> closed bs reason u c'"
begin

lemma deltas_read:
  "rel bs e c \<Longrightarrow> list_all is_delta ems \<Longrightarrow> calls_numbered (tools_in bs) cur ems \<Longrightarrow>
   (cur \<longrightarrow> ends_tool bs) \<Longrightarrow> length bs + length ems \<le> cap \<Longrightarrow> render_all render ems e = (fs, e') \<Longrightarrow>
   \<exists>c'. read_all read fs c = Some c' \<and> rel (foldl add_delta bs (filter keep ems)) e' c'"
proof (induction ems arbitrary: bs e c cur fs e')
  case Nil
  then show ?case by simp
next
  case (Cons em ems)
  obtain f1 e1 where r1: "render em e = (f1, e1)" by (cases "render em e")
  obtain f2 e2 where r2: "render_all render ems e1 = (f2, e2)" by (cases "render_all render ems e1")
  have fs: "fs = f1 @ f2" and e': "e' = e2" using Cons.prems(6) r1 r2 by simp_all
  show ?case
  proof (cases "keep em")
    case True
    have n: "fits bs em" "calls_numbered (tools_in (add_delta bs em)) (ends_tool (add_delta bs em)) ems"
      using numbered_fits [OF Cons.prems(3,4)] by simp_all
    have len: "length bs < cap" using Cons.prems(5) by simp
    obtain c1 where c1: "read_all read f1 c = Some c1" "rel (add_delta bs em) e1 c1"
      using shown [OF Cons.prems(1) True n(1) len r1] by blast
    have "list_all is_delta ems" using Cons.prems(2) by simp
    moreover have "length (add_delta bs em) + length ems \<le> cap"
      using Cons.prems(5) length_add_delta(2) [of bs em] by simp
    ultimately obtain c2 where c2: "read_all read f2 c1 = Some c2"
        "rel (foldl add_delta (add_delta bs em) (filter keep ems)) e2 c2"
      using Cons.IH [OF c1(2) _ n(2) _ _ r2] by auto
    with c1 True show ?thesis by (simp add: fs e' read_all_append)
  next
    case False
    have d: "is_delta em" using Cons.prems(2) by simp
    with False kept_tools obtain t where em: "em = Em_Content t" by (cases em) auto
    have "f1 = []" "e1 = e" using hidden [OF Cons.prems(1) d False] r1 by simp_all
    moreover have "calls_numbered (tools_in bs) False ems" using Cons.prems(3) em by simp
    ultimately show ?thesis
      using Cons.IH [of bs e c False f2] Cons.prems r2 False by (simp add: fs e')
  qed
qed

lemma stream_read:
  assumes "rel [] e c" "list_all is_delta ems" "calls_numbered 0 False ems" "length ems \<le> cap"
    and "render_all render (ems @ [Em_Final reason u]) e = (fs, e')"
  shows "\<exists>c'. read_all read fs c = Some c' \<and> closed (blocks_of (filter keep ems)) reason u c'"
proof -
  obtain f1 e1 where r1: "render_all render ems e = (f1, e1)" by (cases "render_all render ems e")
  obtain f2 e2 where r2: "render (Em_Final reason u) e1 = (f2, e2)" by (cases "render (Em_Final reason u) e1")
  have fs: "fs = f1 @ f2" using assms(5) r1 r2 by (simp add: render_all_append)
  have "calls_numbered (tools_in []) False ems" using assms(3) by simp
  from deltas_read [OF assms(1,2) this _ _ r1] assms(4)
  obtain c1 where c1: "read_all read f1 c = Some c1" "rel (blocks_of (filter keep ems)) e1 c1"
    by (auto simp: blocks_of_def)
  have "length (blocks_of (filter keep ems)) \<le> cap"
    using length_add_deltas [of "[]" "filter keep ems"] length_filter_le [of keep ems] assms(4)
    unfolding blocks_of_def by (metis add_0 list.size(3) order_trans)
  from final [OF c1(2) this r2] c1(1) show ?thesis by (auto simp: fs read_all_append)
qed

end

end
