(* ===== verification/Chat_Props.thy ===== *)
theory Chat_Props
  imports Chat Blocks
begin

section \<open>The chat stream, read by a client\<close>

text \<open>
  A client of the streaming chat protocol: it joins the content deltas and assembles the tool
  calls by index. The rendering of emissions is an interpretation of \<open>block_protocol\<close>: the
  client's text and calls are those of the content blocks.
\<close>

type_synonym call_acc = "(string \<times> string \<times> string) list"

datatype chat_client =
    Ch_Open string call_acc
  | Ch_Closed string call_acc string usage
  | Ch_Failed string call_acc string

definition read_call :: "json \<Rightarrow> call_acc \<Rightarrow> call_acc option" where
  "read_call tc calls =
     (case (get_nat tc ''index'', json_get tc ''function'') of
        (Some i, Some fn) \<Rightarrow>
          (case (get_str tc ''id'', get_str fn ''name'', get_str fn ''arguments'') of
             (Some cid, Some name, Some args) \<Rightarrow>
               if i = length calls then Some (calls @ [(cid, name, args)]) else None
           | (None, None, Some args) \<Rightarrow>
               if i < length calls
               then (case calls ! i of (cid, name, a) \<Rightarrow> Some (calls[i := (cid, name, a @ args)])) else None
           | _ \<Rightarrow> None)
      | _ \<Rightarrow> None)"

definition read_chat_usage :: "json \<Rightarrow> usage option" where
  "read_chat_usage j =
     (case (Option.bind (json_get j ''prompt_tokens'') as_u64, Option.bind (json_get j ''completion_tokens'') as_u64) of
        (Some p, Some c) \<Rightarrow> Some \<lparr>us_prompt_tokens = p, us_completion_tokens = c\<rparr> | _ \<Rightarrow> None)"

definition read_choice :: "json \<Rightarrow> json \<Rightarrow> string \<Rightarrow> call_acc \<Rightarrow> chat_client option" where
  "read_choice d choice txt calls =
     (case (get_str choice ''finish_reason'', Option.bind (json_get d ''usage'') read_chat_usage) of
        (Some r, Some u) \<Rightarrow> Some (Ch_Closed txt calls r u)
      | _ \<Rightarrow>
          (case json_get choice ''delta'' of
             None \<Rightarrow> None
           | Some delta \<Rightarrow>
               (case (get_str delta ''content'', Option.bind (json_get delta ''tool_calls'') as_array) of
                  (Some t, _) \<Rightarrow> Some (Ch_Open (txt @ t) calls)
                | (None, Some [tc]) \<Rightarrow> map_option (Ch_Open txt) (read_call tc calls)
                | _ \<Rightarrow> None)))"

definition chat_read :: "json \<Rightarrow> chat_client \<Rightarrow> chat_client option" where
  "chat_read d c =
     (case c of
        Ch_Open txt calls \<Rightarrow>
          (case (Option.bind (json_get d ''error'') (\<lambda>j. get_str j ''message''),
                 Option.bind (json_get d ''choices'') as_array) of
             (Some e, _) \<Rightarrow> Some (Ch_Failed txt calls e)
           | (None, Some [choice]) \<Rightarrow> read_choice d choice txt calls
           | _ \<Rightarrow> None)
      | _ \<Rightarrow> None)"

fun text_of_blocks :: "block list \<Rightarrow> string" where
  "text_of_blocks [] = []"
| "text_of_blocks (Bk_Text s # bs) = s @ text_of_blocks bs"
| "text_of_blocks (_ # bs) = text_of_blocks bs"

fun calls_of_blocks :: "block list \<Rightarrow> call_acc" where
  "calls_of_blocks [] = []"
| "calls_of_blocks (Bk_Tool i n a # bs) = (i, n, a) # calls_of_blocks bs"
| "calls_of_blocks (_ # bs) = calls_of_blocks bs"

lemma of_blocks_append [simp]:
  "text_of_blocks (xs @ ys) = text_of_blocks xs @ text_of_blocks ys"
  "calls_of_blocks (xs @ ys) = calls_of_blocks xs @ calls_of_blocks ys"
  by (induction xs rule: text_of_blocks.induct) simp_all

lemma length_calls [simp]: "length (calls_of_blocks bs) = tools_in bs"
  by (induction bs rule: calls_of_blocks.induct) simp_all

lemma tools_le: "tools_in bs \<le> length bs"
  by (simp add: tools_in_def)

definition chat_render :: "sse_ctx \<Rightarrow> emission \<Rightarrow> unit \<Rightarrow> json list \<times> unit" where
  "chat_render ctx em u = ([emission_json ctx em], ())"

definition chat_rel :: "block list \<Rightarrow> unit \<Rightarrow> chat_client \<Rightarrow> bool" where
  "chat_rel bs u c \<longleftrightarrow> c = Ch_Open (text_of_blocks bs) (calls_of_blocks bs)"

definition chat_closed :: "block list \<Rightarrow> string \<Rightarrow> usage \<Rightarrow> chat_client \<Rightarrow> bool" where
  "chat_closed bs reason u c \<longleftrightarrow> c = Ch_Closed (text_of_blocks bs) (calls_of_blocks bs) reason u"

lemmas chat_reading = chat_read_def read_choice_def chunk_json_def opt_str_def

lemma chat_content:
  "chat_read (emission_json ctx (Em_Content t)) (Ch_Open txt calls) = Some (Ch_Open (txt @ t) calls)"
  by (simp add: chat_reading)

lemma text_add_content: "text_of_blocks (add_delta bs (Em_Content t)) = text_of_blocks bs @ t"
  "calls_of_blocks (add_delta bs (Em_Content t)) = calls_of_blocks bs"
  using ends_text_cases [of bs] by auto

lemma chat_start:
  "length calls < 2 ^ 64 \<Longrightarrow>
   chat_read (emission_json ctx (Em_ToolStart (length calls) i name)) (Ch_Open txt calls) =
     Some (Ch_Open txt (calls @ [(i, name, [])]))"
  by (simp add: chat_reading read_call_def unat_of_nat64)

lemma chat_args:
  "length calls < 2 ^ 64 \<Longrightarrow>
   chat_read (emission_json ctx (Em_ToolArgs (length calls) x)) (Ch_Open txt (calls @ [(i, name, a)])) =
     Some (Ch_Open txt (calls @ [(i, name, a @ x)]))"
  by (simp add: chat_reading read_call_def unat_of_nat64)

lemma chat_final:
  "chat_read (emission_json ctx (Em_Final reason u)) (Ch_Open txt calls) = Some (Ch_Closed txt calls reason u)"
  by (simp add: chat_reading usage_json_def read_chat_usage_def)

lemma chat_error:
  "chat_read (emission_json ctx (Em_Error msg)) (Ch_Open txt calls) = Some (Ch_Failed txt calls msg)"
  by (simp add: chat_reading)

interpretation chat: block_protocol "chat_render ctx" chat_read "\<lambda>_. True" "2 ^ 64" chat_rel chat_closed
  for ctx
proof
  fix bs e c em fs e'
  assume r: "chat_rel bs e c" "fits bs em" "length bs < 2 ^ 64" "chat_render ctx em e = (fs, e')"
  have len: "length (calls_of_blocks bs) < 2 ^ 64" using r(3) tools_le [of bs] by simp
  show "\<exists>c'. read_all chat_read fs c = Some c' \<and> chat_rel (add_delta bs em) e' c'"
  proof (cases em)
    case (Em_Content t)
    with r text_add_content [of bs t] show ?thesis
      by (auto simp: chat_render_def chat_rel_def chat_content simp del: emission_json.simps add_delta.simps)
  next
    case (Em_ToolStart i x name)
    with r(1,2,4) chat_start [OF len, of ctx x name "text_of_blocks bs"] show ?thesis
      by (auto simp: chat_render_def chat_rel_def simp del: emission_json.simps)
  next
    case (Em_ToolArgs i x)
    with r(2) obtain cs k n a where bs: "bs = cs @ [Bk_Tool k n a]" using ends_tool_cases [of bs] by auto
    have "length (calls_of_blocks cs) < 2 ^ 64" using len by (simp add: bs)
    from r(1,2,4) chat_args [OF this, of ctx x "text_of_blocks cs" k n a] show ?thesis
      by (auto simp: chat_render_def chat_rel_def Em_ToolArgs bs simp del: emission_json.simps)
  qed (use r(2) in simp_all)
next
  fix bs e c reason u fs e'
  assume "chat_rel bs e c" "chat_render ctx (Em_Final reason u) e = (fs, e')"
  then show "\<exists>c'. read_all chat_read fs c = Some c' \<and> chat_closed bs reason u c'"
    by (auto simp: chat_render_def chat_rel_def chat_closed_def chat_final simp del: emission_json.simps)
qed auto

lemma chat_render_all: "render_all (chat_render ctx) ems u = (map (emission_json ctx) ems, u)"
  by (induction ems arbitrary: u) (simp_all add: chat_render_def Let_def)

subsection \<open>Whole streams\<close>

lemma sent_frame_out:
  "delivered alive ws all \<Longrightarrow> delivered alive (sent (frame_out alive render) log ws) (all @ map render log)"
proof (induction log arbitrary: ws all)
  case Nil
  then show ?case by simp
next
  case (Cons em log)
  obtain ok ws' where s: "send_frames alive [render em] ws = (ok, ws')" by (cases "send_frames alive [render em] ws")
  from Cons.IH [OF conjunct1 [OF delivered_send [OF Cons.prems s]]] s show ?case by (simp add: frame_out_def)
qed

lemma frame_out_refused:
  assumes "log \<noteq> []" "\<not> answers (frame_out alive render) [] log"
  shows "\<not> alive (length (sent (frame_out alive render) log []))"
proof -
  obtain em l where log: "log = l @ [em]" using assms(1) by (cases log rule: rev_cases) auto
  let ?ws = "sent (frame_out alive render) l []"
  obtain ok ws' where s: "send_frames alive [render em] ?ws = (ok, ws')" by (cases "send_frames alive [render em] ?ws")
  with assms(2) send_frames_spec [OF s] show ?thesis by (simp add: log answers_def frame_out_def)
qed

definition chat_outcome :: "gen_result \<Rightarrow> block list \<Rightarrow> chat_client \<Rightarrow> bool" where
  "chat_outcome r bs c \<longleftrightarrow>
     (let txt = text_of_blocks bs; calls = calls_of_blocks bs in
      case gr_error r of
        None \<Rightarrow> c = Ch_Closed txt calls (finish_reason_as_str (gr_finish_reason r)) (gr_usage r)
      | Some e \<Rightarrow> c = Ch_Failed txt calls e)"

lemma chat_log_read:
  assumes log: "stream_log ok r mid log" and len: "length log \<le> 2 ^ 64"
  shows "\<exists>c. read_all chat_read (map (emission_json ctx) log) (Ch_Open [] []) = Some c \<and>
    (log \<noteq> Em_Role # mid \<longrightarrow> chat_outcome r (blocks_of mid) c)"
proof -
  have mid: "list_all is_delta mid" "calls_numbered (tools_in []) False mid" "False \<longrightarrow> ends_tool []"
    using log by (simp_all add: stream_log_def)
  have lm: "length mid \<le> 2 ^ 64" using log len by (auto simp: stream_log_def)
  have "chat_rel [] () (Ch_Open [] [])" by (simp add: chat_rel_def)
  from chat.deltas_read [OF this mid _ chat_render_all] lm
  have m: "read_all chat_read (map (emission_json ctx) mid) (Ch_Open [] []) =
      Some (Ch_Open (text_of_blocks (blocks_of mid)) (calls_of_blocks (blocks_of mid)))"
    by (auto simp: chat_rel_def blocks_of_def)
  have role: "chat_read (emission_json ctx Em_Role) (Ch_Open [] []) = Some (Ch_Open [] [])"
    by (simp add: chat_reading)
  from log show ?thesis
    by (auto simp: stream_log_def read_all_append role m chat_final chat_error chat_outcome_def Let_def
        simp del: emission_json.simps)
qed

text \<open>C28: A streamed chat answer, as a client reads it: the text that arrives splits into frames of the emissions and the closing \<open>[DONE]\<close>, all of them unless the client went away; joining the content deltas and assembling the tool calls by index then gives the text and the calls of the generation, closed with its finish reason and usage or with its error.\<close>

theorem chat_stream_readable:
  assumes "stream_response quote ser alive st events stops n ctx = Some (Rs_Sse ws)"
    and "\<And>j. NL \<notin> set (ser j)"
  shows "\<exists>ok r mid log.
    run_generation quote ser (pb_decode_ids (st_prompt st)) (log_out ok) stops n events [] = Some (r, log) \<and>
    stream_log ok r mid log \<and>
    (let all = map (\<lambda>em. (None, ser (emission_json ctx em))) log @ [(None, ''[DONE]'')] in
     prefix (sse_read (concat ws)) all \<and> (alive (length ws) \<longrightarrow> sse_read (concat ws) = all) \<and>
     (length log \<le> 2 ^ 64 \<longrightarrow>
       (\<exists>c. read_all chat_read (map (emission_json ctx) log) (Ch_Open [] []) = Some c \<and>
          (alive (length ws) \<longrightarrow> chat_outcome r (blocks_of mid) c))))"
proof -
  let ?out = "frame_out alive (sse_render ser ctx)"
  obtain r frames where run: "run_generation quote ser (pb_decode_ids (st_prompt st)) ?out stops n events [] =
      Some (r, frames)" and ws: "ws = snd (send_frames alive [done_frame] frames)"
    using assms(1) by (auto simp: stream_response_def split: option.splits)
  obtain log mid where log:
    "run_generation quote ser (pb_decode_ids (st_prompt st)) (log_out (answers ?out [])) stops n events [] = Some (r, log)"
    "frames = sent ?out log []" "stream_log (answers ?out []) r mid log"
    by (rule run_recorded [OF run])
  let ?all = "map (\<lambda>em. (None, ser (emission_json ctx em))) log @ [(None, ''[DONE]'')]"
  have "delivered alive frames (map (sse_render ser ctx) log)"
    using sent_frame_out [of alive "[]" "[]" "sse_render ser ctx" log] log(2) by simp
  from delivered_send [OF this prod.collapse [symmetric], of "[done_frame]"]
  have "delivered alive ws (map frame_of ?all)"
    by (simp add: ws sse_render_def [abs_def] done_frame_def comp_def)
  then have d: "delivered alive ws (map frame_of ?all)" .
  then have "prefix ws (map frame_of ?all)" by (simp add: delivered_def)
  from prefix_map_take [OF this] obtain k where k: "ws = map frame_of (take k ?all)" by blast
  have line: "list_all one_line ?all" using assms(2) by (simp add: list_all_iff one_line_def)
  then have "list_all one_line (take k ?all)" by (rule list_all_take)
  then have read: "sse_read (concat ws) = take k ?all" unfolding k by (rule sse_read_frames)
  have full: "sse_read (concat ws) = ?all" if "alive (length ws)"
    using delivered_all [OF d that] sse_read_frames [OF line] by simp
  have "log \<noteq> Em_Role # mid" if "alive (length ws)"
  proof
    assume l: "log = Em_Role # mid"
    then have "log \<noteq> []" "\<not> answers ?out [] log" using log(3) by (auto simp: stream_log_def)
    from frame_out_refused [OF this] have n: "\<not> alive (length frames)" by (simp add: log(2))
    then have "ws = frames" by (simp add: ws)
    with n that show False by simp
  qed
  then have "length log \<le> 2 ^ 64 \<longrightarrow>
      (\<exists>c. read_all chat_read (map (emission_json ctx) log) (Ch_Open [] []) = Some c \<and>
         (alive (length ws) \<longrightarrow> chat_outcome r (blocks_of mid) c))"
    using chat_log_read [OF log(3), of ctx] by blast
  moreover have "prefix (sse_read (concat ws)) ?all" unfolding read by (rule take_is_prefix)
  ultimately show ?thesis using log full by (simp only: Let_def) blast
qed

lemma demo_stream: "case stream_response rfc_quote (rfc_ser (\<lambda>_. [])) (\<lambda>_. True) (demo_state ''xy'')
      [Ge_Token 66, Ge_Done Fr_Stop demo_usage] [] 3 \<lparr>sx_id = ''i'', sx_created = 0, sx_model = ''m''\<rparr> of
    Some (Rs_Sse ws) \<Rightarrow> length ws = 5 | _ \<Rightarrow> False"
  by code_simp

theorem chat_stream_readable_witness:
  "\<exists>ws log. stream_response rfc_quote (rfc_ser (\<lambda>_. [])) (\<lambda>_. True) (demo_state ''xy'')
      [Ge_Token 66, Ge_Done Fr_Stop demo_usage] [] 3 \<lparr>sx_id = ''i'', sx_created = 0, sx_model = ''m''\<rparr> =
      Some (Rs_Sse ws) \<and>
    sse_read (concat ws) = map (\<lambda>em. (None, rfc_ser (\<lambda>_. [])
       (emission_json \<lparr>sx_id = ''i'', sx_created = 0, sx_model = ''m''\<rparr> em))) log @ [(None, ''[DONE]'')]"
proof -
  obtain ws where ws: "stream_response rfc_quote (rfc_ser (\<lambda>_. [])) (\<lambda>_. True) (demo_state ''xy'')
      [Ge_Token 66, Ge_Done Fr_Stop demo_usage] [] 3 \<lparr>sx_id = ''i'', sx_created = 0, sx_model = ''m''\<rparr> = Some (Rs_Sse ws)"
    "length ws = 5"
    using demo_stream by (auto split: option.splits http_response.splits)
  have "NL \<notin> set (rfc_ser (\<lambda>_. []) j)" for j by (rule rfc_ser_line) simp
  from chat_stream_readable [OF ws(1) this] ws show ?thesis by (auto simp: Let_def)
qed

end
