(* ===== verification/Anthropic.thy ===== *)
theory Anthropic
  imports Blocks Chat
begin

section \<open>Anthropic messages\<close>

text \<open>
  \<open>minicpm-server/src/anthropic.rs\<close>: the translation of the request into internal messages, the
  encoder of emissions as Anthropic events, the JSON response and the handler. A frame is its
  event name and its payload; \<open>event_frame\<close> of \<open>Server\<close> is \<open>sse_frame\<close>. \<open>from_str\<close> is the JSON
  parser (a parameter, like \<open>ser\<close> and \<open>quote\<close>).
\<close>

record anthropic_request =
  an_model :: "string option"
  an_messages :: "json list"
  an_system :: "json option"
  an_max_tokens :: "u64 option"
  an_stop_sequences :: "string list option"
  an_stream :: "bool option"
  an_temperature :: "u64 option"
  an_top_p :: "u64 option"
  an_top_k :: "u32 option"
  an_tools :: "json list option"
  an_tool_choice :: "json option"

subsection \<open>The request\<close>

definition blocks_text :: "json \<Rightarrow> string" where
  "blocks_text content =
     (case content of
        JStr s \<Rightarrow> s
      | JArr blocks \<Rightarrow>
          join_with [NL]
            (List.map_filter (\<lambda>b. get_str b ''text'') (filter (\<lambda>b. get_str b ''type'' = Some ''text'') blocks))
      | _ \<Rightarrow> [])"

definition system_message :: "json option \<Rightarrow> json option" where
  "system_message system =
     (let txt = (case system of None \<Rightarrow> [] | Some s \<Rightarrow> blocks_text s)
      in if txt = [] then None
         else Some (JObj [(''role'', JStr ''system''), (''content'', JStr txt)]))"

text \<open>The loop over the blocks of a user turn: its tool results and its texts.\<close>

fun user_blocks :: "json list \<Rightarrow> json list \<times> string list" where
  "user_blocks [] = ([], [])"
| "user_blocks (block # blocks) =
     (let (results, texts) = user_blocks blocks; ty = get_str block ''type'' in
      if ty = Some ''tool_result'' then
        (JObj [(''role'', JStr ''tool''),
               (''tool_call_id'', JStr (str_or [] (get_str block ''tool_use_id''))),
               (''content'', JStr (case json_get block ''content'' of None \<Rightarrow> [] | Some c \<Rightarrow> blocks_text c))]
         # results, texts)
      else if ty = Some ''text'' then
        (case get_str block ''text'' of None \<Rightarrow> (results, texts) | Some t \<Rightarrow> (results, t # texts))
      else (results, texts))"

definition convert_user_message :: "json \<Rightarrow> json list" where
  "convert_user_message msg =
     (let role = str_or ''user'' (get_str msg ''role'');
          content = (case json_get msg ''content'' of None \<Rightarrow> JNull | Some c \<Rightarrow> c);
          (results, texts) =
            (case content of JStr s \<Rightarrow> ([], [s]) | JArr blocks \<Rightarrow> user_blocks blocks | _ \<Rightarrow> ([], []));
          txt = join_with [NL] texts
      in results @
         (if txt \<noteq> [] \<or> results = []
          then [JObj [(''role'', JStr role), (''content'', JStr txt)]] else []))"

text \<open>The loop over the blocks of an assistant turn: its texts and its tool calls.\<close>

fun assistant_blocks :: "json list \<Rightarrow> string list \<times> json list" where
  "assistant_blocks [] = ([], [])"
| "assistant_blocks (block # blocks) =
     (let (texts, calls) = assistant_blocks blocks; ty = get_str block ''type'' in
      if ty = Some ''text'' then
        (case get_str block ''text'' of None \<Rightarrow> (texts, calls) | Some t \<Rightarrow> (t # texts, calls))
      else if ty = Some ''tool_use'' then
        (let input = (case json_get block ''input'' of
                        Some v \<Rightarrow> if is_object v then v else JObj []
                      | None \<Rightarrow> JObj [])
         in (texts,
             JObj [(''id'', JStr (str_or [] (get_str block ''id''))), (''type'', JStr ''function''),
                   (''function'', JObj [(''name'', JStr (str_or [] (get_str block ''name''))),
                                        (''arguments'', input)])] # calls))
      else (texts, calls))"

definition convert_assistant_message :: "json \<Rightarrow> json list" where
  "convert_assistant_message msg =
     (let content = (case json_get msg ''content'' of None \<Rightarrow> JNull | Some c \<Rightarrow> c);
          (texts, calls) =
            (case content of JStr s \<Rightarrow> ([s], []) | JArr blocks \<Rightarrow> assistant_blocks blocks | _ \<Rightarrow> ([], []))
      in if calls = []
         then [JObj [(''role'', JStr ''assistant''), (''content'', JStr (join_with [NL] texts))]]
         else [JObj [(''role'', JStr ''assistant''),
                     (''content'', if texts = [] then JNull else JStr (join_with [NL] texts)),
                     (''tool_calls'', JArr calls)]])"

definition convert_messages :: "json list \<Rightarrow> json list" where
  "convert_messages msgs =
     concat (map (\<lambda>msg. if get_str msg ''role'' = Some ''assistant'' then convert_assistant_message msg
                        else convert_user_message msg) msgs)"

text \<open>\<open>if let Some(v) = tool.get(from) { function.insert(to, v.clone()) }\<close>\<close>

definition copy_field :: "json \<Rightarrow> string \<Rightarrow> string \<Rightarrow> (string \<times> json) list \<Rightarrow> (string \<times> json) list" where
  "copy_field j k k' xs = (case json_get j k of None \<Rightarrow> xs | Some v \<Rightarrow> obj_insert xs k' v)"

definition an_convert_tools :: "json list \<Rightarrow> json" where
  "an_convert_tools tools =
     JArr (map (\<lambda>t. JObj [(''type'', JStr ''function''),
                          (''function'',
                            JObj (copy_field t ''input_schema'' ''parameters''
                              (copy_field t ''description'' ''description''
                                (copy_field t ''name'' ''name'' []))))]) tools)"

definition an_convert_tool_choice :: "json \<Rightarrow> json" where
  "an_convert_tool_choice choice =
     (let ty = get_str choice ''type'' in
      if ty = Some ''any'' then JStr ''required''
      else if ty = Some ''none'' then JStr ''none''
      else if ty = Some ''tool'' then
        JObj [(''type'', JStr ''function''),
              (''function'', JObj [(''name'', case json_get choice ''name'' of None \<Rightarrow> JNull | Some v \<Rightarrow> v)])]
      else JStr ''auto'')"

subsection \<open>Error bodies\<close>

definition anthropic_error :: "nat \<Rightarrow> string \<Rightarrow> string \<Rightarrow> http_response" where
  "anthropic_error status kind msg =
     Rs_Json status []
       (JObj [(''type'', JStr ''error''),
              (''error'', JObj [(''type'', JStr kind), (''message'', JStr msg)])])"

definition queue_full_response_anthropic :: http_response where
  "queue_full_response_anthropic =
     Rs_Json 429 [(''Retry-After'', ''1'')]
       (JObj [(''type'', JStr ''error''),
              (''error'', JObj [(''type'', JStr ''rate_limit_error''),
                                (''message'', JStr ''queue full: too many waiting requests, retry later'')])])"

subsection \<open>The encoder\<close>

type_synonym frame = "string \<times> json"

record an_encoder =
  ae_id :: string
  ae_model :: string
  ae_prompt_len :: u64
  ae_text_block :: "nat option"
  ae_next_block :: nat
  ae_tool_blocks :: "nat option list"
  ae_saw_tool :: bool
  ae_done :: bool

definition ae_new :: "string \<Rightarrow> string \<Rightarrow> u64 \<Rightarrow> an_encoder" where
  "ae_new i model prompt_len =
     \<lparr>ae_id = i, ae_model = model, ae_prompt_len = prompt_len, ae_text_block = None,
      ae_next_block = 0, ae_tool_blocks = [], ae_saw_tool = False, ae_done = False\<rparr>"

definition an_block_start :: "nat \<Rightarrow> json \<Rightarrow> frame" where
  "an_block_start i content =
     (''content_block_start'',
      JObj [(''type'', JStr ''content_block_start''), (''index'', jnat (of_nat i)),
            (''content_block'', content)])"

definition an_block_delta :: "nat \<Rightarrow> json \<Rightarrow> frame" where
  "an_block_delta i delta =
     (''content_block_delta'',
      JObj [(''type'', JStr ''content_block_delta''), (''index'', jnat (of_nat i)), (''delta'', delta)])"

definition content_block_stop :: "nat \<Rightarrow> frame" where
  "content_block_stop i =
     (''content_block_stop'',
      JObj [(''type'', JStr ''content_block_stop''), (''index'', jnat (of_nat i))])"

text \<open>\<open>Vec::resize\<close> to a larger length.\<close>

definition resize_to :: "nat \<Rightarrow> 'a \<Rightarrow> 'a list \<Rightarrow> 'a list" where
  "resize_to n x xs = xs @ replicate (n - length xs) x"

fun ae_frames :: "emission \<Rightarrow> an_encoder \<Rightarrow> frame list \<times> an_encoder" where
  "ae_frames Em_Role e =
     ([(''message_start'',
        JObj [(''type'', JStr ''message_start''),
              (''message'', JObj
                [(''id'', JStr (ae_id e)), (''type'', JStr ''message''), (''role'', JStr ''assistant''),
                 (''model'', JStr (ae_model e)), (''content'', JArr []), (''stop_reason'', JNull),
                 (''stop_sequence'', JNull),
                 (''usage'', JObj [(''input_tokens'', jnat (ae_prompt_len e)), (''output_tokens'', jnat 0)])])])],
      e)"
| "ae_frames (Em_Content t) e =
     (let (fs, index, e1) =
        (case ae_text_block e of
           Some i \<Rightarrow> ([], i, e)
         | None \<Rightarrow>
             (let i = ae_next_block e in
              ([an_block_start i (JObj [(''type'', JStr ''text''), (''text'', JStr [])])], i,
               e\<lparr>ae_next_block := ae_next_block e + 1, ae_text_block := Some i\<rparr>)))
      in (fs @ [an_block_delta index (JObj [(''type'', JStr ''text_delta''), (''text'', JStr t)])], e1))"
| "ae_frames (Em_ToolStart index i name) e =
     (let fs = (case ae_text_block e of None \<Rightarrow> [] | Some b \<Rightarrow> [content_block_stop b]);
          block = ae_next_block e;
          tools = (if length (ae_tool_blocks e) \<le> index
                   then resize_to (index + 1) None (ae_tool_blocks e) else ae_tool_blocks e)
      in (fs @ [an_block_start block
                  (JObj [(''type'', JStr ''tool_use''), (''id'', JStr i), (''name'', JStr name),
                         (''input'', JObj [])])],
          e\<lparr>ae_text_block := None, ae_next_block := ae_next_block e + 1,
            ae_tool_blocks := tools[index := Some block], ae_saw_tool := True\<rparr>))"
| "ae_frames (Em_ToolArgs index chunk) e =
     ((case (if index < length (ae_tool_blocks e) then ae_tool_blocks e ! index else None) of
         Some block \<Rightarrow>
           [an_block_delta block (JObj [(''type'', JStr ''input_json_delta''), (''partial_json'', JStr chunk)])]
       | None \<Rightarrow> []), e)"
| "ae_frames (Em_Final reason u) e =
     (let opened = sort (List.map_filter (\<lambda>b. b) (ae_tool_blocks e) @
                         (case ae_text_block e of None \<Rightarrow> [] | Some i \<Rightarrow> [i]));
          stop_reason = (if ae_saw_tool e then ''tool_use''
                         else if reason = ''length'' then ''max_tokens'' else ''end_turn'')
      in (map content_block_stop opened @
          [(''message_delta'',
            JObj [(''type'', JStr ''message_delta''),
                  (''delta'', JObj [(''stop_reason'', JStr stop_reason), (''stop_sequence'', JNull)]),
                  (''usage'', JObj [(''input_tokens'', jnat (us_prompt_tokens u)),
                                    (''output_tokens'', jnat (us_completion_tokens u))])]),
           (''message_stop'', JObj [(''type'', JStr ''message_stop'')])],
          e\<lparr>ae_text_block := None, ae_done := True\<rparr>))"
| "ae_frames (Em_Error msg) e =
     ([(''error'', JObj [(''type'', JStr ''error''),
                         (''error'', JObj [(''type'', JStr ''api_error''), (''message'', JStr msg)])])],
      e\<lparr>ae_done := True\<rparr>)"

definition ae_render :: "emission \<Rightarrow> an_encoder \<Rightarrow> frame list \<times> an_encoder" where
  "ae_render em e = (if ae_done e then ([], e) else ae_frames em e)"

text \<open>The frames as the text that is sent.\<close>

definition frames_text :: "(json \<Rightarrow> string) \<Rightarrow> frame list \<Rightarrow> string" where
  "frames_text ser fs = concat (map (\<lambda>(name, data). event_frame name (ser data)) fs)"

subsection \<open>The responses and the handler\<close>

text \<open>The consumer: an empty frame is not sent and counts as a refusal.\<close>

definition ae_out ::
  "(json \<Rightarrow> string) \<Rightarrow> (nat \<Rightarrow> bool) \<Rightarrow> (an_encoder \<times> string list) emit" where
  "ae_out ser alive em k =
     (case k of (e, ws) \<Rightarrow>
        let (fs, e1) = ae_render em e; frame = frames_text ser fs
        in if frame = [] then (False, (e1, ws))
           else (let (ok, ws1) = send_frames alive [frame] ws in (ok, (e1, ws1))))"

definition an_stream_response ::
  "(string \<Rightarrow> string) \<Rightarrow> (json \<Rightarrow> string) \<Rightarrow> (nat \<Rightarrow> bool) \<Rightarrow> 'w app_state \<Rightarrow> gen_event list \<Rightarrow>
   string list \<Rightarrow> u64 \<Rightarrow> string \<Rightarrow> string \<Rightarrow> http_response option" where
  "an_stream_response quote ser alive st events stops prompt_len i model =
     (case run_generation quote ser (pb_decode_ids (st_prompt st)) (ae_out ser alive) stops prompt_len events
             (ae_new i model prompt_len, []) of
        None \<Rightarrow> None
      | Some (_, _, ws) \<Rightarrow> Some (Rs_Sse ws))"

definition parse_tool_arguments :: "(string \<Rightarrow> json option) \<Rightarrow> string \<Rightarrow> json" where
  "parse_tool_arguments from_str args =
     (case from_str args of Some v \<Rightarrow> if is_object v then v else JObj [] | None \<Rightarrow> JObj [])"

definition an_content :: "(string \<Rightarrow> json option) \<Rightarrow> gen_result \<Rightarrow> json list" where
  "an_content from_str r =
     (let txt = (if gr_content r = [] then [] else [JObj [(''type'', JStr ''text''), (''text'', JStr (gr_content r))]]);
          content = txt @
            map (\<lambda>c. JObj [(''type'', JStr ''tool_use''), (''id'', JStr (tc_id c)), (''name'', JStr (tc_name c)),
                           (''input'', parse_tool_arguments from_str (tc_arguments c))]) (gr_tool_calls r)
      in if content = [] then [JObj [(''type'', JStr ''text''), (''text'', JStr [])]] else content)"

definition an_non_stream_json :: "(string \<Rightarrow> json option) \<Rightarrow> gen_result \<Rightarrow> string \<Rightarrow> string \<Rightarrow> http_response" where
  "an_non_stream_json from_str r i model =
     (let stop_reason = (if gr_tool_calls r \<noteq> [] then ''tool_use''
                         else if gr_finish_reason r = Fr_Length then ''max_tokens'' else ''end_turn'')
      in Rs_Json 200 []
           (JObj [(''id'', JStr i), (''type'', JStr ''message''), (''role'', JStr ''assistant''),
                  (''model'', JStr model), (''content'', JArr (an_content from_str r)),
                  (''stop_reason'', JStr stop_reason), (''stop_sequence'', JNull),
                  (''usage'', JObj [(''input_tokens'', jnat (us_prompt_tokens (gr_usage r))),
                                    (''output_tokens'', jnat (us_completion_tokens (gr_usage r)))])]))"

text \<open>The request in the shape that the prompt builder and \<open>merge_config\<close> read.\<close>

definition an_chat_request :: "string \<Rightarrow> anthropic_request \<Rightarrow> chat_request" where
  "an_chat_request model req =
     \<lparr>cr_model = Some model,
      cr_messages = (case system_message (an_system req) of None \<Rightarrow> [] | Some s \<Rightarrow> [s]) @
                    convert_messages (an_messages req),
      cr_tools = (case an_tools req of
                    Some ts \<Rightarrow> if ts = [] then None else Some (an_convert_tools ts)
                  | None \<Rightarrow> None),
      cr_temperature = an_temperature req, cr_top_p = an_top_p req, cr_top_k = an_top_k req,
      cr_repetition_penalty = None, cr_seed = None, cr_max_tokens = an_max_tokens req,
      cr_max_completion_tokens = None, cr_stream = an_stream req,
      cr_stop = map_option Stop_Many (an_stop_sequences req), cr_enable_thinking = None\<rparr>"

definition messages ::
  "(string \<Rightarrow> string) \<Rightarrow> (json \<Rightarrow> string) \<Rightarrow> (string \<Rightarrow> json option) \<Rightarrow> (nat \<Rightarrow> bool) \<Rightarrow> 'w app_state \<Rightarrow>
   anthropic_request \<Rightarrow> 'w app_vars \<Rightarrow> http_response option \<times> 'w app_vars" where
  "messages quote ser from_str alive st req v =
     (if an_messages req = []
      then (Some (anthropic_error 400 ''invalid_request_error'' ''`messages` must not be empty''), v)
      else
        let model = str_or (st_model_name st) (an_model req);
            stops = (case an_stop_sequences req of None \<Rightarrow> [] | Some s \<Rightarrow> s);
            chat_req = an_chat_request model req
        in case pb_prompt_ids (st_prompt st) (cr_messages chat_req) (cr_tools chat_req) None of
             Inl e \<Rightarrow> (Some (anthropic_error 500 ''api_error'' (''prompt build failed: '' @ e)), v)
           | Inr ids \<Rightarrow>
               if ids = []
               then (Some (anthropic_error 400 ''invalid_request_error'' ''prompt encoded to zero tokens''), v)
               else
                 let prompt_len = of_nat (length ids);
                     config = merge_config st chat_req;
                     stream = (case an_stream req of None \<Rightarrow> False | Some b \<Rightarrow> b);
                     v1 = count_request stream v
                 in case st_try_generate st \<lparr>gj_prompt_ids = ids, gj_config = config\<rparr> (av_world v1) of
                      (None, w) \<Rightarrow> (Some queue_full_response_anthropic, v1\<lparr>av_world := w\<rparr>)
                    | (Some events, w) \<Rightarrow>
                        (let (i, v2) = next_id ''msg'' (v1\<lparr>av_world := w\<rparr>);
                             v3 = v2\<lparr>av_world := st_cancel st (av_world v2)\<rparr>
                         in (if stream
                             then an_stream_response quote ser alive st events stops prompt_len i model
                             else (case run_generation quote ser (pb_decode_ids (st_prompt st)) (\<lambda>_ k. (True, k))
                                          stops prompt_len events () of
                                     None \<Rightarrow> None
                                   | Some (r, _) \<Rightarrow>
                                       Some (case gr_error r of
                                               Some e \<Rightarrow> anthropic_error 500 ''api_error'' (''generation failed: '' @ e)
                                             | None \<Rightarrow> an_non_stream_json from_str r i model)),
                             v3)))"

end
