(* ===== verification/Anthropic_Props.thy ===== *)
theory Anthropic_Props
  imports Anthropic
begin

section \<open>The Anthropic stream, read by a client\<close>

text \<open>
  A client of the messages protocol as a partial step function: it accepts a frame only where
  the protocol allows it (blocks are numbered from 0 without gaps, a delta goes to an open block
  of its kind, a block is stopped once, the message is closed only when every block is) and it
  assembles the blocks. The encoder keeps step with it, which is the interpretation of
  \<open>block_protocol\<close>.
\<close>

datatype an_client =
    An_Init
  | An_Body "(block \<times> bool) list"
  | An_Closing "block list" string usage
  | An_Done "block list" string usage
  | An_Failed "block list" string

definition read_block :: "json \<Rightarrow> block option" where
  "read_block j =
     (if get_str j ''type'' = Some ''text'' then map_option Bk_Text (get_str j ''text'')
      else if get_str j ''type'' = Some ''tool_use'' then
        (case (get_str j ''id'', get_str j ''name'') of
           (Some i, Some n) \<Rightarrow> Some (Bk_Tool i n []) | _ \<Rightarrow> None)
      else None)"

text \<open>The kind of block a delta is for, and its text.\<close>

definition read_delta :: "json \<Rightarrow> (bool \<times> string) option" where
  "read_delta j =
     (if get_str j ''type'' = Some ''text_delta'' then map_option (Pair False) (get_str j ''text'')
      else if get_str j ''type'' = Some ''input_json_delta''
      then map_option (Pair True) (get_str j ''partial_json'')
      else None)"

definition an_read_body :: "string \<Rightarrow> json \<Rightarrow> (block \<times> bool) list \<Rightarrow> an_client option" where
  "an_read_body name d bs =
     (if name = ''content_block_start'' then
        (case Option.bind (json_get d ''content_block'') read_block of
           Some b \<Rightarrow> if get_nat d ''index'' = Some (length bs) then Some (An_Body (bs @ [(b, True)])) else None
         | None \<Rightarrow> None)
      else if name = ''content_block_delta'' then
        (case (get_nat d ''index'', Option.bind (json_get d ''delta'') read_delta) of
           (Some i, Some (tool, x)) \<Rightarrow>
             if i < length bs \<and> snd (bs ! i) \<and> is_tool (fst (bs ! i)) = tool
             then Some (An_Body (bs[i := (grow x (fst (bs ! i)), True)])) else None
         | _ \<Rightarrow> None)
      else if name = ''content_block_stop'' then
        (case get_nat d ''index'' of
           Some i \<Rightarrow> if i < length bs \<and> snd (bs ! i) then Some (An_Body (bs[i := (fst (bs ! i), False)])) else None
         | None \<Rightarrow> None)
      else if name = ''message_delta'' then
        (case (Option.bind (json_get d ''delta'') (\<lambda>j. get_str j ''stop_reason''),
               Option.bind (json_get d ''usage'') read_usage) of
           (Some r, Some u) \<Rightarrow> if list_all (\<lambda>b. \<not> snd b) bs then Some (An_Closing (map fst bs) r u) else None
         | _ \<Rightarrow> None)
      else if name = ''error'' then
        map_option (An_Failed (map fst bs)) (Option.bind (json_get d ''error'') (\<lambda>j. get_str j ''message''))
      else None)"

definition an_read :: "frame \<Rightarrow> an_client \<Rightarrow> an_client option" where
  "an_read f c =
     (case f of (name, d) \<Rightarrow>
        if get_str d ''type'' \<noteq> Some name then None
        else case c of
          An_Init \<Rightarrow> if name = ''message_start'' then Some (An_Body []) else None
        | An_Body bs \<Rightarrow> an_read_body name d bs
        | An_Closing bs r u \<Rightarrow> if name = ''message_stop'' then Some (An_Done bs r u) else None
        | _ \<Rightarrow> None)"

lemma read_start_text:
  "length bs < 2 ^ 64 \<Longrightarrow>
   an_read (an_block_start (length bs) (JObj [(''type'', JStr ''text''), (''text'', JStr t)])) (An_Body bs) =
     Some (An_Body (bs @ [(Bk_Text t, True)]))"
  by (simp add: an_read_def an_block_start_def an_read_body_def read_block_def unat_of_nat64)

lemma read_start_tool:
  "length bs < 2 ^ 64 \<Longrightarrow>
   an_read (an_block_start (length bs)
       (JObj [(''type'', JStr ''tool_use''), (''id'', JStr i), (''name'', JStr n), (''input'', JObj [])])) (An_Body bs) =
     Some (An_Body (bs @ [(Bk_Tool i n [], True)]))"
  by (simp add: an_read_def an_block_start_def an_read_body_def read_block_def unat_of_nat64)

lemma read_text_delta:
  "i < length bs \<Longrightarrow> i < 2 ^ 64 \<Longrightarrow> bs ! i = (Bk_Text s, True) \<Longrightarrow>
   an_read (an_block_delta i (JObj [(''type'', JStr ''text_delta''), (''text'', JStr t)])) (An_Body bs) =
     Some (An_Body (bs[i := (Bk_Text (s @ t), True)]))"
  by (simp add: an_read_def an_block_delta_def an_read_body_def read_delta_def unat_of_nat64)

lemma read_json_delta:
  "i < length bs \<Longrightarrow> i < 2 ^ 64 \<Longrightarrow> bs ! i = (Bk_Tool c n a, True) \<Longrightarrow>
   an_read (an_block_delta i (JObj [(''type'', JStr ''input_json_delta''), (''partial_json'', JStr x)])) (An_Body bs) =
     Some (An_Body (bs[i := (Bk_Tool c n (a @ x), True)]))"
  by (simp add: an_read_def an_block_delta_def an_read_body_def read_delta_def unat_of_nat64)

lemma read_stop:
  "i < length bs \<Longrightarrow> i < 2 ^ 64 \<Longrightarrow> snd (bs ! i) \<Longrightarrow>
   an_read (content_block_stop i) (An_Body bs) = Some (An_Body (bs[i := (fst (bs ! i), False)]))"
  by (simp add: an_read_def content_block_stop_def an_read_body_def unat_of_nat64)

lemmas read_simps = read_start_text read_start_tool read_text_delta read_json_delta read_stop

text \<open>Stopping a set of open blocks.\<close>

lemma read_stops:
  "distinct is \<Longrightarrow> \<forall>i \<in> set is. i < length bs \<and> i < 2 ^ 64 \<and> snd (bs ! i) \<Longrightarrow>
   read_all an_read (map content_block_stop is) (An_Body bs) =
     Some (An_Body (map (\<lambda>i. (fst (bs ! i), snd (bs ! i) \<and> i \<notin> set is)) [0..<length bs]))"
proof (induction "is" arbitrary: bs)
  case Nil
  have "map (\<lambda>i. (fst (bs ! i), snd (bs ! i))) [0..<length bs] = bs" by (simp add: map_nth)
  then show ?case by simp
next
  case (Cons i js)
  let ?bs = "bs[i := (fst (bs ! i), False)]"
  have "\<forall>j \<in> set js. j < length ?bs \<and> j < 2 ^ 64 \<and> snd (?bs ! j)"
    using Cons.prems by (auto simp: nth_list_update)
  with Cons.IH [of ?bs] Cons.prems
  have "read_all an_read (map content_block_stop js) (An_Body ?bs) =
      Some (An_Body (map (\<lambda>j. (fst (?bs ! j), snd (?bs ! j) \<and> j \<notin> set js)) [0..<length ?bs]))"
    by simp
  moreover have "map (\<lambda>j. (fst (?bs ! j), snd (?bs ! j) \<and> j \<notin> set js)) [0..<length ?bs] =
      map (\<lambda>j. (fst (bs ! j), snd (bs ! j) \<and> j \<notin> set (i # js))) [0..<length bs]"
    using Cons.prems by (auto simp: nth_list_update)
  ultimately show ?case using Cons.prems by (simp add: read_stop)
qed

subsection \<open>The encoder keeps step\<close>

definition tool_positions :: "block list \<Rightarrow> nat list" where
  "tool_positions bs = filter (\<lambda>i. is_tool (bs ! i)) [0..<length bs]"

lemma tool_positions_snoc [simp]:
  "tool_positions (bs @ [b]) = tool_positions bs @ (if is_tool b then [length bs] else [])"
  by (auto simp: tool_positions_def nth_append intro: filter_cong)

lemma tool_positions_props [simp]:
  "length (tool_positions bs) = tools_in bs" "tool_positions [] = []" "distinct (tool_positions bs)"
  "set (tool_positions bs) = {i. i < length bs \<and> is_tool (bs ! i)}"
proof -
  show "length (tool_positions bs) = tools_in bs" by (induction bs rule: rev_induct) (simp_all add: tool_positions_def [of "[]"])
qed (auto simp: tool_positions_def)

text \<open>Tool blocks stay open; a text block is open while it is the last one.\<close>

definition opened :: "block list \<Rightarrow> (block \<times> bool) list" where
  "opened bs = map (\<lambda>i. (bs ! i, is_tool (bs ! i) \<or> i + 1 = length bs)) [0..<length bs]"

definition settled :: "block list \<Rightarrow> (block \<times> bool) list" where
  "settled bs = map (\<lambda>b. (b, is_tool b)) bs"

lemma opened_snoc [simp]: "opened (bs @ [b]) = settled bs @ [(b, True)]"
  by (rule nth_equalityI) (auto simp: opened_def settled_def nth_append)

lemma opened_simps [simp]: "opened [] = []" "length (opened bs) = length bs"
  "length (settled bs) = length bs"
  by (simp_all add: opened_def settled_def)

lemma settled_snoc [simp]: "settled (bs @ [b]) = settled bs @ [(b, is_tool b)]"
  by (simp add: settled_def)

lemma opened_settled: "\<not> ends_text bs \<Longrightarrow> opened bs = settled bs"
  by (cases bs rule: rev_cases) (auto simp: settled_def)

definition ae_rel :: "block list \<Rightarrow> an_encoder \<Rightarrow> an_client \<Rightarrow> bool" where
  "ae_rel bs e c \<longleftrightarrow>
     \<not> ae_done e \<and> ae_next_block e = length bs \<and> ae_saw_tool e = (0 < tools_in bs) \<and>
     ae_text_block e = (if ends_text bs then Some (length bs - 1) else None) \<and>
     ae_tool_blocks e = map Some (tool_positions bs) \<and> c = An_Body (opened bs)"

definition an_stop_reason :: "block list \<Rightarrow> string \<Rightarrow> string" where
  "an_stop_reason bs reason =
     (if 0 < tools_in bs then ''tool_use'' else if reason = ''length'' then ''max_tokens'' else ''end_turn'')"

definition ae_closed :: "block list \<Rightarrow> string \<Rightarrow> usage \<Rightarrow> an_client \<Rightarrow> bool" where
  "ae_closed bs reason u c \<longleftrightarrow> c = An_Done bs (an_stop_reason bs reason) u"

lemma ae_content:
  assumes "ae_rel bs e c" "length bs < 2 ^ 64" "ae_render (Em_Content t) e = (fs, e')"
  shows "\<exists>c'. read_all an_read fs c = Some c' \<and> ae_rel (add_delta bs (Em_Content t)) e' c'"
proof (cases "ends_text bs")
  case True
  then obtain cs s where bs: "bs = cs @ [Bk_Text s]" using ends_text_cases by blast
  have d: "an_read (an_block_delta (length cs) (JObj [(''type'', JStr ''text_delta''), (''text'', JStr t)]))
      (An_Body (settled cs @ [(Bk_Text s, True)])) = Some (An_Body (settled cs @ [(Bk_Text (s @ t), True)]))"
    using assms(2) read_text_delta [of "length cs" "settled cs @ [(Bk_Text s, True)]" s t]
    by (simp add: bs nth_append)
  from assms(1,3) d show ?thesis by (auto simp: bs ae_rel_def ae_render_def)
next
  case False
  have d: "read_all an_read [an_block_delta (length bs) (JObj [(''type'', JStr ''text_delta''), (''text'', JStr t)])]
      (An_Body (settled bs @ [(Bk_Text [], True)])) = Some (An_Body (settled bs @ [(Bk_Text t, True)]))"
    using assms(2) read_text_delta [of "length bs" "settled bs @ [(Bk_Text [], True)]" "[]" t]
    by (simp add: nth_append)
  have s: "an_read (an_block_start (length bs) (JObj [(''type'', JStr ''text''), (''text'', JStr [])])) (An_Body (settled bs)) =
      Some (An_Body (settled bs @ [(Bk_Text [], True)]))"
    using assms(2) read_start_text [of "settled bs" "[]"] by simp
  from False assms(1,3) d s show ?thesis
    by (auto simp: ae_rel_def ae_render_def Let_def opened_settled)
qed

lemma ae_start:
  assumes "ae_rel bs e c" "length bs < 2 ^ 64" "ae_render (Em_ToolStart (tools_in bs) i name) e = (fs, e')"
  shows "\<exists>c'. read_all an_read fs c = Some c' \<and> ae_rel (bs @ [Bk_Tool i name []]) e' c'"
proof -
  let ?start = "an_block_start (length bs)
      (JObj [(''type'', JStr ''tool_use''), (''id'', JStr i), (''name'', JStr name), (''input'', JObj [])])"
  let ?stop = "case ae_text_block e of None \<Rightarrow> [] | Some b \<Rightarrow> [content_block_stop b]"
  have stop: "read_all an_read ?stop c = Some (An_Body (settled bs))"
  proof (cases "ends_text bs")
    case True
    then obtain cs s where "bs = cs @ [Bk_Text s]" using ends_text_cases by blast
    with assms(1,2) show ?thesis by (simp add: ae_rel_def read_stop nth_append)
  next
    case False
    with assms(1) show ?thesis by (simp add: ae_rel_def opened_settled)
  qed
  have start: "an_read ?start (An_Body (settled bs)) = Some (An_Body (settled bs @ [(Bk_Tool i name [], True)]))"
    using assms(2) read_start_tool [of "settled bs" i name] by simp
  have fs: "fs = ?stop @ [?start]" and e': "e' = e\<lparr>ae_text_block := None, ae_next_block := ae_next_block e + 1,
      ae_tool_blocks := map Some (tool_positions bs) @ [Some (length bs)], ae_saw_tool := True\<rparr>"
    using assms(1,3) by (auto simp: ae_render_def ae_rel_def Let_def resize_to_def list_update_append)
  show ?thesis
    using assms(1) stop start by (simp add: fs e' read_all_append ae_rel_def)
qed

lemma ae_args:
  assumes "ae_rel bs e c" "length bs < 2 ^ 64" "fits bs (Em_ToolArgs i x)" "ae_render (Em_ToolArgs i x) e = (fs, e')"
  shows "\<exists>c'. read_all an_read fs c = Some c' \<and> ae_rel (grow_last x bs) e' c'"
proof -
  obtain cs k n a where bs: "bs = cs @ [Bk_Tool k n a]" using assms(3) ends_tool_cases [of bs] by auto
  have i: "i = tools_in cs" using assms(3) by (simp add: bs)
  have d: "an_read (an_block_delta (length cs) (JObj [(''type'', JStr ''input_json_delta''), (''partial_json'', JStr x)]))
      (An_Body (settled cs @ [(Bk_Tool k n a, True)])) = Some (An_Body (settled cs @ [(Bk_Tool k n (a @ x), True)]))"
    using assms(2) read_json_delta [of "length cs" "settled cs @ [(Bk_Tool k n a, True)]" k n a x]
    by (simp add: bs nth_append)
  have "fs = [an_block_delta (length cs) (JObj [(''type'', JStr ''input_json_delta''), (''partial_json'', JStr x)])]"
    "e' = e"
    using assms(1,4) by (auto simp: ae_render_def ae_rel_def bs i nth_append)
  with assms(1) d show ?thesis by (simp add: ae_rel_def bs)
qed

lemma ae_final:
  assumes "ae_rel bs e c" "length bs \<le> 2 ^ 64" "ae_render (Em_Final reason u) e = (fs, e')"
  shows "\<exists>c'. read_all an_read fs c = Some c' \<and> ae_closed bs reason u c'"
proof -
  let ?is = "sort (tool_positions bs @ (if ends_text bs then [length bs - 1] else []))"
  have m: "List.map_filter (\<lambda>b. b) (map Some xs) = xs" for xs :: "nat list"
    by (induction xs) (simp_all add: List.map_filter_def)
  have last: "ends_text bs \<Longrightarrow> bs \<noteq> [] \<and> \<not> is_tool (bs ! (length bs - 1))"
    by (auto simp: ends_text_def last_conv_nth)
  have set: "set ?is = {i. i < length bs \<and> snd (opened bs ! i)}"
    by (cases bs rule: rev_cases) (auto simp: nth_append settled_def less_Suc_eq)
  have d: "distinct ?is" using last by auto
  have s: "read_all an_read (map content_block_stop ?is) (An_Body (opened bs)) =
      Some (An_Body (map (\<lambda>i. (fst (opened bs ! i), snd (opened bs ! i) \<and> i \<notin> set ?is)) [0..<length (opened bs)]))"
    by (rule read_stops [OF d]) (use assms(2) in \<open>unfold set, auto\<close>)
  have "map (\<lambda>i. (fst (opened bs ! i), snd (opened bs ! i) \<and> i \<notin> set ?is)) [0..<length (opened bs)] =
      map (\<lambda>b. (b, False)) bs"
    unfolding set by (rule nth_equalityI) (auto simp: opened_def)
  with s have s': "read_all an_read (map content_block_stop ?is) (An_Body (opened bs)) =
      Some (An_Body (map (\<lambda>b. (b, False)) bs))" by simp
  have "fs = map content_block_stop ?is @
     [(''message_delta'',
       JObj [(''type'', JStr ''message_delta''),
             (''delta'', JObj [(''stop_reason'', JStr (an_stop_reason bs reason)), (''stop_sequence'', JNull)]),
             (''usage'', JObj [(''input_tokens'', jnat (us_prompt_tokens u)),
                               (''output_tokens'', jnat (us_completion_tokens u))])]),
      (''message_stop'', JObj [(''type'', JStr ''message_stop'')])]"
    using assms(1,3) by (auto simp: ae_render_def ae_rel_def an_stop_reason_def m)
  then show ?thesis
    using assms(1) s'
    by (simp add: read_all_append ae_rel_def an_read_def an_read_body_def read_usage_def list_all_iff
        ae_closed_def comp_def)
qed

interpretation anthropic: block_protocol ae_render an_read "\<lambda>_. True" "2 ^ 64" ae_rel ae_closed
proof
  fix bs e c em fs e'
  assume r: "ae_rel bs e c" "fits bs em" "length bs < 2 ^ 64" "ae_render em e = (fs, e')"
  then show "\<exists>c'. read_all an_read fs c = Some c' \<and> ae_rel (add_delta bs em) e' c'"
    using ae_content [OF r(1,3)] ae_start [OF r(1,3)] ae_args [OF r(1,3)]
    by (cases em) (auto simp del: add_delta.simps(1))
qed (simp_all add: ae_final)

subsection \<open>Whole streams\<close>

text \<open>The encoder's own part of the relation needs no bound, and a fitting delta never renders
  to nothing.\<close>

definition ae_wf :: "block list \<Rightarrow> an_encoder \<Rightarrow> bool" where
  "ae_wf bs e \<longleftrightarrow> ae_rel bs e (An_Body (opened bs))"

lemma ae_wf_step:
  assumes w: "ae_wf bs e" and f: "fits bs em" and r: "ae_render em e = (fs, e')"
  shows "ae_wf (add_delta bs em) e' \<and> fs \<noteq> []"
proof (cases em)
  case (Em_Content t)
  show ?thesis
  proof (cases "ends_text bs")
    case True
    with ends_text_cases [OF True] w r show ?thesis
      by (auto simp: Em_Content ae_wf_def ae_rel_def ae_render_def)
  qed (use w r in \<open>auto simp: Em_Content ae_wf_def ae_rel_def ae_render_def Let_def\<close>)
next
  case (Em_ToolStart i c name)
  with w f r show ?thesis
    by (auto simp: ae_wf_def ae_rel_def ae_render_def Let_def resize_to_def list_update_append)
next
  case (Em_ToolArgs i x)
  with f obtain cs k n a where bs: "bs = cs @ [Bk_Tool k n a]" using ends_tool_cases [of bs] by auto
  with w f r show ?thesis
    by (auto simp: Em_ToolArgs ae_wf_def ae_rel_def ae_render_def nth_append)
qed (use f in simp_all)

lemma frames_text_concat: "frames_text ser (concat fss) = concat (map (frames_text ser) fss)"
  by (induction fss) (simp_all add: frames_text_def)

lemma frames_text_simps [simp]:
  "frames_text ser [] = []" "frames_text ser (f # fs) \<noteq> []"
  "frames_text ser (fs @ gs) = frames_text ser fs @ frames_text ser gs"
  by (auto simp: frames_text_def event_frame_def split: prod.splits)

lemma ae_out_step:
  "ae_render em e = (fs, e') \<Longrightarrow> fs \<noteq> [] \<Longrightarrow>
   ae_out ser alive em (e, ws) =
     (let (ok, ws') = send_frames alive [frames_text ser fs] ws in (ok, (e', ws')))"
  by (cases fs) (simp_all add: ae_out_def)

text \<open>What a run of deltas leaves in the consumer, one frame text for each; a refusal means that
  the client is gone, because no frame is empty.\<close>

lemma ae_sent_deltas:
  "ae_wf bs e \<Longrightarrow> calls_numbered (tools_in bs) cur ems \<Longrightarrow> (cur \<longrightarrow> ends_tool bs) \<Longrightarrow>
   render_each ae_render ems e = (fss, e') \<Longrightarrow> delivered alive ws all \<Longrightarrow>
   \<exists>ws'. sent (ae_out ser alive) ems (e, ws) = (e', ws') \<and>
     delivered alive ws' (all @ map (frames_text ser) fss) \<and> ae_wf (foldl add_delta bs ems) e' \<and>
     (ems \<noteq> [] \<and> \<not> answers (ae_out ser alive) (e, ws) ems \<longrightarrow> \<not> alive (length ws'))"
proof (induction ems arbitrary: bs e cur fss ws all)
  case Nil
  then show ?case by simp
next
  case (Cons em ems)
  obtain f1 e1 where r1: "ae_render em e = (f1, e1)" by (cases "ae_render em e")
  obtain f2 e2 where r2: "render_each ae_render ems e1 = (f2, e2)" by (cases "render_each ae_render ems e1")
  have fss: "fss = f1 # f2" "e' = e2" using Cons.prems(4) r1 r2 by simp_all
  have n: "fits bs em" "calls_numbered (tools_in (add_delta bs em)) (ends_tool (add_delta bs em)) ems"
    using numbered_fits [OF Cons.prems(2,3)] by simp_all
  note w = ae_wf_step [OF Cons.prems(1) n(1) r1]
  obtain ok ws1 where s: "send_frames alive [frames_text ser f1] ws = (ok, ws1)"
    by (cases "send_frames alive [frames_text ser f1] ws")
  have o: "ae_out ser alive em (e, ws) = (ok, (e1, ws1))"
    using ae_out_step [OF r1 conjunct2 [OF w], of ser alive ws] by (simp only: s Let_def prod.case)
  note d = delivered_send [OF Cons.prems(5) s]
  from Cons.IH [OF conjunct1 [OF w] n(2) _ r2 [folded fss(2)] conjunct1 [OF d]] obtain ws' where
    i: "sent (ae_out ser alive) ems (e1, ws1) = (e', ws')"
      "delivered alive ws' ((all @ [frames_text ser f1]) @ map (frames_text ser) f2)"
      "ae_wf (foldl add_delta (add_delta bs em) ems) e'"
      "ems \<noteq> [] \<and> \<not> answers (ae_out ser alive) (e1, ws1) ems \<longrightarrow> \<not> alive (length ws')"
    by blast
  have "\<not> alive (length ws')" if "\<not> answers (ae_out ser alive) (e, ws) (em # ems)"
  proof (cases "ems = []")
    case True
    with that d i(1) show ?thesis by (simp add: answers_def o)
  next
    case False
    with that i(4) show ?thesis by (simp add: answers_Cons o)
  qed
  with i show ?case by (simp add: o fss)
qed

lemma sse_read_frames_text:
  assumes "\<And>j. NL \<notin> set (ser j)" "list_all (\<lambda>f. NL \<notin> set (fst f)) fs"
  shows "sse_read (frames_text ser fs) = map (\<lambda>(n, j). (Some n, ser j)) fs"
proof -
  have "frames_text ser fs = concat (map frame_of (map (\<lambda>(n, j). (Some n, ser j)) fs))"
    by (simp add: frames_text_def case_prod_unfold comp_def)
  moreover have "list_all one_line (map (\<lambda>(n, j). (Some n, ser j)) fs)"
    using assms by (auto simp: list_all_iff one_line_def)
  ultimately show ?thesis using sse_read_frames by metis
qed

lemma an_event_names: "ae_render em e = (fs, e') \<Longrightarrow> list_all (\<lambda>f. NL \<notin> set (fst f)) fs"
  by (cases em) (auto simp: ae_render_def Let_def an_block_start_def an_block_delta_def content_block_stop_def
      list_all_iff split: if_splits option.splits)

lemma an_event_names_all: "render_all ae_render ems e = (fs, e') \<Longrightarrow> list_all (\<lambda>f. NL \<notin> set (fst f)) fs"
  by (induction ems arbitrary: e fs) (auto simp: Let_def split: prod.splits dest: an_event_names)

text \<open>What the client has at the end of a stream.\<close>

definition an_outcome :: "gen_result \<Rightarrow> block list \<Rightarrow> an_client \<Rightarrow> bool" where
  "an_outcome r bs c \<longleftrightarrow>
     (case gr_error r of
        None \<Rightarrow> c = An_Done bs (an_stop_reason bs (finish_reason_as_str (gr_finish_reason r))) (gr_usage r)
      | Some e \<Rightarrow> c = An_Failed bs e)"

lemma ae_role: "ae_render Em_Role (ae_new i model n) = (fs, e) \<Longrightarrow>
    e = ae_new i model n \<and> fs \<noteq> [] \<and> read_all an_read fs An_Init = Some (An_Body []) \<and> ae_wf [] e"
  by (auto simp: ae_render_def ae_new_def an_read_def ae_wf_def ae_rel_def)

lemma ae_error: "ae_wf bs e \<Longrightarrow> ae_render (Em_Error msg) e = (fs, e') \<Longrightarrow>
    fs \<noteq> [] \<and> read_all an_read fs (An_Body (opened bs)) = Some (An_Failed bs msg)"
proof -
  assume "ae_wf bs e" "ae_render (Em_Error msg) e = (fs, e')"
  moreover have "map fst (opened bs) = bs" by (simp add: opened_def comp_def map_nth)
  ultimately show ?thesis
    by (auto simp: ae_wf_def ae_rel_def ae_render_def an_read_def an_read_body_def)
qed

lemma ae_final_frames: "ae_wf bs e \<Longrightarrow> ae_render (Em_Final reason u) e = (fs, e') \<Longrightarrow> fs \<noteq> []"
  by (auto simp: ae_wf_def ae_rel_def ae_render_def)

text \<open>What arrives of the frame texts of a log.\<close>

lemma ae_log_sent:
  assumes log: "stream_log (answers (ae_out ser alive) (ae_new i model n, [])) r mid log"
    and s: "sent (ae_out ser alive) log (ae_new i model n, []) = (e', ws)"
    and re: "render_each ae_render log (ae_new i model n) = (fss, e'')"
  shows "delivered alive ws (map (frames_text ser) fss) \<and> (log = Em_Role # mid \<longrightarrow> \<not> alive (length ws))"
proof -
  let ?e = "ae_new i model n" and ?out = "ae_out ser alive"
  obtain f0 where r0: "ae_render Em_Role ?e = (f0, ?e)" using ae_role by (metis surj_pair)
  note role = ae_role [OF r0]
  obtain ok0 ws0 where s0: "send_frames alive [frames_text ser f0] [] = (ok0, ws0)"
    by (cases "send_frames alive [frames_text ser f0] []")
  have o0: "?out Em_Role (?e, []) = (ok0, (?e, ws0))"
    using ae_out_step [OF r0, of ser alive "[]"] role by (simp only: s0 Let_def prod.case) simp
  have d0: "delivered alive ws0 [frames_text ser f0]" using send_frames_spec [OF s0] by simp
  have mid: "calls_numbered (tools_in []) False mid" "False \<longrightarrow> ends_tool []"
    using log by (simp_all add: stream_log_def)
  obtain f1 e1 where r1: "render_each ae_render mid ?e = (f1, e1)" by (cases "render_each ae_render mid ?e")
  have w0: "ae_wf [] ?e" using role by simp
  from ae_sent_deltas [OF w0 mid r1 d0] obtain ws1 where
    i: "sent ?out mid (?e, ws0) = (e1, ws1)" "delivered alive ws1 (map (frames_text ser) (f0 # f1))"
      "ae_wf (foldl add_delta [] mid) e1" "mid \<noteq> [] \<and> \<not> answers ?out (?e, ws0) mid \<longrightarrow> \<not> alive (length ws1)"
    by auto
  show ?thesis
  proof (cases "log = Em_Role # mid")
    case True
    then have m: "mid \<noteq> []" "\<not> answers ?out (?e, []) (Em_Role # mid)" using log by (auto simp: stream_log_def)
    then have "\<not> answers ?out (?e, ws0) mid" by (simp add: answers_Cons o0)
    with i m(1) True s re r0 r1 show ?thesis by (auto simp: o0)
  next
    case False
    then obtain last where l: "log = Em_Role # mid @ [last]" "\<not> is_delta last"
      "\<exists>x y. last = Em_Final x y \<or> last = Em_Error x"
      using log by (auto simp: stream_log_def)
    obtain f2 e2 where r2: "ae_render last e1 = (f2, e2)" by (cases "ae_render last e1")
    have "f2 \<noteq> []" using l(3) r2 i(3) ae_final_frames ae_error by metis
    obtain ok2 ws2 where s2: "send_frames alive [frames_text ser f2] ws1 = (ok2, ws2)"
      by (cases "send_frames alive [frames_text ser f2] ws1")
    have o2: "?out last (e1, ws1) = (ok2, (e2, ws2))"
      using ae_out_step [OF r2 \<open>f2 \<noteq> []\<close>, of ser alive ws1] by (simp only: s2 Let_def prod.case)
    have e: "render_each ae_render (mid @ [last]) ?e = (f1 @ [f2], e2)"
      using r1 r2 by (simp add: render_each_append)
    have "ws = ws2" using s i(1) by (simp add: l(1) o0 o2)
    moreover have "fss = f0 # f1 @ [f2]" using re by (simp add: l(1) r0 e)
    ultimately show ?thesis using delivered_send [OF i(2) s2] l(1) by simp
  qed
qed

text \<open>What a client makes of all frames of a log.\<close>

lemma ae_log_read:
  assumes log: "stream_log ok r mid log" and len: "length log \<le> 2 ^ 64"
  shows "\<exists>c. read_all an_read (fst (render_all ae_render log (ae_new i model n))) An_Init = Some c \<and>
    (log \<noteq> Em_Role # mid \<longrightarrow> an_outcome r (blocks_of mid) c)"
proof -
  let ?e = "ae_new i model n"
  obtain f0 where r0: "ae_render Em_Role ?e = (f0, ?e)" using ae_role by (metis surj_pair)
  note role = ae_role [OF r0]
  have mid: "list_all is_delta mid" "calls_numbered (tools_in []) False mid" "False \<longrightarrow> ends_tool []"
    and lm: "length ([] :: block list) + length mid \<le> 2 ^ 64"
    using log len by (auto simp: stream_log_def)
  obtain f1 e1 where r1: "render_all ae_render mid ?e = (f1, e1)" by (cases "render_all ae_render mid ?e")
  have "ae_rel [] ?e (An_Body [])" using role by (simp add: ae_wf_def)
  from anthropic.deltas_read [OF this mid lm r1]
  have c1: "read_all an_read f1 (An_Body []) = Some (An_Body (opened (blocks_of mid)))" "ae_wf (blocks_of mid) e1"
    by (auto simp: ae_rel_def ae_wf_def blocks_of_def)
  have blen: "length (blocks_of mid) \<le> 2 ^ 64"
    using length_add_deltas [of "[]" mid] lm by (simp add: blocks_of_def)
  show ?thesis
  proof (cases "log = Em_Role # mid")
    case True
    with r0 r1 c1 role show ?thesis by (simp add: read_all_append)
  next
    case False
    then consider (fin) "log = Em_Role # mid @ [Em_Final (finish_reason_as_str (gr_finish_reason r)) (gr_usage r)]"
        "gr_error r = None"
      | (err) e where "log = Em_Role # mid @ [Em_Error e]" "gr_error r = Some e"
      using log by (auto simp: stream_log_def)
    then show ?thesis
    proof cases
      case fin
      obtain f2 e2 where r2: "ae_render (Em_Final (finish_reason_as_str (gr_finish_reason r)) (gr_usage r)) e1 = (f2, e2)"
        by (cases "ae_render (Em_Final (finish_reason_as_str (gr_finish_reason r)) (gr_usage r)) e1")
      from ae_final [OF _ blen r2] c1 r0 r1 r2 role fin show ?thesis
        by (auto simp: ae_wf_def ae_closed_def an_outcome_def read_all_append render_all_append)
    next
      case err
      obtain f2 e2 where r2: "ae_render (Em_Error e) e1 = (f2, e2)" by (cases "ae_render (Em_Error e) e1")
      from ae_error [OF c1(2) r2] c1 r0 r1 r2 role err show ?thesis
        by (auto simp: an_outcome_def read_all_append render_all_append)
    qed
  qed
qed

text \<open>C10: A streamed answer of the messages surface, as a client reads it: what arrives splits into named events, all frames of the generation's emissions unless the client went away (never cut off by an empty frame). The events follow the protocol (blocks numbered without gaps, deltas only to open blocks of their kind, every block stopped exactly once before the message is closed), and the blocks that the client assembles are those of the emissions, ending with the stop reason and the usage of the result, or with its error.\<close>

theorem anthropic_stream_readable:
  assumes "an_stream_response quote ser alive st events stops n i model = Some (Rs_Sse ws)"
    and "\<And>j. NL \<notin> set (ser j)"
  shows "\<exists>ok r mid log fs.
    run_generation quote ser (pb_decode_ids (st_prompt st)) (log_out ok) stops n events [] = Some (r, log) \<and>
    stream_log ok r mid log \<and>
    (let all = fst (render_all ae_render log (ae_new i model n)) in
     prefix fs all \<and> (alive (length ws) \<longrightarrow> fs = all) \<and>
     sse_read (concat ws) = map (\<lambda>(name, j). (Some name, ser j)) fs \<and>
     (length log \<le> 2 ^ 64 \<longrightarrow>
       (\<exists>c. read_all an_read all An_Init = Some c \<and> (alive (length ws) \<longrightarrow> an_outcome r (blocks_of mid) c))))"
proof -
  let ?e = "ae_new i model n" and ?out = "ae_out ser alive"
  obtain r e' where run: "run_generation quote ser (pb_decode_ids (st_prompt st)) ?out stops n events (?e, []) =
      Some (r, (e', ws))"
    using assms(1) by (auto simp: an_stream_response_def split: option.splits)
  obtain log mid where log:
    "run_generation quote ser (pb_decode_ids (st_prompt st)) (log_out (answers ?out (?e, []))) stops n events [] =
       Some (r, log)"
    "(e', ws) = sent ?out log (?e, [])" "stream_log (answers ?out (?e, [])) r mid log"
    by (rule run_recorded [OF run])
  obtain fss e'' where re: "render_each ae_render log ?e = (fss, e'')" by (cases "render_each ae_render log ?e")
  have all: "fst (render_all ae_render log ?e) = concat fss" by (simp add: render_each_all re)
  note d = ae_log_sent [OF log(3) log(2) [symmetric] re]
  then obtain k where k: "ws = map (frames_text ser) (take k fss)"
    using prefix_map_take [of ws "frames_text ser" fss] by (auto simp: delivered_def)
  let ?fs = "concat (take k fss)"
  have joined: "concat ws = frames_text ser ?fs" by (simp add: k frames_text_concat)
  have "list_all (\<lambda>f. NL \<notin> set (fst f)) (concat fss)"
    using an_event_names_all [of log ?e "fst (render_all ae_render log ?e)"] all by (metis prod.collapse)
  moreover have p: "prefix ?fs (concat fss)" by (metis append_take_drop_id concat_append prefixI)
  ultimately have "list_all (\<lambda>f. NL \<notin> set (fst f)) ?fs" by (auto simp: prefix_def)
  from sse_read_frames_text [OF assms(2) this] joined
  have read: "sse_read (concat ws) = map (\<lambda>(name, j). (Some name, ser j)) ?fs" by simp
  have full: "?fs = concat fss" if "alive (length ws)"
    using take_map_full [of "frames_text ser" k fss] delivered_all [OF conjunct1 [OF d] that] k by simp
  have "length log \<le> 2 ^ 64 \<longrightarrow>
      (\<exists>c. read_all an_read (fst (render_all ae_render log ?e)) An_Init = Some c \<and>
         (alive (length ws) \<longrightarrow> an_outcome r (blocks_of mid) c))"
    using ae_log_read [OF log(3), of i model n] d by blast
  with log(1,3) p [folded all] read full [folded all] show ?thesis unfolding Let_def by blast
qed

lemma demo_messages: "case an_stream_response rfc_quote (rfc_ser (\<lambda>_. [])) (\<lambda>_. True) (demo_state ''xy'')
      [Ge_Token 66, Ge_Done Fr_Stop demo_usage] [] 3 ''i'' ''m'' of
    Some (Rs_Sse ws) \<Rightarrow> length ws = 4 | _ \<Rightarrow> False"
  by code_simp

theorem anthropic_stream_readable_witness:
  "\<exists>ws fs. an_stream_response rfc_quote (rfc_ser (\<lambda>_. [])) (\<lambda>_. True) (demo_state ''xy'')
      [Ge_Token 66, Ge_Done Fr_Stop demo_usage] [] 3 ''i'' ''m'' = Some (Rs_Sse ws) \<and> length ws = 4 \<and>
    sse_read (concat ws) = map (\<lambda>(name, j). (Some name, rfc_ser (\<lambda>_. []) j)) fs"
proof -
  obtain ws where ws: "an_stream_response rfc_quote (rfc_ser (\<lambda>_. [])) (\<lambda>_. True) (demo_state ''xy'')
      [Ge_Token 66, Ge_Done Fr_Stop demo_usage] [] 3 ''i'' ''m'' = Some (Rs_Sse ws)" "length ws = 4"
    using demo_messages by (auto split: option.splits http_response.splits)
  have "NL \<notin> set (rfc_ser (\<lambda>_. []) j)" for j by (rule rfc_ser_line) simp
  from anthropic_stream_readable [OF ws(1) this] ws show ?thesis by (auto simp: Let_def)
qed


end
