(* ===== verification/Responses.thy ===== *)
theory Responses
  imports Blocks Chat
begin

section \<open>OpenAI responses\<close>

text \<open>
  \<open>minicpm-server/src/responses.rs\<close>: the translation of the request, the encoder of emissions
  as response events, the JSON response and the handler. Item ids come from the shared counter
  of the application state (\<open>next_id\<close>), which the encoder carries in \<open>re_counter\<close> while it runs.
\<close>

record responses_request =
  rr_model :: "string option"
  rr_instructions :: "string option"
  rr_input :: "json option"
  rr_max_output_tokens :: "u64 option"
  rr_max_tokens :: "u64 option"
  rr_temperature :: "u64 option"
  rr_top_p :: "u64 option"
  rr_stream :: "bool option"
  rr_tools :: "json list option"
  rr_tool_choice :: "json option"

definition effective_max_tokens :: "responses_request \<Rightarrow> u64 option" where
  "effective_max_tokens req = or_else (rr_max_output_tokens req) (rr_max_tokens req)"

subsection \<open>The request\<close>

definition content_text :: "json \<Rightarrow> string" where
  "content_text v =
     (case v of
        JStr s \<Rightarrow> s
      | JArr parts \<Rightarrow>
          concat (List.map_filter
            (\<lambda>p. if get_str p ''type'' \<in> {Some ''input_text'', Some ''output_text'', Some ''text''}
                 then get_str p ''text'' else None) parts)
      | _ \<Rightarrow> [])"

definition parse_arguments_object :: "(string \<Rightarrow> json option) \<Rightarrow> string \<Rightarrow> json" where
  "parse_arguments_object from_str arguments =
     (case from_str arguments of Some v \<Rightarrow> if is_object v then v else JObj [] | None \<Rightarrow> JObj [])"

text \<open>The last message takes the call when it is an assistant turn with a \<open>tool_calls\<close> array.\<close>

definition push_tool_call :: "json list \<Rightarrow> json \<Rightarrow> json list" where
  "push_tool_call messages call =
     (case (if messages = [] then None else
              if json_get (last messages) ''role'' = Some (JStr ''assistant'')
              then Option.bind (json_get (last messages) ''tool_calls'') as_array else None) of
        Some arr \<Rightarrow> butlast messages @ [json_set (last messages) ''tool_calls'' (JArr (arr @ [call]))]
      | None \<Rightarrow> messages @ [JObj [(''role'', JStr ''assistant''), (''tool_calls'', JArr [call])]])"

definition append_input_item :: "(string \<Rightarrow> json option) \<Rightarrow> json list \<Rightarrow> json \<Rightarrow> json list" where
  "append_input_item from_str messages item =
     (case as_str item of
        Some txt \<Rightarrow>
          if txt = [] then messages
          else messages @ [JObj [(''role'', JStr ''user''), (''content'', JStr txt)]]
      | None \<Rightarrow>
          (let ty = get_str item ''type'' in
           if ty = Some ''message'' then
             (let r = str_or ''user'' (get_str item ''role'');
                  role = (if r = ''assistant'' then ''assistant''
                          else if r = ''system'' \<or> r = ''developer'' then ''system'' else ''user'');
                  content = (case json_get item ''content'' of None \<Rightarrow> [] | Some c \<Rightarrow> content_text c)
              in messages @ [JObj [(''role'', JStr role), (''content'', JStr content)]])
           else if ty = Some ''function_call'' then
             (let call_id = str_or [] (Option.bind (or_else (json_get item ''call_id'') (json_get item ''id'')) as_str);
                  name = str_or [] (get_str item ''name'');
                  arguments = str_or [] (get_str item ''arguments'')
              in push_tool_call messages
                   (JObj [(''id'', JStr call_id), (''type'', JStr ''function''),
                          (''function'', JObj [(''name'', JStr name),
                             (''arguments'', parse_arguments_object from_str arguments)])]))
           else if ty = Some ''function_call_output'' then
             messages @ [JObj [(''role'', JStr ''tool''),
                               (''tool_call_id'', JStr (str_or [] (get_str item ''call_id''))),
                               (''content'', JStr (case json_get item ''output'' of
                                                     None \<Rightarrow> [] | Some c \<Rightarrow> content_text c))]]
           else messages))"

definition input_to_messages :: "(string \<Rightarrow> json option) \<Rightarrow> string option \<Rightarrow> json \<Rightarrow> json list" where
  "input_to_messages from_str instructions input =
     (let messages = (case instructions of
            Some s \<Rightarrow> if s = [] then [] else [JObj [(''role'', JStr ''system''), (''content'', JStr s)]]
          | None \<Rightarrow> [])
      in case input of
           JStr txt \<Rightarrow> if txt = [] then messages
                       else messages @ [JObj [(''role'', JStr ''user''), (''content'', JStr txt)]]
         | JArr items \<Rightarrow> foldl (append_input_item from_str) messages items
         | _ \<Rightarrow> messages)"

definition convert_tool :: "json \<Rightarrow> json option" where
  "convert_tool t =
     (if get_str t ''type'' \<noteq> Some ''function'' then None
      else case get_str t ''name'' of
        None \<Rightarrow> None
      | Some name \<Rightarrow>
          (let f0 = [(''name'', JStr name)];
               f1 = (case json_get t ''description'' of None \<Rightarrow> f0 | Some d \<Rightarrow> obj_insert f0 ''description'' d);
               f2 = (case json_get t ''parameters'' of None \<Rightarrow> f1 | Some p \<Rightarrow> obj_insert f1 ''parameters'' p)
           in Some (JObj [(''type'', JStr ''function''), (''function'', JObj f2)])))"

definition convert_tools :: "json list \<Rightarrow> json option" where
  "convert_tools tools =
     (let ts = List.map_filter convert_tool tools in if ts = [] then None else Some (JArr ts))"

definition convert_tool_choice :: "json \<Rightarrow> json option" where
  "convert_tool_choice choice =
     (case choice of
        JStr s \<Rightarrow> if s \<in> {''auto'', ''none'', ''required''} then Some choice else None
      | JObj _ \<Rightarrow>
          if get_str choice ''type'' = Some ''function''
          then map_option (\<lambda>n. JObj [(''type'', JStr ''function''), (''function'', JObj [(''name'', JStr n)])])
                 (get_str choice ''name'')
          else None
      | _ \<Rightarrow> None)"

subsection \<open>The JSON response\<close>

definition message_json :: "string \<Rightarrow> string \<Rightarrow> json" where
  "message_json i txt =
     JObj [(''type'', JStr ''message''), (''id'', JStr i), (''status'', JStr ''completed''),
           (''role'', JStr ''assistant''),
           (''content'', JArr [JObj [(''type'', JStr ''output_text''), (''text'', JStr txt),
                                     (''annotations'', JArr [])]])]"

definition function_call_json :: "string \<Rightarrow> string \<Rightarrow> string \<Rightarrow> string \<Rightarrow> json" where
  "function_call_json i call_id name arguments =
     JObj [(''type'', JStr ''function_call''), (''id'', JStr i), (''call_id'', JStr call_id),
           (''name'', JStr name), (''arguments'', JStr arguments), (''status'', JStr ''completed'')]"

definition message_item :: "string \<Rightarrow> 'w app_vars \<Rightarrow> json \<times> 'w app_vars" where
  "message_item txt v = (let (i, v1) = next_id ''msg'' v in (message_json i txt, v1))"

definition function_call_item :: "tool_call \<Rightarrow> 'w app_vars \<Rightarrow> json \<times> 'w app_vars" where
  "function_call_item c v =
     (let (i, v1) = next_id ''fc'' v in (function_call_json i (tc_id c) (tc_name c) (tc_arguments c), v1))"

fun function_call_items :: "tool_call list \<Rightarrow> 'w app_vars \<Rightarrow> json list \<times> 'w app_vars" where
  "function_call_items [] v = ([], v)"
| "function_call_items (c # cs) v =
     (let (j, v1) = function_call_item c v; (js, v2) = function_call_items cs v1 in (j # js, v2))"

definition responses_usage_json :: "usage \<Rightarrow> json" where
  "responses_usage_json u =
     JObj [(''input_tokens'', jnat (us_prompt_tokens u)), (''input_tokens_details'', JObj []),
           (''output_tokens'', jnat (us_completion_tokens u)), (''output_tokens_details'', JObj []),
           (''total_tokens'', jnat (total_tokens u))]"

definition rs_non_stream_json ::
  "gen_result \<Rightarrow> string \<Rightarrow> u64 \<Rightarrow> string \<Rightarrow> 'w app_vars \<Rightarrow> http_response \<times> 'w app_vars" where
  "rs_non_stream_json r resp_id created model v =
     (let (status, details) =
            (if gr_finish_reason r = Fr_Length
             then (''incomplete'', JObj [(''reason'', JStr ''max_output_tokens'')]) else (''completed'', JNull));
          (out1, v1) =
            (if gr_content r = [] then ([], v) else let (j, v') = message_item (gr_content r) v in ([j], v'));
          (out2, v2) = function_call_items (gr_tool_calls r) v1;
          (output, v3) =
            (if out1 @ out2 = [] then let (j, v') = message_item [] v2 in ([j], v') else (out1 @ out2, v2))
      in (Rs_Json 200 []
            (JObj [(''id'', JStr resp_id), (''object'', JStr ''response''), (''created_at'', jnat created),
                   (''status'', JStr status), (''incomplete_details'', details), (''model'', JStr model),
                   (''output'', JArr output), (''usage'', responses_usage_json (gr_usage r))]), v3))"

subsection \<open>The encoder\<close>

datatype rs_item =
    It_Message (it_id: string) (it_output_index: nat) (it_text: string) (it_closed: bool)
  | It_Call (it_index: nat) (it_id: string) (it_call_id: string) (it_name: string) (it_output_index: nat)
      (it_arguments: string) (it_closed: bool)

fun item_json :: "rs_item \<Rightarrow> json" where
  "item_json (It_Message i _ txt _) = message_json i txt"
| "item_json (It_Call _ i call_id name _ arguments _) = function_call_json i call_id name arguments"

record rs_encoder =
  re_id :: string
  re_model :: string
  re_created_at :: u64
  re_sequence_number :: u64
  re_counter :: u64
  re_items :: "rs_item list"
  re_next_output_index :: nat

definition re_new :: "string \<Rightarrow> string \<Rightarrow> u64 \<Rightarrow> u64 \<Rightarrow> rs_encoder" where
  "re_new i model created counter =
     \<lparr>re_id = i, re_model = model, re_created_at = created, re_sequence_number = 0,
      re_counter = counter, re_items = [], re_next_output_index = 0\<rparr>"

type_synonym frame = "string \<times> json"

definition mint_id :: "string \<Rightarrow> rs_encoder \<Rightarrow> string \<times> rs_encoder" where
  "mint_id pre e =
     (let n = re_counter e + 1 in (pre @ ''-'' @ dec_digits (unat n), e\<lparr>re_counter := n\<rparr>))"

definition re_event :: "string \<Rightarrow> (string \<times> json) list \<Rightarrow> rs_encoder \<Rightarrow> frame \<times> rs_encoder" where
  "re_event name data e =
     ((name, JObj (obj_insert (obj_insert data ''type'' (JStr name))
                     ''sequence_number'' (jnat (re_sequence_number e)))),
      e\<lparr>re_sequence_number := re_sequence_number e + 1\<rparr>)"

text \<open>Several events in a row.\<close>

fun re_events :: "(string \<times> (string \<times> json) list) list \<Rightarrow> rs_encoder \<Rightarrow> frame list \<times> rs_encoder" where
  "re_events [] e = ([], e)"
| "re_events ((name, data) # evs) e =
     (let (f, e1) = re_event name data e; (fs, e2) = re_events evs e1 in (f # fs, e2))"

definition lifecycle_response :: "rs_encoder \<Rightarrow> json" where
  "lifecycle_response e =
     JObj [(''id'', JStr (re_id e)), (''object'', JStr ''response''), (''created_at'', jnat (re_created_at e)),
           (''status'', JStr ''in_progress''), (''model'', JStr (re_model e)), (''output'', JArr [])]"

definition final_response :: "rs_encoder \<Rightarrow> string \<Rightarrow> json \<Rightarrow> usage \<Rightarrow> json" where
  "final_response e status details u =
     JObj [(''id'', JStr (re_id e)), (''object'', JStr ''response''), (''created_at'', jnat (re_created_at e)),
           (''status'', JStr status), (''incomplete_details'', details), (''model'', JStr (re_model e)),
           (''output'', JArr (map item_json (re_items e))), (''usage'', responses_usage_json u)]"

fun open_message :: "rs_item \<Rightarrow> bool" where
  "open_message (It_Message _ _ _ closed) = (\<not> closed)"
| "open_message _ = False"

text \<open>\<open>iter().rposition(..)\<close>\<close>

definition open_message_pos :: "rs_item list \<Rightarrow> nat option" where
  "open_message_pos items = find (\<lambda>i. open_message (items ! i)) (rev [0..<length items])"

definition text_part :: "string \<Rightarrow> json" where
  "text_part txt = JObj [(''type'', JStr ''output_text''), (''text'', JStr txt), (''annotations'', JArr [])]"

definition close_open_message :: "rs_encoder \<Rightarrow> frame list \<times> rs_encoder" where
  "close_open_message e =
     (case open_message_pos (re_items e) of
        None \<Rightarrow> ([], e)
      | Some pos \<Rightarrow>
          (let it = re_items e ! pos;
               place = [(''item_id'', JStr (it_id it)), (''output_index'', jnat (of_nat (it_output_index it))),
                        (''content_index'', jnat 0)]
           in re_events
                [(''response.output_text.done'', place @ [(''text'', JStr (it_text it))]),
                 (''response.content_part.done'', place @ [(''part'', text_part (it_text it))]),
                 (''response.output_item.done'',
                  [(''output_index'', jnat (of_nat (it_output_index it))),
                   (''item'', message_json (it_id it) (it_text it))])]
                (e\<lparr>re_items := (re_items e)[pos := It_Message (it_id it) (it_output_index it) (it_text it) True]\<rparr>)))"

text \<open>The still open calls, and the items with every call closed.\<close>

fun open_call_item :: "rs_item \<Rightarrow> bool" where
  "open_call_item (It_Call _ _ _ _ _ _ closed) = (\<not> closed)"
| "open_call_item _ = False"

fun close_call :: "rs_item \<Rightarrow> rs_item" where
  "close_call (It_Call ix i c n oi a _) = It_Call ix i c n oi a True"
| "close_call it = it"

definition call_done_events :: "rs_item \<Rightarrow> (string \<times> (string \<times> json) list) list" where
  "call_done_events it =
     [(''response.function_call_arguments.done'',
       [(''item_id'', JStr (it_id it)), (''output_index'', jnat (of_nat (it_output_index it))),
        (''arguments'', JStr (it_arguments it))]),
      (''response.output_item.done'',
       [(''output_index'', jnat (of_nat (it_output_index it))),
        (''item'', function_call_json (it_id it) (it_call_id it) (it_name it) (it_arguments it))])]"

definition close_open_tools :: "rs_encoder \<Rightarrow> frame list \<times> rs_encoder" where
  "close_open_tools e =
     re_events (concat (map call_done_events (filter open_call_item (re_items e))))
       (e\<lparr>re_items := map close_call (re_items e)\<rparr>)"

text \<open>The loop over the items that finds the open call of an index and appends to it.\<close>

fun push_arguments :: "nat \<Rightarrow> string \<Rightarrow> rs_item list \<Rightarrow> rs_item list \<times> (string \<times> nat) option" where
  "push_arguments index chunk [] = ([], None)"
| "push_arguments index chunk (it # its) =
     (case it of
        It_Call ix i c n oi a False \<Rightarrow>
          if ix \<noteq> index then (let (r, t) = push_arguments index chunk its in (it # r, t))
          else (It_Call ix i c n oi (a @ chunk) False # its, Some (i, oi))
      | _ \<Rightarrow> (let (r, t) = push_arguments index chunk its in (it # r, t)))"

definition open_text_item :: "rs_encoder \<Rightarrow> frame list \<times> rs_encoder" where
  "open_text_item e =
     (if open_message_pos (re_items e) \<noteq> None then ([], e)
      else
        (let (item_id, e1) = mint_id ''msg'' e; output_index = re_next_output_index e1;
             e2 = e1\<lparr>re_next_output_index := output_index + 1,
                     re_items := re_items e1 @ [It_Message item_id output_index [] False]\<rparr>
         in re_events
              [(''response.output_item.added'',
                [(''output_index'', jnat (of_nat output_index)),
                 (''item'', JObj [(''type'', JStr ''message''), (''id'', JStr item_id),
                                  (''status'', JStr ''in_progress''), (''role'', JStr ''assistant''),
                                  (''content'', JArr [])])]),
               (''response.content_part.added'',
                [(''item_id'', JStr item_id), (''output_index'', jnat (of_nat output_index)),
                 (''content_index'', jnat 0), (''part'', text_part [])])]
              e2))"

fun re_render :: "emission \<Rightarrow> rs_encoder \<Rightarrow> frame list \<times> rs_encoder" where
  "re_render Em_Role e =
     re_events [(''response.created'', [(''response'', lifecycle_response e)]),
                (''response.in_progress'', [(''response'', lifecycle_response e)])] e"
| "re_render (Em_Content t) e =
     (if t = [] then ([], e)
      else
        (let (fs, e1) = open_text_item e; pos = the (open_message_pos (re_items e1)); it = re_items e1 ! pos;
             e2 = e1\<lparr>re_items := (re_items e1)[pos := It_Message (it_id it) (it_output_index it) (it_text it @ t) False]\<rparr>;
             (gs, e3) = re_events
               [(''response.output_text.delta'',
                 [(''item_id'', JStr (it_id it)), (''output_index'', jnat (of_nat (it_output_index it))),
                  (''content_index'', jnat 0), (''delta'', JStr t)])] e2
         in (fs @ gs, e3)))"
| "re_render (Em_ToolStart index i name) e =
     (let (fs, e1) = close_open_message e; (fc_id, e2) = mint_id ''fc'' e1;
          output_index = re_next_output_index e2;
          e3 = e2\<lparr>re_next_output_index := output_index + 1,
                  re_items := re_items e2 @ [It_Call index fc_id i name output_index [] False]\<rparr>;
          (gs, e4) = re_events
            [(''response.output_item.added'',
              [(''output_index'', jnat (of_nat output_index)),
               (''item'', JObj [(''type'', JStr ''function_call''), (''id'', JStr fc_id),
                                (''call_id'', JStr i), (''name'', JStr name), (''arguments'', JStr []),
                                (''status'', JStr ''in_progress'')])])] e3
      in (fs @ gs, e4))"
| "re_render (Em_ToolArgs index chunk) e =
     (case push_arguments index chunk (re_items e) of
        (items, None) \<Rightarrow> ([], e\<lparr>re_items := items\<rparr>)
      | (items, Some (item_id, output_index)) \<Rightarrow>
          re_events
            [(''response.function_call_arguments.delta'',
              [(''item_id'', JStr item_id), (''output_index'', jnat (of_nat output_index)),
               (''delta'', JStr chunk)])] (e\<lparr>re_items := items\<rparr>))"
| "re_render (Em_Final reason u) e =
     (let (fs, e1) = close_open_message e; (gs, e2) = close_open_tools e1;
          e3 = (if re_items e2 = []
                then (let (i, e') = mint_id ''msg'' e2
                      in e'\<lparr>re_items := [It_Message i 0 [] True], re_next_output_index := 1\<rparr>)
                else e2);
          incomplete = (reason = ''length'');
          (hs, e4) = re_events
            [(if incomplete then ''response.incomplete'' else ''response.completed'',
              [(''response'',
                final_response e3 (if incomplete then ''incomplete'' else ''completed'')
                  (if incomplete then JObj [(''reason'', JStr ''max_output_tokens'')] else JNull) u)])] e3
      in (fs @ gs @ hs, e4))"
| "re_render (Em_Error msg) e =
     re_events [(''error'', [(''code'', JStr ''server_error''), (''message'', JStr msg), (''param'', JNull)])] e"

subsection \<open>The handler\<close>

text \<open>The consumer sends the frames of an emission one by one and stops at a refusal.\<close>

definition re_out :: "(json \<Rightarrow> string) \<Rightarrow> (nat \<Rightarrow> bool) \<Rightarrow> (rs_encoder \<times> string list) emit" where
  "re_out ser alive em k =
     (case k of (e, ws) \<Rightarrow>
        let (fs, e1) = re_render em e;
            (ok, ws1) = send_frames alive (map (\<lambda>(name, d). event_frame name (ser d)) fs) ws
        in (ok, (e1, ws1)))"

definition rs_stream_response ::
  "(string \<Rightarrow> string) \<Rightarrow> (json \<Rightarrow> string) \<Rightarrow> (nat \<Rightarrow> bool) \<Rightarrow> 'w app_state \<Rightarrow> gen_event list \<Rightarrow> u64 \<Rightarrow> string \<Rightarrow>
   u64 \<Rightarrow> string \<Rightarrow> u64 \<Rightarrow> (http_response \<times> u64) option" where
  "rs_stream_response quote ser alive st events prompt_len resp_id created model counter =
     (case run_generation quote ser (pb_decode_ids (st_prompt st)) (re_out ser alive) [] prompt_len events
             (re_new resp_id model created counter, []) of
        None \<Rightarrow> None
      | Some (_, e, ws) \<Rightarrow> Some (Rs_Sse ws, re_counter e))"

definition rs_chat_request :: "responses_request \<Rightarrow> chat_request" where
  "rs_chat_request req =
     \<lparr>cr_model = None, cr_messages = [], cr_tools = None,
      cr_temperature = rr_temperature req, cr_top_p = rr_top_p req, cr_top_k = None,
      cr_repetition_penalty = None, cr_seed = None, cr_max_tokens = effective_max_tokens req,
      cr_max_completion_tokens = None, cr_stream = None, cr_stop = None, cr_enable_thinking = None\<rparr>"

definition responses ::
  "(string \<Rightarrow> string) \<Rightarrow> (json \<Rightarrow> string) \<Rightarrow> (string \<Rightarrow> json option) \<Rightarrow> (nat \<Rightarrow> bool) \<Rightarrow> 'w app_state \<Rightarrow>
   responses_request \<Rightarrow> 'w app_vars \<Rightarrow> http_response option \<times> 'w app_vars" where
  "responses quote ser from_str alive st req v =
     (let messages = input_to_messages from_str (rr_instructions req)
                       (case rr_input req of None \<Rightarrow> JNull | Some i \<Rightarrow> i)
      in if messages = [] then (Some (error_response 400 ''`input` must not be empty''), v)
         else
           let tools = Option.bind (rr_tools req) convert_tools
           in case pb_prompt_ids (st_prompt st) messages tools None of
                Inl e \<Rightarrow> (Some (error_response 500 (''prompt build failed: '' @ e)), v)
              | Inr ids \<Rightarrow>
                  if ids = [] then (Some (error_response 400 ''prompt encoded to zero tokens''), v)
                  else
                    let prompt_len = of_nat (length ids);
                        config = merge_config st (rs_chat_request req);
                        stream = (case rr_stream req of None \<Rightarrow> False | Some b \<Rightarrow> b);
                        v1 = count_request stream v
                    in case st_try_generate st \<lparr>gj_prompt_ids = ids, gj_config = config\<rparr> (av_world v1) of
                         (None, w) \<Rightarrow> (Some queue_full_response, v1\<lparr>av_world := w\<rparr>)
                       | (Some events, w) \<Rightarrow>
                           (let (i, v2) = next_id ''resp'' (v1\<lparr>av_world := w\<rparr>);
                                model = str_or (st_model_name st) (rr_model req);
                                v3 = v2\<lparr>av_world := st_cancel st (av_world v2)\<rparr>
                            in if stream
                               then (case rs_stream_response quote ser alive st events prompt_len i (st_unix_now st)
                                            model (av_counter v3) of
                                       None \<Rightarrow> (None, v3)
                                     | Some (resp, counter) \<Rightarrow> (Some resp, v3\<lparr>av_counter := counter\<rparr>))
                               else (case run_generation quote ser (pb_decode_ids (st_prompt st)) (\<lambda>_ k. (True, k))
                                            [] prompt_len events () of
                                       None \<Rightarrow> (None, v3)
                                     | Some (r, _) \<Rightarrow>
                                         (case gr_error r of
                                            Some e \<Rightarrow> (Some (error_response 500 (''generation failed: '' @ e)), v3)
                                          | None \<Rightarrow>
                                              (let (resp, v4) = rs_non_stream_json r i (st_unix_now st) model v3
                                               in (Some resp, v4))))))"

end
