(* ===== verification/Responses_Props.thy ===== *)
theory Responses_Props
  imports Responses
begin

section \<open>The response stream, read by a client\<close>

text \<open>
  A client of the responses protocol as a partial step function. It checks the sequence numbers,
  that an item is added at the next output index, that every event names the item it is about,
  the order of the events of an item (added, part added, deltas, text done, part done, item
  done), that the final texts are the joined deltas, and that the terminal response lists
  exactly the items. The encoder keeps step with it: an interpretation of \<open>block_protocol\<close>.
\<close>

datatype stage = Sg_Added | Sg_Open | Sg_Text_Done | Sg_Part_Done | Sg_Closed

type_synonym rs_items = "(block \<times> string \<times> stage) list"

datatype rs_client =
    Rs_Init
  | Rs_Intro
  | Rs_Body u64 rs_items
  | Rs_Done "block list" string usage
  | Rs_Failed "block list" string

definition view_item :: "json \<Rightarrow> (block \<times> string) option" where
  "view_item j =
     (case get_str j ''id'' of
        None \<Rightarrow> None
      | Some x \<Rightarrow>
          if get_str j ''type'' = Some ''message'' then
            (case Option.bind (json_get j ''content'') as_array of
               Some [part] \<Rightarrow> map_option (\<lambda>t. (Bk_Text t, x)) (get_str part ''text'')
             | _ \<Rightarrow> None)
          else if get_str j ''type'' = Some ''function_call'' then
            (case (get_str j ''call_id'', get_str j ''name'', get_str j ''arguments'') of
               (Some c, Some n, Some a) \<Rightarrow> Some (Bk_Tool c n a, x) | _ \<Rightarrow> None)
          else None)"

text \<open>A step of the item at the output index that the event names.\<close>

definition step_item ::
  "json \<Rightarrow> rs_items \<Rightarrow> (block \<Rightarrow> string \<Rightarrow> stage \<Rightarrow> (block \<times> stage) option) \<Rightarrow> rs_items option" where
  "step_item d items f =
     (case get_nat d ''output_index'' of
        None \<Rightarrow> None
      | Some i \<Rightarrow>
          if i < length items
          then (case items ! i of (b, x, s) \<Rightarrow> map_option (\<lambda>(b', s'). items[i := (b', x, s')]) (f b x s))
          else None)"

definition add_item :: "json \<Rightarrow> rs_items \<Rightarrow> rs_items option" where
  "add_item d items =
     (case json_get d ''item'' of
        None \<Rightarrow> None
      | Some j \<Rightarrow>
          if get_nat d ''output_index'' \<noteq> Some (length items) then None
          else if get_str j ''type'' = Some ''message''
          then map_option (\<lambda>x. items @ [(Bk_Text [], x, Sg_Added)]) (get_str j ''id'')
          else (case view_item j of
                  Some (b, x) \<Rightarrow> Some (items @ [(b, x, Sg_Open)]) | None \<Rightarrow> None))"

definition item_event :: "string \<Rightarrow> json \<Rightarrow> rs_items \<Rightarrow> rs_items option" where
  "item_event name d items =
     (let mine = (\<lambda>x. get_str d ''item_id'' = Some x) in
      if name = ''response.output_item.added'' then add_item d items
      else if name = ''response.content_part.added'' then
        step_item d items (\<lambda>b x s. if mine x \<and> \<not> is_tool b \<and> s = Sg_Added then Some (b, Sg_Open) else None)
      else if name = ''response.output_text.delta'' then
        step_item d items (\<lambda>b x s.
          if mine x \<and> \<not> is_tool b \<and> s = Sg_Open
          then map_option (\<lambda>t. (grow t b, Sg_Open)) (get_str d ''delta'') else None)
      else if name = ''response.function_call_arguments.delta'' then
        step_item d items (\<lambda>b x s.
          if mine x \<and> is_tool b \<and> s = Sg_Open
          then map_option (\<lambda>t. (grow t b, Sg_Open)) (get_str d ''delta'') else None)
      else if name = ''response.output_text.done'' then
        step_item d items (\<lambda>b x s.
          if mine x \<and> s = Sg_Open \<and> map_option Bk_Text (get_str d ''text'') = Some b
          then Some (b, Sg_Text_Done) else None)
      else if name = ''response.content_part.done'' then
        step_item d items (\<lambda>b x s.
          if mine x \<and> s = Sg_Text_Done \<and>
             Option.bind (json_get d ''part'') (\<lambda>p. map_option Bk_Text (get_str p ''text'')) = Some b
          then Some (b, Sg_Part_Done) else None)
      else if name = ''response.function_call_arguments.done'' then
        step_item d items (\<lambda>b x s.
          case b of
            Bk_Tool c n a \<Rightarrow>
              if mine x \<and> s = Sg_Open \<and> get_str d ''arguments'' = Some a then Some (b, Sg_Text_Done) else None
          | Bk_Text _ \<Rightarrow> None)
      else if name = ''response.output_item.done'' then
        step_item d items (\<lambda>b x s.
          if Option.bind (json_get d ''item'') view_item = Some (b, x) \<and>
             s = (if is_tool b then Sg_Text_Done else Sg_Part_Done)
          then Some (b, Sg_Closed) else None)
      else None)"

text \<open>The terminal response: every item closed and listed; an empty generation lists one empty
  message.\<close>

definition read_terminal :: "string \<Rightarrow> json \<Rightarrow> rs_items \<Rightarrow> rs_client option" where
  "read_terminal name d items =
     (case json_get d ''response'' of
        None \<Rightarrow> None
      | Some r \<Rightarrow>
          (case (Option.bind (json_get r ''output'') as_array, get_str r ''status'',
                 Option.bind (json_get r ''usage'') read_usage) of
             (Some out, Some status, Some u) \<Rightarrow>
               if list_all (\<lambda>(b, x, s). s = Sg_Closed) items \<and> name = ''response.'' @ status \<and>
                  (if items = [] then map (map_option fst \<circ> view_item) out = [Some (Bk_Text [])]
                   else map view_item out = map (\<lambda>(b, x, s). Some (b, x)) items)
               then Some (Rs_Done (map fst items) status u) else None
           | _ \<Rightarrow> None))"

definition rs_read :: "string \<times> json \<Rightarrow> rs_client \<Rightarrow> rs_client option" where
  "rs_read f c =
     (case f of (name, d) \<Rightarrow>
        if get_str d ''type'' \<noteq> Some name then None
        else
          let seq = (\<lambda>n. Option.bind (json_get d ''sequence_number'') as_u64 = Some n) in
          case c of
            Rs_Init \<Rightarrow> if name = ''response.created'' \<and> seq 0 then Some Rs_Intro else None
          | Rs_Intro \<Rightarrow> if name = ''response.in_progress'' \<and> seq 1 then Some (Rs_Body 2 []) else None
          | Rs_Body n items \<Rightarrow>
              if \<not> seq n then None
              else if name = ''error'' then map_option (Rs_Failed (map fst items)) (get_str d ''message'')
              else if name = ''response.completed'' \<or> name = ''response.incomplete''
              then read_terminal name d items
              else map_option (Rs_Body (n + 1)) (item_event name d items)
          | _ \<Rightarrow> None)"

lemma view_item_json [simp]:
  "view_item (message_json x t) = Some (Bk_Text t, x)"
  "view_item (function_call_json x c n a) = Some (Bk_Tool c n a, x)"
  by (simp_all add: view_item_def message_json_def function_call_json_def)

subsection \<open>Reading one event\<close>

definition rs_frame :: "u64 \<Rightarrow> string \<Rightarrow> (string \<times> json) list \<Rightarrow> string \<times> json" where
  "rs_frame n name data =
     (name, JObj (obj_insert (obj_insert data ''type'' (JStr name)) ''sequence_number'' (jnat n)))"

lemma re_event_frame:
  "re_event name data e =
     (rs_frame (re_sequence_number e) name data, e\<lparr>re_sequence_number := re_sequence_number e + 1\<rparr>)"
  by (simp add: re_event_def rs_frame_def)

lemma rs_read_event:
  assumes "name \<notin> {''error'', ''response.completed'', ''response.incomplete''}"
  shows "rs_read (rs_frame n name data) (Rs_Body n items) =
    map_option (Rs_Body (n + 1))
      (item_event name (JObj (obj_insert (obj_insert data ''type'' (JStr name)) ''sequence_number'' (jnat n))) items)"
  using assms by (simp add: rs_read_def rs_frame_def map_of_obj_insert)

lemmas item_reading = rs_read_event item_event_def step_item_def add_item_def map_of_obj_insert

lemma rd_message_added:
  "length items < 2 ^ 64 \<Longrightarrow>
   rs_read (rs_frame n ''response.output_item.added''
      [(''output_index'', jnat (of_nat (length items))),
       (''item'', JObj [(''type'', JStr ''message''), (''id'', JStr x), (''status'', JStr ''in_progress''),
                        (''role'', JStr ''assistant''), (''content'', JArr [])])]) (Rs_Body n items) =
     Some (Rs_Body (n + 1) (items @ [(Bk_Text [], x, Sg_Added)]))"
  by (simp add: item_reading unat_of_nat64)

lemma rd_part_added:
  "length items < 2 ^ 64 \<Longrightarrow>
   rs_read (rs_frame n ''response.content_part.added''
      [(''item_id'', JStr x), (''output_index'', jnat (of_nat (length items))), (''content_index'', jnat 0),
       (''part'', text_part [])]) (Rs_Body n (items @ [(Bk_Text [], x, Sg_Added)])) =
     Some (Rs_Body (n + 1) (items @ [(Bk_Text [], x, Sg_Open)]))"
  by (simp add: item_reading unat_of_nat64)

lemma rd_text_delta:
  "length items < 2 ^ 64 \<Longrightarrow>
   rs_read (rs_frame n ''response.output_text.delta''
      [(''item_id'', JStr x), (''output_index'', jnat (of_nat (length items))), (''content_index'', jnat 0),
       (''delta'', JStr t)]) (Rs_Body n (items @ [(Bk_Text s, x, Sg_Open)])) =
     Some (Rs_Body (n + 1) (items @ [(Bk_Text (s @ t), x, Sg_Open)]))"
  by (simp add: item_reading unat_of_nat64)

lemma rd_text_done:
  "length items < 2 ^ 64 \<Longrightarrow>
   rs_read (rs_frame n ''response.output_text.done''
      [(''item_id'', JStr x), (''output_index'', jnat (of_nat (length items))), (''content_index'', jnat 0),
       (''text'', JStr s)]) (Rs_Body n (items @ [(Bk_Text s, x, Sg_Open)])) =
     Some (Rs_Body (n + 1) (items @ [(Bk_Text s, x, Sg_Text_Done)]))"
  by (simp add: item_reading unat_of_nat64)

lemma rd_part_done:
  "length items < 2 ^ 64 \<Longrightarrow>
   rs_read (rs_frame n ''response.content_part.done''
      [(''item_id'', JStr x), (''output_index'', jnat (of_nat (length items))), (''content_index'', jnat 0),
       (''part'', text_part s)]) (Rs_Body n (items @ [(Bk_Text s, x, Sg_Text_Done)])) =
     Some (Rs_Body (n + 1) (items @ [(Bk_Text s, x, Sg_Part_Done)]))"
  by (simp add: item_reading unat_of_nat64 text_part_def)

lemma rd_message_done:
  "length items < 2 ^ 64 \<Longrightarrow>
   rs_read (rs_frame n ''response.output_item.done''
      [(''output_index'', jnat (of_nat (length items))), (''item'', message_json x s)])
      (Rs_Body n (items @ [(Bk_Text s, x, Sg_Part_Done)])) =
     Some (Rs_Body (n + 1) (items @ [(Bk_Text s, x, Sg_Closed)]))"
  by (simp add: item_reading unat_of_nat64)

lemma rd_call_added:
  "length items < 2 ^ 64 \<Longrightarrow>
   rs_read (rs_frame n ''response.output_item.added''
      [(''output_index'', jnat (of_nat (length items))),
       (''item'', JObj [(''type'', JStr ''function_call''), (''id'', JStr x), (''call_id'', JStr c),
                        (''name'', JStr name), (''arguments'', JStr []), (''status'', JStr ''in_progress'')])])
      (Rs_Body n items) =
     Some (Rs_Body (n + 1) (items @ [(Bk_Tool c name [], x, Sg_Open)]))"
  by (simp add: item_reading unat_of_nat64 view_item_def)

lemma rd_args_delta:
  "length items < 2 ^ 64 \<Longrightarrow>
   rs_read (rs_frame n ''response.function_call_arguments.delta''
      [(''item_id'', JStr x), (''output_index'', jnat (of_nat (length items))), (''delta'', JStr t)])
      (Rs_Body n (items @ [(Bk_Tool c name a, x, Sg_Open)])) =
     Some (Rs_Body (n + 1) (items @ [(Bk_Tool c name (a @ t), x, Sg_Open)]))"
  by (simp add: item_reading unat_of_nat64)

lemma rd_args_done:
  "length pre < 2 ^ 64 \<Longrightarrow>
   rs_read (rs_frame n ''response.function_call_arguments.done''
      [(''item_id'', JStr x), (''output_index'', jnat (of_nat (length pre))), (''arguments'', JStr a)])
      (Rs_Body n (pre @ (Bk_Tool c name a, x, Sg_Open) # post)) =
     Some (Rs_Body (n + 1) (pre @ (Bk_Tool c name a, x, Sg_Text_Done) # post))"
  by (simp add: item_reading unat_of_nat64)

lemma rd_call_done:
  "length pre < 2 ^ 64 \<Longrightarrow>
   rs_read (rs_frame n ''response.output_item.done''
      [(''output_index'', jnat (of_nat (length pre))), (''item'', function_call_json x c name a)])
      (Rs_Body n (pre @ (Bk_Tool c name a, x, Sg_Text_Done) # post)) =
     Some (Rs_Body (n + 1) (pre @ (Bk_Tool c name a, x, Sg_Closed) # post))"
  by (simp add: item_reading unat_of_nat64)

subsection \<open>The encoder keeps step\<close>

text \<open>The encoder's items and the client's, for blocks with their item ids: from position \<open>i\<close>
  on, after \<open>k\<close> calls, with every message closed and every call open.\<close>

fun items_from :: "nat \<Rightarrow> nat \<Rightarrow> (block \<times> string) list \<Rightarrow> rs_item list" where
  "items_from i k [] = []"
| "items_from i k ((Bk_Text s, x) # bx) = It_Message x i s True # items_from (i + 1) k bx"
| "items_from i k ((Bk_Tool c n a, x) # bx) = It_Call k x c n i a False # items_from (i + 1) (k + 1) bx"

definition rs_settled :: "(block \<times> string) list \<Rightarrow> rs_items" where
  "rs_settled bx = map (\<lambda>(b, x). (b, x, if is_tool b then Sg_Open else Sg_Closed)) bx"

definition rs_closed :: "(block \<times> string) list \<Rightarrow> rs_items" where
  "rs_closed bx = map (\<lambda>(b, x). (b, x, Sg_Closed)) bx"

lemma items_from_append:
  "items_from i k (bx @ cx) = items_from i k bx @ items_from (i + length bx) (k + tools_in (map fst bx)) cx"
  by (induction i k bx rule: items_from.induct) simp_all

lemma length_items_from [simp]: "length (items_from i k bx) = length bx"
  by (induction i k bx rule: items_from.induct) simp_all

lemma items_from_snoc [simp]:
  "n = length bx \<Longrightarrow> (items_from i k bx @ [y]) ! n = y"
  "n = length bx \<Longrightarrow> (items_from i k bx @ [y])[n := z] = items_from i k bx @ [z]"
  by (metis length_items_from nth_append_length, metis length_items_from list_update_length)

lemma rs_settled_simps [simp]:
  "rs_settled [] = []" "length (rs_settled bx) = length bx" "rs_settled (bx @ cx) = rs_settled bx @ rs_settled cx"
  "rs_settled ((b, x) # bx) = (b, x, if is_tool b then Sg_Open else Sg_Closed) # rs_settled bx"
  by (simp_all add: rs_settled_def)

lemma rs_closed_simps [simp]:
  "rs_closed [] = []" "length (rs_closed bx) = length bx"
  "rs_closed ((b, x) # bx) = (b, x, Sg_Closed) # rs_closed bx"
  by (simp_all add: rs_closed_def)

lemma items_from_no_open: "it \<in> set (items_from i k bx) \<Longrightarrow> \<not> open_message it"
  by (induction i k bx rule: items_from.induct) auto

lemma items_from_index: "It_Call ix x c n oi a cl \<in> set (items_from i k bx) \<Longrightarrow> ix < k + tools_in (map fst bx)"
  by (induction i k bx rule: items_from.induct) auto

text \<open>While the last block is a text, its message is open.\<close>

definition open_last :: "(block \<times> string) list \<Rightarrow> rs_item list \<times> rs_items" where
  "open_last bx =
     (case rev bx of
        (Bk_Text s, x) # rx \<Rightarrow>
          (items_from 0 0 (rev rx) @ [It_Message x (length rx) s False],
           rs_settled (rev rx) @ [(Bk_Text s, x, Sg_Open)])
      | _ \<Rightarrow> (items_from 0 0 bx, rs_settled bx))"

lemma open_last_text [simp]:
  "open_last (bx @ [(Bk_Text s, x)]) =
     (items_from 0 0 bx @ [It_Message x (length bx) s False], rs_settled bx @ [(Bk_Text s, x, Sg_Open)])"
  by (simp add: open_last_def)

lemma open_last_else: "\<not> ends_text (map fst bx) \<Longrightarrow> open_last bx = (items_from 0 0 bx, rs_settled bx)"
proof (cases bx rule: rev_cases)
  case (snoc cx p)
  assume n: "\<not> ends_text (map fst bx)"
  obtain b x where p: "p = (b, x)" by (cases p)
  show ?thesis using n by (cases b) (auto simp: snoc p open_last_def)
qed (simp add: open_last_def)

definition rs_rel :: "block list \<Rightarrow> rs_encoder \<Rightarrow> rs_client \<Rightarrow> bool" where
  "rs_rel bs e c \<longleftrightarrow>
     (\<exists>bx. map fst bx = bs \<and> re_next_output_index e = length bx \<and> re_items e = fst (open_last bx) \<and>
        c = Rs_Body (re_sequence_number e) (snd (open_last bx)))"

lemma pos_open [simp]: "open_message_pos (its @ [It_Message x i s False]) = Some (length its)"
  by (simp add: open_message_pos_def nth_append)

lemma pos_none: "\<forall>it \<in> set its. \<not> open_message it \<Longrightarrow> open_message_pos its = None"
  by (auto simp: open_message_pos_def find_None_iff)

lemma pos_settled [simp]: "open_message_pos (items_from i k bx) = None"
  using items_from_no_open by (intro pos_none) blast

lemma ends_text_bx:
  assumes "map fst bx = bs" "ends_text bs"
  obtains cx s x where "bx = cx @ [(Bk_Text s, x)]"
proof -
  obtain cs s where "bs = cs @ [Bk_Text s]" using ends_text_cases [OF assms(2)] by blast
  with assms(1) obtain cx x where "bx = cx @ [(Bk_Text s, x)]"
    by (cases bx rule: rev_cases) auto
  then show thesis by (rule that)
qed

lemma close_message_read:
  assumes "re_items e = fst (open_last bx)" "length bx \<le> 2 ^ 64" "close_open_message e = (fs, e1)"
  shows "read_all rs_read fs (Rs_Body (re_sequence_number e) (snd (open_last bx))) =
      Some (Rs_Body (re_sequence_number e1) (rs_settled bx)) \<and>
    re_items e1 = items_from 0 0 bx \<and> re_next_output_index e1 = re_next_output_index e"
proof (cases "ends_text (map fst bx)")
  case True
  obtain cx s x where bx: "bx = cx @ [(Bk_Text s, x)]" by (rule ends_text_bx [OF refl True])
  have len: "length (rs_settled cx) < 2 ^ 64" using assms(2) by (simp add: bx)
  note rd = rd_text_done [OF len] rd_part_done [OF len] rd_message_done [OF len]
  from assms rd show ?thesis
    by (auto simp: bx close_open_message_def re_event_frame items_from_append Let_def)
next
  case False
  with assms show ?thesis by (auto simp: open_last_else close_open_message_def)
qed

lemma rs_content:
  assumes r: "rs_rel bs e c" and t: "t \<noteq> []" and len: "length bs < 2 ^ 64"
    and re: "re_render (Em_Content t) e = (fs, e')"
  shows "\<exists>c'. read_all rs_read fs c = Some c' \<and> rs_rel (add_delta bs (Em_Content t)) e' c'"
proof -
  obtain bx where bx: "map fst bx = bs" "re_next_output_index e = length bx" "re_items e = fst (open_last bx)"
    "c = Rs_Body (re_sequence_number e) (snd (open_last bx))" using r by (auto simp: rs_rel_def)
  show ?thesis
  proof (cases "ends_text bs")
    case True
    obtain cx s x where cx: "bx = cx @ [(Bk_Text s, x)]" by (rule ends_text_bx [OF bx(1) True])
    then have bs: "bs = map fst cx @ [Bk_Text s]" using bx(1) by simp
    have "length (rs_settled cx) < 2 ^ 64" using len by (simp add: bs)
    from re t rd_text_delta [OF this] bx show ?thesis
      by (auto simp: cx open_text_item_def re_event_frame Let_def rs_rel_def bs
          intro!: exI [of _ "cx @ [(Bk_Text (s @ t), x)]"])
  next
    case False
    then have o: "open_last bx = (items_from 0 0 bx, rs_settled bx)" using bx(1) open_last_else by simp
    have l: "length (rs_settled bx) < 2 ^ 64" using len bx(1) by (metis length_map rs_settled_simps(2))
    note rd = rd_message_added [OF l] rd_part_added [OF l] rd_text_delta [OF l]
    obtain x e1 where m: "mint_id ''msg'' e = (x, e1)" "e1 = e\<lparr>re_counter := re_counter e + 1\<rparr>"
      by (simp add: mint_id_def Let_def)
    from re t rd bx False show ?thesis
      by (auto simp: o m open_text_item_def re_event_frame Let_def rs_rel_def
          intro!: exI [of _ "bx @ [(Bk_Text t, x)]"])
  qed
qed

lemma rs_start:
  assumes r: "rs_rel bs e c" and len: "length bs < 2 ^ 64"
    and re: "re_render (Em_ToolStart (tools_in bs) i name) e = (fs, e')"
  shows "\<exists>c'. read_all rs_read fs c = Some c' \<and> rs_rel (bs @ [Bk_Tool i name []]) e' c'"
proof -
  obtain bx where bx: "map fst bx = bs" "re_next_output_index e = length bx" "re_items e = fst (open_last bx)"
    "c = Rs_Body (re_sequence_number e) (snd (open_last bx))" using r by (auto simp: rs_rel_def)
  obtain f1 e1 where cl: "close_open_message e = (f1, e1)" by (cases "close_open_message e")
  have lb: "length bx < 2 ^ 64" using len bx(1) by (metis length_map)
  then have "length bx \<le> 2 ^ 64" by simp
  note c = close_message_read [OF bx(3) this cl]
  obtain x e2 where m: "mint_id ''fc'' e1 = (x, e2)" "e2 = e1\<lparr>re_counter := re_counter e1 + 1\<rparr>"
    by (simp add: mint_id_def Let_def)
  have "length (rs_settled bx) < 2 ^ 64" using lb by simp
  note rd = rd_call_added [OF this]
  let ?bx = "bx @ [(Bk_Tool i name [], x)]"
  have o: "open_last ?bx = (items_from 0 0 ?bx, rs_settled ?bx)" by (rule open_last_else) simp
  have "map fst ?bx = bs @ [Bk_Tool i name []]" using bx(1) by simp
  moreover have "fs = f1 @ [rs_frame (re_sequence_number e1) ''response.output_item.added''
      [(''output_index'', jnat (of_nat (length bx))),
       (''item'', JObj [(''type'', JStr ''function_call''), (''id'', JStr x), (''call_id'', JStr i),
                        (''name'', JStr name), (''arguments'', JStr []), (''status'', JStr ''in_progress'')])]]"
    and e': "re_items e' = items_from 0 0 ?bx" "re_next_output_index e' = length ?bx"
      "re_sequence_number e' = re_sequence_number e1 + 1"
    using re cl c m bx(1,2) by (auto simp: re_event_frame Let_def items_from_append)
  ultimately show ?thesis
    using c rd by (auto simp: rs_rel_def read_all_append bx(4) o intro!: exI [of _ ?bx])
qed

lemma push_arguments_last:
  "(\<And>ix y d m oj b. It_Call ix y d m oj b False \<in> set its \<Longrightarrow> ix \<noteq> k) \<Longrightarrow>
   push_arguments k chunk (its @ [It_Call k x c n oi a False]) =
     (its @ [It_Call k x c n oi (a @ chunk) False], Some (x, oi))"
proof (induction its)
  case (Cons it its)
  have "It_Call ix y d m oj b False \<in> set its \<Longrightarrow> ix \<noteq> k" for ix y d m oj b
    using Cons.prems [of ix y d m oj b] by simp
  then have ih: "push_arguments k chunk (its @ [It_Call k x c n oi a False]) =
      (its @ [It_Call k x c n oi (a @ chunk) False], Some (x, oi))" by (rule Cons.IH)
  show ?case
  proof (cases it)
    case (It_Call ix y d m oj b cl)
    with Cons.prems [of ix y d m oj b] ih show ?thesis by (cases cl) auto
  qed (simp add: ih)
qed simp

lemma rs_args:
  assumes r: "rs_rel bs e c" and len: "length bs < 2 ^ 64" and f: "fits bs (Em_ToolArgs i t)"
    and re: "re_render (Em_ToolArgs i t) e = (fs, e')"
  shows "\<exists>c'. read_all rs_read fs c = Some c' \<and> rs_rel (grow_last t bs) e' c'"
proof -
  obtain bx where bx: "map fst bx = bs" "re_next_output_index e = length bx" "re_items e = fst (open_last bx)"
    "c = Rs_Body (re_sequence_number e) (snd (open_last bx))" using r by (auto simp: rs_rel_def)
  obtain cs k n a where bs: "bs = cs @ [Bk_Tool k n a]" using f ends_tool_cases [of bs] by auto
  with bx(1) obtain cx x where cx: "bx = cx @ [(Bk_Tool k n a, x)]" "map fst cx = cs"
    by (cases bx rule: rev_cases) auto
  have i: "i = tools_in cs" using f by (simp add: bs)
  have o: "open_last (cx @ [(Bk_Tool k n b, x)]) = (items_from 0 0 (cx @ [(Bk_Tool k n b, x)]),
      rs_settled (cx @ [(Bk_Tool k n b, x)]))" for b by (rule open_last_else) simp
  have p: "push_arguments i t (items_from 0 0 cx @ [It_Call i x k n (length cx) a False]) =
      (items_from 0 0 cx @ [It_Call i x k n (length cx) (a @ t) False], Some (x, length cx))"
  proof (rule push_arguments_last)
    fix ix y d m oj b assume "It_Call ix y d m oj b False \<in> set (items_from 0 0 cx)"
    from items_from_index [OF this] show "ix \<noteq> i" by (simp add: i cx(2))
  qed
  have "length (rs_settled cx) < 2 ^ 64" using len bx(1) by (simp add: bs flip: cx(2))
  note rd = rd_args_delta [OF this]
  have it: "re_items e = items_from 0 0 cx @ [It_Call i x k n (length cx) a False]"
    using bx(3) by (simp add: cx(1) o items_from_append i cx(2))
  have "fs = [rs_frame (re_sequence_number e) ''response.function_call_arguments.delta''
        [(''item_id'', JStr x), (''output_index'', jnat (of_nat (length cx))), (''delta'', JStr t)]]"
    "e' = e\<lparr>re_items := items_from 0 0 cx @ [It_Call i x k n (length cx) (a @ t) False],
            re_sequence_number := re_sequence_number e + 1\<rparr>"
    using re by (auto simp: it p re_event_frame)
  with rd bx(2,4) show ?thesis
    by (auto simp: rs_rel_def bs cx o items_from_append i intro!: exI [of _ "cx @ [(Bk_Tool k n (a @ t), x)]"])
qed

lemma call_done_events_call:
  "call_done_events (It_Call k x c n i a cl) =
     [(''response.function_call_arguments.done'',
       [(''item_id'', JStr x), (''output_index'', jnat (of_nat i)), (''arguments'', JStr a)]),
      (''response.output_item.done'',
       [(''output_index'', jnat (of_nat i)), (''item'', function_call_json x c n a)])]"
  by (simp add: call_done_events_def)

lemma close_calls_read:
  assumes "re_events (concat (map call_done_events (filter open_call_item (items_from (length pre) k bx)))) e = (fs, e1)"
    and "length pre + length bx \<le> 2 ^ 64"
  shows "read_all rs_read fs (Rs_Body (re_sequence_number e) (pre @ rs_settled bx)) =
      Some (Rs_Body (re_sequence_number e1) (pre @ rs_closed bx)) \<and>
    re_items e1 = re_items e \<and> re_next_output_index e1 = re_next_output_index e"
  using assms
proof (induction bx arbitrary: pre k e fs)
  case Nil
  then show ?case by simp
next
  case (Cons p bx)
  obtain b x where p: "p = (b, x)" by (cases p)
  show ?case
  proof (cases b)
    case (Bk_Text s)
    have "re_events (concat (map call_done_events
        (filter open_call_item (items_from (length (pre @ [(b, x, Sg_Closed)])) k bx)))) e = (fs, e1)"
      using Cons.prems(1) by (simp add: p Bk_Text)
    from Cons.IH [OF this] Cons.prems(2) show ?thesis by (simp add: p Bk_Text)
  next
    case (Bk_Tool c n a)
    let ?e = "e\<lparr>re_sequence_number := re_sequence_number e + 1 + 1\<rparr>"
    obtain gs where gs: "re_events (concat (map call_done_events
        (filter open_call_item (items_from (length (pre @ [(b, x, Sg_Closed)])) (k + 1) bx)))) ?e = (gs, e1)"
      and fs: "fs = rs_frame (re_sequence_number e) ''response.function_call_arguments.done''
          [(''item_id'', JStr x), (''output_index'', jnat (of_nat (length pre))), (''arguments'', JStr a)] #
        rs_frame (re_sequence_number e + 1) ''response.output_item.done''
          [(''output_index'', jnat (of_nat (length pre))), (''item'', function_call_json x c n a)] # gs"
      using Cons.prems(1)
      by (auto simp: p Bk_Tool call_done_events_call re_event_frame Let_def split: prod.splits)
    have len: "length pre < 2 ^ 64" using Cons.prems(2) by simp
    from Cons.IH [OF gs] Cons.prems(2) rd_args_done [OF len] rd_call_done [OF len]
    show ?thesis by (simp add: p Bk_Tool fs)
  qed
qed

definition rs_finished :: "block list \<Rightarrow> string \<Rightarrow> usage \<Rightarrow> rs_client \<Rightarrow> bool" where
  "rs_finished bs reason u c \<longleftrightarrow>
     c = Rs_Done bs (if reason = ''length'' then ''incomplete'' else ''completed'') u"

lemma view_closed: "map view_item (map item_json (map close_call (items_from i k bx))) = map (\<lambda>(b, x). Some (b, x)) bx"
  by (induction i k bx rule: items_from.induct) simp_all

lemma rd_terminal:
  assumes "reason' = (if inc then ''incomplete'' else ''completed'')"
    and "if bx = [] then map (map_option fst \<circ> view_item) out = [Some (Bk_Text [])]
         else map view_item out = map (\<lambda>(b, x). Some (b, x)) bx"
  shows "rs_read (rs_frame n (if inc then ''response.incomplete'' else ''response.completed'')
      [(''response'', JObj [(''id'', i), (''object'', ob), (''created_at'', ca), (''status'', JStr reason'),
         (''incomplete_details'', det), (''model'', mo), (''output'', JArr out), (''usage'', responses_usage_json u)])])
      (Rs_Body n (rs_closed bx)) = Some (Rs_Done (map fst bx) reason' u)"
proof -
  have "list_all (\<lambda>(b, x, s). s = Sg_Closed) (rs_closed bx)" "map fst (rs_closed bx) = map fst bx"
    "(rs_closed bx = []) = (bx = [])"
    "map (\<lambda>(b, x, s). Some (b, x)) (rs_closed bx) = map (\<lambda>(b, x). Some (b, x)) bx"
    by (simp_all add: rs_closed_def list_all_iff case_prod_unfold comp_def)
  with assms show ?thesis
    by (cases inc) (simp_all add: rs_read_def rs_frame_def map_of_obj_insert read_terminal_def
        responses_usage_json_def read_usage_def)
qed

lemma rs_final:
  assumes r: "rs_rel bs e c" and len: "length bs \<le> 2 ^ 64" and re: "re_render (Em_Final reason u) e = (fs, e')"
  shows "\<exists>c'. read_all rs_read fs c = Some c' \<and> rs_finished bs reason u c'"
proof -
  obtain bx where bx: "map fst bx = bs" "re_next_output_index e = length bx" "re_items e = fst (open_last bx)"
    "c = Rs_Body (re_sequence_number e) (snd (open_last bx))" using r by (auto simp: rs_rel_def)
  obtain f1 e1 where cl: "close_open_message e = (f1, e1)" by (cases "close_open_message e")
  have lb: "length bx \<le> 2 ^ 64" using len bx(1) by (metis length_map)
  note c1 = close_message_read [OF bx(3) lb cl]
  obtain f2 e2 where ct: "close_open_tools e1 = (f2, e2)" by (cases "close_open_tools e1")
  have c2: "read_all rs_read f2 (Rs_Body (re_sequence_number e1) (rs_settled bx)) =
      Some (Rs_Body (re_sequence_number e2) (rs_closed bx)) \<and>
      re_items e2 = map close_call (items_from 0 0 bx)"
    using close_calls_read [of "[]" 0 bx "e1\<lparr>re_items := map close_call (re_items e1)\<rparr>" f2 e2] ct c1 lb
    by (simp add: close_open_tools_def)
  define e3 where "e3 = (if re_items e2 = []
      then (let (i, e') = mint_id ''msg'' e2 in e'\<lparr>re_items := [It_Message i 0 [] True], re_next_output_index := 1\<rparr>)
      else e2)"
  have seq: "re_sequence_number e3 = re_sequence_number e2"
    by (simp add: e3_def mint_id_def Let_def)
  have out: "if bx = [] then map (map_option fst \<circ> view_item) (map item_json (re_items e3)) = [Some (Bk_Text [])]
      else map view_item (map item_json (re_items e3)) = map (\<lambda>(b, x). Some (b, x)) bx"
    using c2 view_closed [of 0 0 bx] by (cases bx) (auto simp: e3_def mint_id_def Let_def comp_assoc)
  let ?inc = "reason = ''length''"
  have "fs = f1 @ f2 @ [rs_frame (re_sequence_number e3) (if ?inc then ''response.incomplete'' else ''response.completed'')
      [(''response'', final_response e3 (if ?inc then ''incomplete'' else ''completed'')
         (if ?inc then JObj [(''reason'', JStr ''max_output_tokens'')] else JNull) u)]]"
    using re by (auto simp: cl ct e3_def re_event_frame Let_def split: prod.splits)
  with c1 c2 rd_terminal [OF refl out, where inc = ?inc] show ?thesis
    by (simp add: read_all_append bx(4) final_response_def seq rs_finished_def bx(1))
qed

interpretation responses: block_protocol re_render rs_read "\<lambda>em. em \<noteq> Em_Content []" "2 ^ 64" rs_rel rs_finished
proof
  fix bs e c em fs e'
  assume r: "rs_rel bs e c" "em \<noteq> Em_Content []" "fits bs em" "length bs < 2 ^ 64" "re_render em e = (fs, e')"
  then show "\<exists>c'. read_all rs_read fs c = Some c' \<and> rs_rel (add_delta bs em) e' c'"
    using rs_content [OF r(1) _ r(4)] rs_start [OF r(1,4)] rs_args [OF r(1,4)]
    by (cases em) (auto simp del: add_delta.simps(1) re_render.simps)
qed (auto simp: rs_final)

subsection \<open>Whole streams\<close>

definition rs_text :: "(json \<Rightarrow> string) \<Rightarrow> string \<times> json \<Rightarrow> string" where
  "rs_text ser f = event_frame (fst f) (ser (snd f))"

lemma re_out_apply:
  "re_render em e = (fs, e') \<Longrightarrow>
   re_out ser alive em (e, ws) = (let (ok, ws') = send_frames alive (map (rs_text ser) fs) ws in (ok, (e', ws')))"
  by (simp add: re_out_def rs_text_def [abs_def] case_prod_unfold)

lemma re_sent:
  "render_all re_render log e = (fs, e') \<Longrightarrow> delivered alive ws all \<Longrightarrow>
   \<exists>ws'. sent (re_out ser alive) log (e, ws) = (e', ws') \<and> delivered alive ws' (all @ map (rs_text ser) fs) \<and>
     (log \<noteq> [] \<and> \<not> answers (re_out ser alive) (e, ws) log \<longrightarrow> \<not> alive (length ws'))"
proof (induction log arbitrary: e fs ws all)
  case Nil
  then show ?case by simp
next
  case (Cons em log)
  obtain f1 e1 where r1: "re_render em e = (f1, e1)" by (cases "re_render em e")
  obtain f2 e2 where r2: "render_all re_render log e1 = (f2, e2)" by (cases "render_all re_render log e1")
  have fs: "fs = f1 @ f2" "e' = e2" using Cons.prems(1) r1 r2 by simp_all
  obtain ok ws1 where s: "send_frames alive (map (rs_text ser) f1) ws = (ok, ws1)"
    by (cases "send_frames alive (map (rs_text ser) f1) ws")
  have o: "re_out ser alive em (e, ws) = (ok, (e1, ws1))" by (simp add: re_out_apply [OF r1] s)
  note d = delivered_send [OF Cons.prems(2) s]
  from Cons.IH [OF r2 [folded fs(2)] conjunct1 [OF d]] obtain ws' where
    i: "sent (re_out ser alive) log (e1, ws1) = (e', ws')"
      "delivered alive ws' ((all @ map (rs_text ser) f1) @ map (rs_text ser) f2)"
      "log \<noteq> [] \<and> \<not> answers (re_out ser alive) (e1, ws1) log \<longrightarrow> \<not> alive (length ws')"
    by blast
  have "\<not> alive (length ws')" if "\<not> answers (re_out ser alive) (e, ws) (em # log)"
  proof (cases "log = []")
    case True
    with that d i(1) show ?thesis by (simp add: answers_def o)
  next
    case False
    with that i(3) show ?thesis by (simp add: answers_Cons o)
  qed
  with i show ?case by (simp add: o fs)
qed

lemma re_events_names:
  "re_events evs e = (fs, e') \<Longrightarrow> list_all (\<lambda>ev. NL \<notin> set (fst ev)) evs \<Longrightarrow> list_all (\<lambda>f. NL \<notin> set (fst f)) fs"
  by (induction evs e arbitrary: fs rule: re_events.induct)
     (auto simp: re_event_def Let_def split: prod.splits)

lemma call_done_names: "list_all (\<lambda>ev. NL \<notin> set (fst ev)) (concat (map call_done_events its))"
  by (induction its) (simp_all add: call_done_events_def)

lemma helper_names:
  "close_open_message e = (fs, e') \<Longrightarrow> list_all (\<lambda>f. NL \<notin> set (fst f)) fs"
  "close_open_tools e = (fs, e') \<Longrightarrow> list_all (\<lambda>f. NL \<notin> set (fst f)) fs"
  "open_text_item e = (fs, e') \<Longrightarrow> list_all (\<lambda>f. NL \<notin> set (fst f)) fs"
  subgoal by (auto simp: close_open_message_def Let_def re_event_frame rs_frame_def split: option.splits)
  subgoal by (auto simp: close_open_tools_def intro: re_events_names [OF _ call_done_names])
  subgoal by (auto simp: open_text_item_def mint_id_def Let_def re_event_frame rs_frame_def split: if_splits)
  done

lemma re_render_names: "re_render em e = (fs, e') \<Longrightarrow> list_all (\<lambda>f. NL \<notin> set (fst f)) fs"
  by (cases em)
     (auto simp: Let_def re_event_frame rs_frame_def dest: helper_names split: prod.splits option.splits if_splits)

lemma re_names: "render_all re_render log e = (fs, e') \<Longrightarrow> list_all (\<lambda>f. NL \<notin> set (fst f)) fs"
  by (induction log arbitrary: e fs) (auto simp: Let_def split: prod.splits dest: re_render_names)

lemma re_role:
  "re_render Em_Role (re_new i model created counter) = (fs, e) \<Longrightarrow>
   read_all rs_read fs Rs_Init = Some (Rs_Body 2 []) \<and> rs_rel [] e (Rs_Body 2 [])"
  by (auto simp: re_event_frame re_new_def rs_read_def rs_frame_def rs_rel_def open_last_def Let_def)

definition rs_outcome :: "gen_result \<Rightarrow> block list \<Rightarrow> rs_client \<Rightarrow> bool" where
  "rs_outcome r bs c \<longleftrightarrow>
     (case gr_error r of
        None \<Rightarrow> c = Rs_Done bs (if gr_finish_reason r = Fr_Length then ''incomplete'' else ''completed'') (gr_usage r)
      | Some e \<Rightarrow> c = Rs_Failed bs e)"

lemma rs_error: "rs_rel bs e c \<Longrightarrow> re_render (Em_Error msg) e = (fs, e') \<Longrightarrow>
    read_all rs_read fs c = Some (Rs_Failed bs msg)"
proof -
  assume r: "rs_rel bs e c" and re: "re_render (Em_Error msg) e = (fs, e')"
  then obtain bx where bx: "map fst bx = bs" "c = Rs_Body (re_sequence_number e) (snd (open_last bx))"
    by (auto simp: rs_rel_def)
  have "map fst (snd (open_last bx)) = map fst bx"
  proof (cases "ends_text (map fst bx)")
    case True
    obtain cx s x where "bx = cx @ [(Bk_Text s, x)]" by (rule ends_text_bx [OF refl True])
    then show ?thesis by (simp add: rs_settled_def comp_def case_prod_unfold)
  qed (simp add: open_last_else rs_settled_def comp_def case_prod_unfold)
  with re bx show ?thesis by (auto simp: re_event_frame rs_read_def rs_frame_def)
qed

lemma rs_log_read:
  assumes log: "stream_log ok r mid log" and len: "length log \<le> 2 ^ 64"
  shows "\<exists>c. read_all rs_read (fst (render_all re_render log (re_new i model created counter))) Rs_Init = Some c \<and>
    (log \<noteq> Em_Role # mid \<longrightarrow> rs_outcome r (blocks_of (filter (\<lambda>em. em \<noteq> Em_Content []) mid)) c)"
proof -
  let ?e = "re_new i model created counter"
  let ?bs = "blocks_of (filter (\<lambda>em. em \<noteq> Em_Content []) mid)"
  obtain f0 e0 where r0: "re_render Em_Role ?e = (f0, e0)" by (cases "re_render Em_Role ?e")
  note role = re_role [OF r0]
  have mid: "list_all is_delta mid" "calls_numbered (tools_in []) False mid" "False \<longrightarrow> ends_tool []"
    and lm: "length ([] :: block list) + length mid \<le> 2 ^ 64"
    using log len by (auto simp: stream_log_def)
  obtain f1 e1 where r1: "render_all re_render mid e0 = (f1, e1)" by (cases "render_all re_render mid e0")
  obtain c1 where c1: "read_all rs_read f1 (Rs_Body 2 []) = Some c1" "rs_rel ?bs e1 c1"
    using responses.deltas_read [OF conjunct2 [OF role] mid lm r1] by (auto simp: blocks_of_def)
  have blen: "length ?bs \<le> 2 ^ 64"
  proof -
    have "length ?bs \<le> length (filter (\<lambda>em. em \<noteq> Em_Content []) mid)"
      using length_add_deltas [of "[]"] unfolding blocks_of_def by (metis add_0 list.size(3))
    also have "\<dots> \<le> length mid" by (rule length_filter_le)
    finally show ?thesis using lm by simp
  qed
  show ?thesis
  proof (cases "log = Em_Role # mid")
    case True
    with r0 r1 c1 role show ?thesis by (simp add: read_all_append del: re_render.simps)
  next
    case False
    then consider (fin) "log = Em_Role # mid @ [Em_Final (finish_reason_as_str (gr_finish_reason r)) (gr_usage r)]"
        "gr_error r = None"
      | (err) e where "log = Em_Role # mid @ [Em_Error e]" "gr_error r = Some e"
      using log by (auto simp: stream_log_def)
    then show ?thesis
    proof cases
      case fin
      let ?last = "Em_Final (finish_reason_as_str (gr_finish_reason r)) (gr_usage r)"
      obtain f2 e2 where r2: "re_render ?last e1 = (f2, e2)" by (cases "re_render ?last e1")
      have reason: "(finish_reason_as_str (gr_finish_reason r) = ''length'') = (gr_finish_reason r = Fr_Length)"
        by (cases "gr_finish_reason r") (simp_all)
      from rs_final [OF c1(2) blen r2] c1(1) r0 r1 r2 role fin show ?thesis
        by (auto simp: rs_finished_def reason rs_outcome_def read_all_append render_all_append simp del: re_render.simps)
    next
      case err
      obtain f2 e2 where r2: "re_render (Em_Error e) e1 = (f2, e2)" by (cases "re_render (Em_Error e) e1")
      from rs_error [OF c1(2) r2] c1(1) r0 r1 r2 role err show ?thesis
        by (auto simp: rs_outcome_def read_all_append render_all_append simp del: re_render.simps)
    qed
  qed
qed

text \<open>C11: A streamed answer of the responses surface, as a client reads it: what arrives splits into named events, all frames of the generation's emissions unless the client went away. The events carry consecutive sequence numbers, open and close each output item once and in the documented order with the joined texts, and the terminal response lists exactly the items; the items are the content blocks of the non-empty emissions.\<close>

theorem responses_stream_readable:
  assumes "rs_stream_response quote ser alive st events n i created model counter = Some (Rs_Sse ws, counter')"
    and "\<And>j. NL \<notin> set (ser j)"
  shows "\<exists>ok r mid log fs.
    run_generation quote ser (pb_decode_ids (st_prompt st)) (log_out ok) [] n events [] = Some (r, log) \<and>
    stream_log ok r mid log \<and>
    (let all = fst (render_all re_render log (re_new i model created counter)) in
     prefix fs all \<and> (alive (length ws) \<longrightarrow> fs = all) \<and>
     sse_read (concat ws) = map (\<lambda>(name, j). (Some name, ser j)) fs \<and>
     (length log \<le> 2 ^ 64 \<longrightarrow>
       (\<exists>c. read_all rs_read all Rs_Init = Some c \<and>
          (alive (length ws) \<longrightarrow> rs_outcome r (blocks_of (filter (\<lambda>em. em \<noteq> Em_Content []) mid)) c))))"
proof -
  let ?e = "re_new i model created counter" and ?out = "re_out ser alive"
  obtain r e' where run: "run_generation quote ser (pb_decode_ids (st_prompt st)) ?out [] n events (?e, []) =
      Some (r, (e', ws))"
    using assms(1) by (auto simp: rs_stream_response_def split: option.splits)
  obtain log mid where log:
    "run_generation quote ser (pb_decode_ids (st_prompt st)) (log_out (answers ?out (?e, []))) [] n events [] =
       Some (r, log)"
    "(e', ws) = sent ?out log (?e, [])" "stream_log (answers ?out (?e, [])) r mid log"
    by (rule run_recorded [OF run])
  obtain fs e'' where re: "render_all re_render log ?e = (fs, e'')" by (cases "render_all re_render log ?e")
  from re_sent [OF re delivered_refl, of ser alive "[]"] log(2)
  have d: "delivered alive ws (map (rs_text ser) fs)"
    and ref: "log \<noteq> [] \<and> \<not> answers ?out (?e, []) log \<longrightarrow> \<not> alive (length ws)"
    by auto
  then obtain k where k: "ws = map (rs_text ser) (take k fs)"
    using prefix_map_take [of ws "rs_text ser" fs] by (auto simp: delivered_def)
  have "list_all (\<lambda>f. NL \<notin> set (fst f)) (take k fs)" by (rule list_all_take) (rule re_names [OF re])
  then have "list_all one_line (map (\<lambda>(name, j). (Some name, ser j)) (take k fs))"
    using assms(2) by (auto simp: list_all_iff one_line_def)
  from sse_read_frames [OF this]
  have read: "sse_read (concat ws) = map (\<lambda>(name, j). (Some name, ser j)) (take k fs)"
    by (simp add: k rs_text_def [abs_def] comp_def case_prod_unfold)
  have full: "take k fs = fs" if "alive (length ws)"
    using take_map_full [of "rs_text ser" k fs] delivered_all [OF d that] k by simp
  have "log \<noteq> Em_Role # mid" if "alive (length ws)"
    using ref that log(3) by (auto simp: stream_log_def)
  then have "length log \<le> 2 ^ 64 \<longrightarrow>
      (\<exists>c. read_all rs_read (fst (render_all re_render log ?e)) Rs_Init = Some c \<and>
         (alive (length ws) \<longrightarrow> rs_outcome r (blocks_of (filter (\<lambda>em. em \<noteq> Em_Content []) mid)) c))"
    using rs_log_read [OF log(3), of i model created counter] by blast
  moreover have fs: "fs = fst (render_all re_render log ?e)" by (simp add: re)
  moreover have "prefix (take k fs) fs" by (rule take_is_prefix)
  ultimately show ?thesis using log(1,3) read full unfolding Let_def by metis
qed

fun sse_length :: "http_response \<Rightarrow> nat option" where
  "sse_length (Rs_Sse ws) = Some (length ws)"
| "sse_length _ = None"

lemma sse_length_Some: "sse_length x = Some n \<Longrightarrow> \<exists>ws. x = Rs_Sse ws \<and> length ws = n"
  by (cases x) simp_all

lemma demo_responses: "map_option (map_prod sse_length id) (rs_stream_response rfc_quote (rfc_ser (\<lambda>_. [])) (\<lambda>_. True)
      (demo_state ''xy'') [Ge_Token 66, Ge_Done Fr_Stop demo_usage] 3 ''i'' 0 ''m'' 7) = Some (Some 9, 8)"
  by code_simp

theorem responses_stream_readable_witness:
  "\<exists>ws fs. rs_stream_response rfc_quote (rfc_ser (\<lambda>_. [])) (\<lambda>_. True) (demo_state ''xy'')
      [Ge_Token 66, Ge_Done Fr_Stop demo_usage] 3 ''i'' 0 ''m'' 7 = Some (Rs_Sse ws, 8) \<and> length ws = 9 \<and>
    sse_read (concat ws) = map (\<lambda>(name, j). (Some name, rfc_ser (\<lambda>_. []) j)) fs"
proof -
  obtain ws where ws: "rs_stream_response rfc_quote (rfc_ser (\<lambda>_. [])) (\<lambda>_. True) (demo_state ''xy'')
      [Ge_Token 66, Ge_Done Fr_Stop demo_usage] 3 ''i'' 0 ''m'' 7 = Some (Rs_Sse ws, 8)" "length ws = 9"
    using demo_responses by (auto dest: sse_length_Some)
  have "NL \<notin> set (rfc_ser (\<lambda>_. []) j)" for j by (rule rfc_ser_line) simp
  from responses_stream_readable [OF ws(1) this] ws show ?thesis by (auto simp: Let_def)
qed

end
