(* ===== verification/Ascii_Escape.thy ===== *)
theory Ascii_Escape
  imports Template
begin

section \<open>JSON text in ASCII\<close>

text \<open>
  What \<open>ascii_escape\<close> of \<open>minicpm-template/src/lib.rs\<close> keeps: a reader of JSON strings gets the
  characters back from its output.
\<close>

subsection \<open>\<open>tojson(ensure_ascii=True)\<close>\<close>

text \<open>A reader of the body of a JSON string: the short escapes, and \<open>\u\<close> with four hexadecimal digits,
  where a high surrogate takes the low one that follows.\<close>

definition hex_value :: "char \<Rightarrow> nat" where
  "hex_value c = (let n = of_char c in if n < 58 then n - 48 else n - 87)"

definition hex4_value :: "char \<Rightarrow> char \<Rightarrow> char \<Rightarrow> char \<Rightarrow> nat" where
  "hex4_value a b c d = ((hex_value a * 16 + hex_value b) * 16 + hex_value c) * 16 + hex_value d"

fun short_escape :: "char \<Rightarrow> nat" where
  "short_escape c =
     (if c = CHR ''b'' then 8 else if c = CHR ''t'' then 9 else if c = CHR ''n'' then 10
      else if c = CHR ''f'' then 12 else if c = CHR ''r'' then 13 else of_char c)"

text \<open>Code units, then the pairs of surrogates.\<close>

fun json_units :: "string \<Rightarrow> nat list" where
  "json_units (b # x # rest) =
     (if b \<noteq> BSL then of_char b # json_units (x # rest)
      else if x \<noteq> CHR ''u'' then short_escape x # json_units rest
      else case rest of
        p # q # r # s # rest' \<Rightarrow> hex4_value p q r s # json_units rest'
      | _ \<Rightarrow> [])"
| "json_units [b] = [of_char b]"
| "json_units [] = []"

fun join_surrogates :: "nat list \<Rightarrow> nat list" where
  "join_surrogates (h # l # us) =
     (if 55296 \<le> h \<and> h < 56320 then (65536 + (h - 55296) * 1024 + (l - 56320)) # join_surrogates us
      else h # join_surrogates (l # us))"
| "join_surrogates us = us"

definition scalar_value :: "nat \<Rightarrow> bool" where
  "scalar_value c \<longleftrightarrow> c < 55296 \<or> 57344 \<le> c \<and> c < 1114112"

definition utf16_units :: "nat \<Rightarrow> nat list" where
  "utf16_units c =
     (if c < 65536 then [c] else [55296 + (c - 65536) div 1024, 56320 + (c - 65536) mod 1024])"

lemma join_surrogates_units:
  assumes "scalar_value c"
  shows "join_surrogates (utf16_units c @ us) = c # join_surrogates us"
proof (cases "c < 65536")
  case True
  then have "\<not> (55296 \<le> c \<and> c < 56320)" using assms by (auto simp: scalar_value_def)
  with True show ?thesis by (cases us) (auto simp: utf16_units_def)
next
  case False
  then have "(c - 65536) div 1024 < 1024" using assms by (auto simp: scalar_value_def)
  moreover have "65536 + ((c - 65536) div 1024 * 1024 + (c - 65536) mod 1024) = c" using False by simp
  ultimately show ?thesis using False by (simp add: utf16_units_def)
qed

lemma hex_digit_value: "n < 16 \<Longrightarrow> hex_value (hex_digit n) = n \<and> of_char (hex_digit n) < (128 :: nat)"
  by (cases "n < 10") (simp_all add: hex_digit_def hex_value_def Let_def)

lemma hex4_units:
  assumes "n < 65536"
  shows "json_units (BSL # CHR ''u'' # hex4 n @ rest) = n # json_units rest"
proof -
  have "n div 4096 mod 16 = n div 4096" "n div 4096 < 16" using assms by simp_all
  moreover have "((n div 4096 * 16 + n div 256 mod 16) * 16 + n div 16 mod 16) * 16 + n mod 16 = n"
  proof -
    have d: "n div 16 div 16 = n div 256" "n div 256 div 16 = n div 4096"
      by (simp_all add: div_mult2_eq [symmetric])
    have "n div 4096 * 16 + n div 256 mod 16 = n div 256" "n div 256 * 16 + n div 16 mod 16 = n div 16"
      "n div 16 * 16 + n mod 16 = n"
      using div_mult_mod_eq [of n 16] div_mult_mod_eq [of "n div 16" 16] div_mult_mod_eq [of "n div 256" 16]
      unfolding d by simp_all
    then show ?thesis by (simp only:)
  qed
  ultimately have "hex4_value (hex_digit (n div 4096 mod 16)) (hex_digit (n div 256 mod 16))
      (hex_digit (n div 16 mod 16)) (hex_digit (n mod 16)) = n"
    by (simp add: hex4_value_def hex_digit_value)
  then show ?thesis by (simp add: hex4_def)
qed

lemma hex4_ascii: "c \<in> set (hex4 n) \<Longrightarrow> of_char c < (128 :: nat)"
  by (auto simp: hex4_def hex_digit_value)

lemma ascii_escape_units:
  assumes "scalar_value c" "c \<noteq> 92"
  shows "json_units (ascii_escape_char c @ rest) = utf16_units c @ json_units rest"
proof -
  consider "c \<le> 127" | "127 < c" "c \<le> 65535" | "65535 < c" by linarith
  then show ?thesis
  proof cases
    case 1
    have "char_of c \<noteq> BSL"
    proof
      assume "char_of c = BSL"
      then have "(of_char (char_of c) :: nat) = of_char BSL" by (rule arg_cong)
      with 1 assms(2) show False by simp
    qed
    with 1 show ?thesis by (cases rest) (auto simp: ascii_escape_char_def utf16_units_def)
  next
    case 2
    then show ?thesis using hex4_units [of c rest] by (simp add: ascii_escape_char_def utf16_units_def)
  next
    case 3
    then have "(c - 65536) div 1024 < 1024" using assms(1) by (auto simp: scalar_value_def)
    moreover have "(c - 65536) mod 1024 < 1024" by simp
    ultimately have "55296 + (c - 65536) div 1024 < 65536" "56320 + (c - 65536) mod 1024 < 65536" by linarith+
    with 3 show ?thesis
      by (simp add: ascii_escape_char_def utf16_units_def Let_def hex4_units del: json_units.simps)
  qed
qed

lemma ascii_escape_ascii: "x \<in> set (ascii_escape_char c) \<Longrightarrow> of_char x < (128 :: nat)"
  using hex4_ascii [of x] by (auto simp: ascii_escape_char_def Let_def split: if_splits)

lemma rfc_escape_units:
  assumes "of_char x < (128 :: nat)"
  shows "json_units (rfc_escape_char x @ rest) = of_char x # json_units rest"
proof (cases "x \<in> {DQ, BSL} \<or> of_char x \<in> {8 :: nat, 9, 10, 12, 13} \<or> 32 \<le> (of_char x :: nat)")
  case True
  then show ?thesis by (cases rest) (auto simp: rfc_escape_char_def Let_def)
next
  case False
  then have n: "of_char x < (32 :: nat)" by auto
  have "hex4_value (CHR ''0'') (CHR ''0'') (hex_digit (of_char x div 16)) (hex_digit (of_char x mod 16)) = of_char x"
  proof -
    have "of_char x div 16 < (16 :: nat)" "of_char x mod 16 < (16 :: nat)" using n by simp_all
    moreover have "hex_value (CHR ''0'') = 0" by code_simp
    ultimately show ?thesis by (simp add: hex4_value_def hex_digit_value)
  qed
  with False n show ?thesis by (auto simp: rfc_escape_char_def Let_def)
qed

lemma rfc_escape_ascii: "of_char x < (128 :: nat) \<Longrightarrow> y \<in> set (rfc_escape_char x) \<Longrightarrow> of_char y < (128 :: nat)"
  using hex_digit_value [of "of_char x div 16"] hex_digit_value [of "of_char x mod 16"]
  by (auto simp: rfc_escape_char_def Let_def split: if_splits)

text \<open>The code points of the body of a quoted string.\<close>

definition body_points :: "nat \<Rightarrow> nat list" where
  "body_points c = (if c < 128 then map of_char (rfc_escape_char (char_of c)) else [c])"

lemma ascii_encode: "\<forall>y \<in> set s. of_char y < (128 :: nat) \<Longrightarrow> concat (map utf8_encode (map of_char s)) = s"
  by (induction s) (simp_all add: utf8_encode_def)

lemma rfc_body_encode:
  assumes "scalar_value c"
  shows "rfc_body (utf8_encode c) = concat (map utf8_encode (body_points c))"
proof (cases "c < 128")
  case True
  then have "rfc_body (utf8_encode c) = rfc_escape_char (char_of c)" by (simp add: utf8_encode_def rfc_body_def)
  moreover have "concat (map utf8_encode (map of_char (rfc_escape_char (char_of c)))) = rfc_escape_char (char_of c)"
    using rfc_escape_ascii [of "char_of c"] True by (intro ascii_encode) auto
  ultimately show ?thesis using True by (simp add: body_points_def)
next
  case False
  have "c < 1114112" using assms by (auto simp: scalar_value_def)
  then have hi: "\<forall>b \<in> set (map of_char (utf8_encode c)). 128 \<le> (b :: nat)"
    using False by (auto simp: utf8_bytes)
  have "rfc_escape_char x = [x]" if "128 \<le> (of_char x :: nat)" for x
    using that by (auto simp: rfc_escape_char_def Let_def)
  then have "\<forall>x \<in> set (utf8_encode c). rfc_escape_char x = [x]" using hi by auto
  moreover have "\<forall>x \<in> set xs. rfc_escape_char x = [x] \<Longrightarrow> concat (map rfc_escape_char xs) = xs" for xs
    by (induction xs) simp_all
  ultimately show ?thesis using False by (simp add: rfc_body_def body_points_def)
qed

lemma rfc_body_points:
  "\<forall>c \<in> set cs. scalar_value c \<Longrightarrow> str_chars (rfc_body (of_chars cs)) = concat (map body_points cs)"
proof -
  assume cs: "\<forall>c \<in> set cs. scalar_value c"
  have "rfc_body (of_chars cs) = concat (map utf8_encode (concat (map body_points cs)))"
    using cs by (induction cs) (simp_all add: of_chars_def rfc.body_append rfc.body_Nil rfc_body_encode)
  moreover have "\<forall>p \<in> set (concat (map body_points cs)). p < 1114112"
  proof -
    have "(of_char x :: nat) < 1114112" for x :: char
      using less_trans [of "of_char x" 256 "1114112 :: nat"] by (simp add: nat_of_char_less_256)
    with cs show ?thesis by (auto simp: body_points_def scalar_value_def split: if_splits)
  qed
  ultimately show ?thesis by (simp only: str_chars_encode)
qed

lemma body_points_units:
  assumes "scalar_value c"
  shows "json_units (concat (map ascii_escape_char (body_points c)) @ rest) = utf16_units c @ json_units rest"
proof (cases "c < 128")
  case True
  have "concat (map ascii_escape_char (map of_char s)) = s" if "\<forall>y \<in> set s. of_char y < (128 :: nat)" for s
    using that by (induction s) (auto simp: ascii_escape_char_def)
  moreover have "\<forall>y \<in> set (rfc_escape_char (char_of c)). of_char y < (128 :: nat)"
    using rfc_escape_ascii [of "char_of c"] True by auto
  ultimately have "concat (map ascii_escape_char (body_points c)) = rfc_escape_char (char_of c)"
    using True by (simp add: body_points_def)
  then show ?thesis using rfc_escape_units [of "char_of c" rest] True by (simp add: utf16_units_def)
next
  case False
  then show ?thesis using ascii_escape_units [OF assms, of rest] by (simp add: body_points_def)
qed

text \<open>C1: Asking the filter for ASCII loses nothing: for every text, \<open>ascii_escape\<close> of the quoted string is pure ASCII, and a JSON reader, which takes \<open>\u\<close> escapes and joins surrogate pairs, reads back exactly the characters of the text.\<close>

theorem ascii_escape_roundtrip:
  assumes "\<forall>c \<in> set cs. scalar_value c"
  shows "join_surrogates (json_units (ascii_escape (rfc_body (of_chars cs)))) = cs \<and>
    (\<forall>x \<in> set (ascii_escape (rfc_body (of_chars cs))). of_char x < (128 :: nat))"
proof -
  have e: "ascii_escape (rfc_body (of_chars cs)) = concat (map ascii_escape_char (concat (map body_points cs)))"
    by (simp add: ascii_escape_def rfc_body_points [OF assms])
  have "json_units (concat (map ascii_escape_char (concat (map body_points cs)))) = concat (map utf16_units cs)"
    using assms body_points_units by (induction cs) (simp_all del: json_units.simps(1,2))
  moreover have "join_surrogates (concat (map utf16_units cs)) = cs"
    using assms join_surrogates_units by (induction cs) (simp_all del: join_surrogates.simps(1))
  ultimately show ?thesis unfolding e using ascii_escape_ascii by auto
qed

theorem ascii_escape_roundtrip_witness:
  "join_surrogates (json_units (ascii_escape (rfc_body (of_chars [107, 0x4e2d, 0x1f600, 10])))) =
   [107, 0x4e2d, 0x1f600, 10]"
  by (rule conjunct1 [OF ascii_escape_roundtrip]) (simp add: scalar_value_def)

end
