(* ===== verification/Template_Prompt.thy ===== *)
theory Template_Prompt
  imports Prompt Template
begin

section \<open>The production prompt builder\<close>

text \<open>
  \<open>TemplatePromptBuilder\<close> of \<open>minicpm-server/src/prompt.rs\<close>: messages are read as chat messages,
  rendered by the chat template and encoded by the tokenizer, without special tokens.
\<close>

record ('v, 'k) template_prompt =
  tp_tokenizer :: tokenizer_service
  tp_template :: "('v, 'k) chat_template"
  tp_bos :: string

definition template_prompt_new ::
  "('v, 'k) jinja \<Rightarrow> model_files \<Rightarrow> path \<Rightarrow> string + ('v, 'k) template_prompt" where
  "template_prompt_new ji mf model_dir =
     (let tokenizer_path = path_join model_dir ''tokenizer.json''
      in case ts_load mf tokenizer_path of
           Inl e \<Rightarrow> Inl (''tokenizer load ('' @ DQ # path_show tokenizer_path @ DQ # ''): '' @
                        tokenizer_error_display e)
         | Inr tokenizer \<Rightarrow>
             (case ct_from_model_dir ji mf model_dir of
                Inl e \<Rightarrow> Inl (''chat template load: '' @ template_error_display e)
              | Inr template \<Rightarrow>
                  (let special = ts_special_tokens tokenizer
                   in case ts_id_to_token tokenizer (sp_bos special) of
                        None \<Rightarrow> Inl (''bos token id '' @ dec_digits (unat (sp_bos special)) @
                                     '' not in vocabulary'')
                      | Some bos \<Rightarrow>
                          Inr \<lparr>tp_tokenizer = tokenizer, tp_template = template, tp_bos = bos\<rparr>)))"

text \<open>\<open>collect\<close> into a \<open>Result\<close>: the first failure.\<close>

fun read_messages :: "(json \<Rightarrow> string) \<Rightarrow> json list \<Rightarrow> string + chat_message list" where
  "read_messages unexp [] = Inr []"
| "read_messages unexp (m # ms) =
     (case cm_from_json unexp m of
        Inl e \<Rightarrow> Inl (''bad message: '' @ e)
      | Inr c \<Rightarrow> (case read_messages unexp ms of Inl e \<Rightarrow> Inl e | Inr cs \<Rightarrow> Inr (c # cs)))"

definition template_prompt_ids ::
  "('v, 'k) jinja \<Rightarrow> (json \<Rightarrow> string) \<Rightarrow> ('v, 'k) template_prompt \<Rightarrow> json list \<Rightarrow> json option \<Rightarrow>
   bool option \<Rightarrow> string + i32 list" where
  "template_prompt_ids ji unexp tp messages tools enable_thinking =
     (case read_messages unexp messages of
        Inl e \<Rightarrow> Inl e
      | Inr msgs \<Rightarrow>
          (case ct_render ji (tp_template tp) msgs tools True enable_thinking (tp_bos tp) of
             Inl e \<Rightarrow> Inl (''template render: '' @ template_error_display e)
           | Inr txt \<Rightarrow>
               (case ts_encode (tp_tokenizer tp) txt False of
                  Inl e \<Rightarrow> Inl (''encode: '' @ tokenizer_error_display e)
                | Inr ids \<Rightarrow> Inr (map (\<lambda>i. ucast i) ids))))"

definition template_decode_ids :: "('v, 'k) template_prompt \<Rightarrow> decode_fn" where
  "template_decode_ids tp ids =
     (case ts_decode_batch (tp_tokenizer tp) ids of
        Inl e \<Rightarrow> Inl (''decode: '' @ tokenizer_error_display e) | Inr s \<Rightarrow> Inr s)"

definition template_builder ::
  "('v, 'k) jinja \<Rightarrow> (json \<Rightarrow> string) \<Rightarrow> ('v, 'k) template_prompt \<Rightarrow> prompt_builder" where
  "template_builder ji unexp tp =
     \<lparr>pb_prompt_ids = template_prompt_ids ji unexp tp, pb_decode_ids = template_decode_ids tp,
      pb_bos_token = tp_bos tp\<rparr>"

subsection \<open>Reading messages\<close>

lemma read_messages_Inr:
  "\<forall>m \<in> set ms. \<exists>c. cm_from_json unexp m = Inr c \<Longrightarrow> \<exists>cs. read_messages unexp ms = Inr cs"
  by (induction ms) (auto split: sum.splits)

text \<open>When every message is read or fails with the same error, and one fails, the error is that.\<close>

lemma read_messages_Inl:
  "\<forall>m \<in> set ms. (\<exists>c. cm_from_json unexp m = Inr c) \<or> cm_from_json unexp m = Inl e \<Longrightarrow>
   \<exists>m \<in> set ms. cm_from_json unexp m = Inl e \<Longrightarrow>
   read_messages unexp ms = Inl (''bad message: '' @ e)"
proof (induction ms)
  case (Cons m ms)
  show ?case
  proof (cases "cm_from_json unexp m")
    case (Inl e')
    with Cons.prems(1) show ?thesis by auto
  next
    case (Inr c)
    then have "\<exists>m \<in> set ms. cm_from_json unexp m = Inl e" using Cons.prems(2) by auto
    with Cons.IH Cons.prems(1) Inr show ?thesis by simp
  qed
qed simp

lemma cm_to_json_roundtrip:
  "cm_tool_calls m \<noteq> Some JNull \<Longrightarrow> cm_from_json unexp (cm_to_json m) = Inr m"
  by (cases m) (auto simp: cm_to_json_def cm_from_object_def split: option.splits)

lemma read_messages_to_json:
  "\<forall>m \<in> set ms. cm_tool_calls m \<noteq> Some JNull \<Longrightarrow> read_messages unexp (map cm_to_json ms) = Inr ms"
  by (induction ms) (simp_all add: cm_to_json_roundtrip)

end
