(* ===== verification/Handlers.thy ===== *)
theory Handlers
  imports Responses Anthropic
begin

section \<open>The common front of the three handlers\<close>

text \<open>
  \<open>chat_completions\<close>, \<open>messages\<close> and \<open>responses\<close> each check the request, build the prompt and submit
  the job before they answer. \<open>gate\<close> states what they promise about a request that does not
  get through: the status, the headers, and what is left changed.
\<close>

definition gate ::
  "'w app_state \<Rightarrow> json list \<Rightarrow> json option \<Rightarrow> bool option \<Rightarrow> gen_config \<Rightarrow> bool option \<Rightarrow> 'w app_vars \<Rightarrow>
   (nat \<times> (string \<times> string) list) option \<times> 'w app_vars" where
  "gate st ms tools thinking cfg stream v =
     (if ms = [] then (Some (400, []), v)
      else case pb_prompt_ids (st_prompt st) ms tools thinking of
        Inl _ \<Rightarrow> (Some (500, []), v)
      | Inr ids \<Rightarrow>
          if ids = [] then (Some (400, []), v)
          else case st_try_generate st \<lparr>gj_prompt_ids = ids, gj_config = cfg\<rparr> (av_world v) of
            (None, w) \<Rightarrow>
              (Some (429, [(''Retry-After'', ''1'')]), (count_request (stream = Some True) v)\<lparr>av_world := w\<rparr>)
          | (Some _, w) \<Rightarrow> (None, (count_request (stream = Some True) v)\<lparr>av_world := w\<rparr>))"

definition chat_gate :: "'w app_state \<Rightarrow> chat_request \<Rightarrow> 'w app_vars \<Rightarrow>
   (nat \<times> (string \<times> string) list) option \<times> 'w app_vars" where
  "chat_gate st req =
     gate st (cr_messages req) (cr_tools req) (cr_enable_thinking req) (merge_config st req) (cr_stream req)"

definition messages_gate :: "'w app_state \<Rightarrow> anthropic_request \<Rightarrow> 'w app_vars \<Rightarrow>
   (nat \<times> (string \<times> string) list) option \<times> 'w app_vars" where
  "messages_gate st req =
     (let chat_req = an_chat_request (str_or (st_model_name st) (an_model req)) req
      in gate st (if an_messages req = [] then [] else cr_messages chat_req) (cr_tools chat_req) None
           (merge_config st chat_req) (an_stream req))"

definition responses_gate :: "(string \<Rightarrow> json option) \<Rightarrow> 'w app_state \<Rightarrow> responses_request \<Rightarrow> 'w app_vars \<Rightarrow>
   (nat \<times> (string \<times> string) list) option \<times> 'w app_vars" where
  "responses_gate from_str st req =
     gate st (input_to_messages from_str (rr_instructions req) (case rr_input req of None \<Rightarrow> JNull | Some i \<Rightarrow> i))
       (Option.bind (rr_tools req) convert_tools) None (merge_config st (rs_chat_request req)) (rr_stream req)"

text \<open>Reading off the gate.\<close>

lemma gate_cases:
  assumes "gate st ms tools thinking cfg stream v = (Some (code, hs), v')"
  obtains (empty) "ms = []" "code = 400" "hs = []" "v' = v"
  | (prompt) e where "ms \<noteq> []" "pb_prompt_ids (st_prompt st) ms tools thinking = Inl e" "code = 500" "hs = []" "v' = v"
  | (zero) "ms \<noteq> []" "pb_prompt_ids (st_prompt st) ms tools thinking = Inr []" "code = 400" "hs = []" "v' = v"
  | (full) ids w where "ms \<noteq> []" "pb_prompt_ids (st_prompt st) ms tools thinking = Inr ids" "ids \<noteq> []"
      "st_try_generate st \<lparr>gj_prompt_ids = ids, gj_config = cfg\<rparr> (av_world v) = (None, w)"
      "code = 429" "hs = [(''Retry-After'', ''1'')]" "v' = (count_request (stream = Some True) v)\<lparr>av_world := w\<rparr>"
  using assms by (auto simp: gate_def split: if_splits sum.splits prod.splits option.splits)

lemma count_request_world [simp]: "av_world (count_request b v) = av_world v" "av_counter (count_request b v) = av_counter v"
  by (simp_all add: count_request_def Let_def)

lemma stream_flag: "(case s of None \<Rightarrow> False | Some b \<Rightarrow> b) = (s = Some True)"
  by (cases s) auto

lemma gate_counter: "gate st ms tools thinking cfg stream v = (r, v') \<Longrightarrow> av_counter v' = av_counter v"
  by (auto simp: gate_def split: if_splits sum.splits prod.splits option.splits)

lemma convert_messages_nonempty: "msgs \<noteq> [] \<Longrightarrow> convert_messages msgs \<noteq> []"
  by (cases msgs) (auto simp: convert_messages_def convert_assistant_message_def convert_user_message_def Let_def
      split: prod.splits)

lemmas rejections = error_response_def queue_full_response_def anthropic_error_def queue_full_response_anthropic_def

lemma chat_rejects:
  assumes "chat_gate st req v = (Some (code, hs), v')"
  shows "\<exists>body. chat_completions quote ser alive st req v = (Some (Rs_Json code hs body), v')"
  using assms [unfolded chat_gate_def]
  by (cases rule: gate_cases) (simp_all add: chat_completions_def Let_def rejections stream_flag)

lemma messages_rejects:
  assumes "messages_gate st req v = (Some (code, hs), v')"
  shows "\<exists>body. messages quote ser from_str alive st req v = (Some (Rs_Json code hs body), v')"
proof (cases "an_messages req = []")
  case True
  with assms show ?thesis by (auto simp: messages_gate_def gate_def messages_def rejections Let_def)
next
  case False
  then have ne: "cr_messages (an_chat_request m req) \<noteq> []" for m
    using convert_messages_nonempty by (simp add: an_chat_request_def)
  have g: "gate st (cr_messages (an_chat_request (str_or (st_model_name st) (an_model req)) req))
      (cr_tools (an_chat_request (str_or (st_model_name st) (an_model req)) req)) None
      (merge_config st (an_chat_request (str_or (st_model_name st) (an_model req)) req)) (an_stream req) v =
      (Some (code, hs), v')"
    using assms False by (simp add: messages_gate_def Let_def)
  from g show ?thesis
    by (cases rule: gate_cases) (use False ne in \<open>simp_all add: messages_def Let_def rejections stream_flag\<close>)
qed

lemma responses_rejects:
  assumes "responses_gate from_str st req v = (Some (code, hs), v')"
  shows "\<exists>body. responses quote ser from_str alive st req v = (Some (Rs_Json code hs body), v')"
  using assms [unfolded responses_gate_def]
  by (cases rule: gate_cases) (simp_all add: responses_def Let_def rejections stream_flag)

text \<open>C1: The three handlers reject alike, and cleanly: an empty conversation or prompt is 400 and a prompt that cannot be built is 500, with nothing changed, counted or submitted; a full queue is 429 with \<open>Retry-After: 1\<close>, where only the request was counted. A rejected request never consumes a response id.\<close>

theorem handlers_reject_alike:
  "(chat_gate st creq v = (Some (code, hs), v') \<longrightarrow>
      (\<exists>body. chat_completions quote ser alive st creq v = (Some (Rs_Json code hs body), v'))) \<and>
   (messages_gate st areq v = (Some (code, hs), v') \<longrightarrow>
      (\<exists>body. messages quote ser from_str alive st areq v = (Some (Rs_Json code hs body), v'))) \<and>
   (responses_gate from_str st rreq v = (Some (code, hs), v') \<longrightarrow>
      (\<exists>body. responses quote ser from_str alive st rreq v = (Some (Rs_Json code hs body), v'))) \<and>
   (gate st ms tools thinking cfg stream v = (Some (code, hs), v') \<longrightarrow> av_counter v' = av_counter v)"
  by (intro conjI impI chat_rejects messages_rejects responses_rejects gate_counter) assumption+

text \<open>A full queue, seen through the chat surface.\<close>

definition full_state :: "unit app_state" where
  "full_state = (demo_state [])\<lparr>st_try_generate := (\<lambda>_ w. (None, w))\<rparr>"

definition demo_vars :: "unit app_vars" where
  "demo_vars = \<lparr>av_counter = 7, av_metrics = metrics_default, av_world = ()\<rparr>"

definition demo_chat :: chat_request where
  "demo_chat =
     \<lparr>cr_model = None, cr_messages = [JObj [(''role'', JStr ''user''), (''content'', JStr ''hi'')]], cr_tools = None,
      cr_temperature = None, cr_top_p = None, cr_top_k = None, cr_repetition_penalty = None, cr_seed = None,
      cr_max_tokens = None, cr_max_completion_tokens = None, cr_stream = None, cr_stop = None,
      cr_enable_thinking = None\<rparr>"

theorem handlers_reject_alike_witness:
  "\<exists>body. chat_completions rfc_quote (rfc_ser (\<lambda>_. [])) (\<lambda>_. True) full_state demo_chat demo_vars =
     (Some (Rs_Json 429 [(''Retry-After'', ''1'')] body), (count_request False demo_vars))"
proof -
  have g: "chat_gate full_state demo_chat demo_vars = (Some (429, [(''Retry-After'', ''1'')]), count_request False demo_vars)"
    by (simp add: chat_gate_def gate_def full_state_def demo_state_def demo_chat_def demo_vars_def count_request_def Let_def)
  show ?thesis by (rule mp [OF conjunct1 [OF handlers_reject_alike] g])
qed

end
