(* ===== verification/Template_Props.thy ===== *)
theory Template_Props
  imports Template_Prompt Handlers
begin

section \<open>Properties of prompt building\<close>

subsection \<open>The translations of the surfaces against the message type\<close>

text \<open>C29: What the messages surface hands to the prompt builder is well typed: every message of its translation, whatever the client sent, reads as a chat message of the template.\<close>

theorem anthropic_messages_typed:
  "\<exists>cs. read_messages unexp (case system_message system of None \<Rightarrow> convert_messages msgs
     | Some s \<Rightarrow> s # convert_messages msgs) = Inr cs"
proof -
  have results: "\<forall>m \<in> set (fst (user_blocks bs)). \<exists>c. cm_from_json unexp m = Inr c" for bs
    by (induction bs rule: user_blocks.induct) (auto simp: Let_def cm_from_object_def split: prod.splits option.splits)
  have user: "\<exists>c. cm_from_json unexp m = Inr c" if "m \<in> set (convert_user_message u)" for m u
  proof -
    obtain rs ts where r: "(case (case json_get u ''content'' of None \<Rightarrow> JNull | Some c \<Rightarrow> c) of
        JStr s \<Rightarrow> ([], [s]) | JArr blocks \<Rightarrow> user_blocks blocks | _ \<Rightarrow> ([], [])) = (rs, ts)" by fastforce
    then have "\<forall>m \<in> set rs. \<exists>c. cm_from_json unexp m = Inr c"
      using results by (auto split: json.splits option.splits) (metis fst_conv)+
    with that r show ?thesis
      by (auto simp: convert_user_message_def Let_def cm_from_object_def split: if_splits)
  qed
  have assistant: "\<exists>c. cm_from_json unexp m = Inr c" if "m \<in> set (convert_assistant_message u)" for m u
    using that by (auto simp: convert_assistant_message_def Let_def cm_from_object_def split: prod.splits if_splits)
  have "\<forall>m \<in> set (convert_messages msgs). \<exists>c. cm_from_json unexp m = Inr c"
    using user assistant by (auto simp: convert_messages_def split: if_splits)
  moreover have "\<exists>c. cm_from_json unexp s = Inr c" if "system_message system = Some s" for s
    using that by (auto simp: system_message_def Let_def cm_from_object_def split: if_splits)
  ultimately show ?thesis by (intro read_messages_Inr) (auto split: option.splits)
qed

text \<open>The messages of the responses surface: a turn with \<open>tool_calls\<close> has no \<open>content\<close>.\<close>

definition call_turn :: "json list \<Rightarrow> json" where
  "call_turn arr = JObj [(''role'', JStr ''assistant''), (''tool_calls'', JArr arr)]"

definition turn_ok :: "(json \<Rightarrow> string) \<Rightarrow> json \<Rightarrow> bool" where
  "turn_ok unexp m \<longleftrightarrow>
     (\<exists>c. cm_from_json unexp m = Inr c) \<and> json_get m ''tool_calls'' = None \<or> (\<exists>arr. m = call_turn arr)"

lemma call_turn_unread: "cm_from_json unexp (call_turn arr) = Inl ''missing field `content`''"
  by (simp add: call_turn_def cm_from_object_def)

lemma push_tool_call_turns:
  assumes "\<forall>m \<in> set ms. turn_ok unexp m"
  shows "(\<forall>m \<in> set (push_tool_call ms call). turn_ok unexp m) \<and> (\<exists>arr. call_turn arr \<in> set (push_tool_call ms call))"
proof (cases "\<exists>arr. ms \<noteq> [] \<and> last ms = call_turn arr")
  case True
  then obtain arr where "ms \<noteq> []" "last ms = call_turn arr" by blast
  then have "push_tool_call ms call = butlast ms @ [call_turn (arr @ [call])]"
    by (simp add: push_tool_call_def call_turn_def)
  with assms show ?thesis by (auto simp: turn_ok_def dest: in_set_butlastD)
next
  case False
  then have "ms \<noteq> [] \<Longrightarrow> json_get (last ms) ''tool_calls'' = None"
    using assms last_in_set [of ms] by (auto simp: turn_ok_def)
  then have "push_tool_call ms call = ms @ [call_turn [call]]"
    by (auto simp: push_tool_call_def call_turn_def)
  with assms show ?thesis by (auto simp: turn_ok_def)
qed

lemma append_input_item_turns:
  assumes "\<forall>m \<in> set ms. turn_ok unexp m"
  shows "\<forall>m \<in> set (append_input_item from_str ms item). turn_ok unexp m"
    and "(\<exists>arr. call_turn arr \<in> set ms) \<or> get_str item ''type'' = Some ''function_call'' \<Longrightarrow>
      \<exists>arr. call_turn arr \<in> set (append_input_item from_str ms item)"
proof -
  have str: "as_str item = None" if "get_str item ''type'' = Some x" for x
    using that by (cases item) (simp_all add: get_str_def)
  have plain: "turn_ok unexp (JObj [(''role'', JStr r), (''content'', JStr c)])"
    "turn_ok unexp (JObj [(''role'', JStr r), (''tool_call_id'', JStr i), (''content'', JStr c)])" for r c i
    by (simp_all add: turn_ok_def cm_from_object_def)
  note p = push_tool_call_turns [OF assms]
  show "\<forall>m \<in> set (append_input_item from_str ms item). turn_ok unexp m"
    using assms p plain by (auto simp: append_input_item_def Let_def split: option.splits if_splits)
  show "\<exists>arr. call_turn arr \<in> set (append_input_item from_str ms item)"
    if "(\<exists>arr. call_turn arr \<in> set ms) \<or> get_str item ''type'' = Some ''function_call''"
    using that p str by (auto simp: append_input_item_def Let_def split: option.splits)
qed

lemma append_items_turns:
  "\<forall>m \<in> set ms. turn_ok unexp m \<Longrightarrow>
   (\<exists>arr. call_turn arr \<in> set ms) \<or> (\<exists>item \<in> set items. get_str item ''type'' = Some ''function_call'') \<Longrightarrow>
   (\<forall>m \<in> set (foldl (append_input_item from_str) ms items). turn_ok unexp m) \<and>
   (\<exists>arr. call_turn arr \<in> set (foldl (append_input_item from_str) ms items))"
proof (induction items arbitrary: ms)
  case (Cons item items)
  note a = append_input_item_turns [OF Cons.prems(1), where from_str = from_str and item = item]
  show ?case using Cons.IH [OF a(1)] a(2) Cons.prems(2) by auto
qed simp

text \<open>C1: The production prompt builder refuses every request to the responses surface whose input has a \<open>function_call\<close> item: the translation builds an assistant turn without \<open>content\<close>, which the template's message type requires. The client that sends back the history of a tool call, as the API asks, gets status 500; nothing is counted or submitted.\<close>

theorem responses_tool_history_rejected:
  assumes "st_prompt st = template_builder ji unexp tp"
    and "rr_input req = Some (JArr items)" "\<exists>item \<in> set items. get_str item ''type'' = Some ''function_call''"
  shows "responses quote ser from_str alive st req v =
    (Some (error_response 500 ''prompt build failed: bad message: missing field `content`''), v)"
proof -
  let ?start = "case rr_instructions req of
    Some s \<Rightarrow> if s = [] then [] else [JObj [(''role'', JStr ''system''), (''content'', JStr s)]] | None \<Rightarrow> []"
  let ?ms = "input_to_messages from_str (rr_instructions req) (JArr items)"
  have "\<forall>m \<in> set ?start. turn_ok unexp m"
    by (auto simp: turn_ok_def cm_from_object_def split: option.splits)
  from append_items_turns [OF this disjI2 [OF assms(3)], of from_str]
  have ms: "\<forall>m \<in> set ?ms. turn_ok unexp m" "\<exists>arr. call_turn arr \<in> set ?ms"
    by (simp_all add: input_to_messages_def)
  have "read_messages unexp ?ms = Inl (''bad message: '' @ ''missing field `content`'')"
    by (rule read_messages_Inl) (use ms call_turn_unread in \<open>auto simp: turn_ok_def\<close>)
  then have "pb_prompt_ids (st_prompt st) ?ms tools None = Inl (''bad message: '' @ ''missing field `content`'')" for tools
    by (simp add: assms(1) template_builder_def template_prompt_ids_def)
  moreover have "?ms \<noteq> []" using ms(2) by auto
  ultimately show ?thesis by (simp add: responses_def assms(2))
qed

subsection \<open>A concrete builder\<close>

text \<open>Values are JSON, the template prints the beginning-of-sequence token, the files are those of
  \<open>demo_files\<close>.\<close>

definition demo_str_arg :: "json list \<Rightarrow> jinja_error + string" where
  "demo_str_arg args = (case args of [JStr s] \<Rightarrow> Inr s | _ \<Rightarrow> Inl (Je_Other ''arguments''))"

definition demo_values :: "(json, bool option) jinja_values" where
  "demo_values =
     \<lparr>jv_kind = (\<lambda>v. if is_object v then Vk_Map else if as_str v \<noteq> None then Vk_String else Vk_Other),
      jv_as_str = as_str, jv_of_str = JStr, jv_of_bool = JBool, jv_of_list = (\<lambda>ss. JArr (map JStr ss)),
      jv_opt_str_arg = (\<lambda>args. if args = [] then Inr None else map_sum id Some (demo_str_arg args)),
      jv_str_arg = demo_str_arg,
      jv_replace_args = (\<lambda>args. case args of [JStr a, JStr b] \<Rightarrow> Inr (a, b, None) | _ \<Rightarrow> Inl (Je_Other ''arguments'')),
      jv_items = Inr, jv_to_json = (\<lambda>v. Inr (rfc_ser (\<lambda>_. []) v)), jv_ensure_ascii = Inr, jv_all_used = (\<lambda>_. Inr ())\<rparr>"

definition demo_jinja :: "(json, bool option) jinja" where
  "demo_jinja =
     \<lparr>ji_values = demo_values, ji_compile = (\<lambda>_ _. Inr ()),
      ji_render = (\<lambda>_ _ ctx. Inr (str_or [] (get_str ctx ''bos_token'')))\<rparr>"

definition demo_prompt :: "(json, bool option) template_prompt" where
  "demo_prompt =
     \<lparr>tp_tokenizer = \<lparr>ts_tokenizer = demo_tokenizer, ts_special = \<lparr>sp_bos = 0, sp_eos = [1, 130073], sp_pad = 1\<rparr>\<rparr>,
      tp_template = \<lparr>ct_env = build_environment demo_values, ct_source = ''T'',
        ct_source_path = Some [''model'', ''tokenizer_config.json'']\<rparr>,
      tp_bos = ''<s>''\<rparr>"

text \<open>It is what loading the directory gives.\<close>

lemma demo_prompt_loads: "template_prompt_new demo_jinja demo_files [''model''] = Inr demo_prompt"
proof -
  have ts: "ts_load demo_files [''model'', ''tokenizer.json''] =
      Inr \<lparr>ts_tokenizer = demo_tokenizer, ts_special = \<lparr>sp_bos = 0, sp_eos = [1, 130073], sp_pad = 1\<rparr>\<rparr>"
    using demo_load by (simp add: path_join_def)
  have files: "mf_read demo_files [''model'', ''chat_template.jinja''] = Inl ''missing''"
    "mf_read demo_files [''model'', ''tokenizer_config.json''] = Inr ''tokenizer_config.json''"
    "mf_parse demo_files ''tokenizer_config.json'' = Inr (JObj [(''bos_token'', JStr ''<s>''),
       (''eos_token'', JObj [(''content'', JStr ''</s>'')]), (''chat_template'', JStr ''T'')])"
    by (simp_all add: demo_files_def)
  have bos: "hf_id_to_token demo_tokenizer 0 = Some ''<s>''" by (simp add: demo_tokenizer_def)
  show ?thesis
    by (simp add: template_prompt_new_def ts Let_def ct_from_model_dir_def ct_from_config_def path_join_def files bos
        ct_compile_def with_source_path_def demo_jinja_def demo_prompt_def ts_special_tokens_def ts_id_to_token_def)
qed

definition demo_tool_request :: responses_request where
  "demo_tool_request =
     \<lparr>rr_model = None, rr_instructions = None,
      rr_input = Some (JArr
        [JObj [(''type'', JStr ''message''), (''role'', JStr ''user''), (''content'', JStr ''weather?'')],
         JObj [(''type'', JStr ''function_call''), (''call_id'', JStr ''c1''), (''name'', JStr ''w''), (''arguments'', JStr ''{}'')],
         JObj [(''type'', JStr ''function_call_output''), (''call_id'', JStr ''c1''), (''output'', JStr ''sunny'')]]),
      rr_max_output_tokens = None, rr_max_tokens = None, rr_temperature = None, rr_top_p = None, rr_stream = None,
      rr_tools = None, rr_tool_choice = None\<rparr>"

theorem responses_tool_history_rejected_witness:
  "responses rfc_quote (rfc_ser (\<lambda>_. [])) (\<lambda>_. None) (\<lambda>_. True)
     ((demo_state [])\<lparr>st_prompt := template_builder demo_jinja (\<lambda>_. []) demo_prompt\<rparr>) demo_tool_request demo_vars =
   (Some (error_response 500 ''prompt build failed: bad message: missing field `content`''), demo_vars)"
  by (rule responses_tool_history_rejected [where items = "case rr_input demo_tool_request of Some (JArr xs) \<Rightarrow> xs | _ \<Rightarrow> []"])
     (simp_all add: demo_tool_request_def get_str_def)

end
