(* ===== verification/Served.thy ===== *)
theory Served
  imports Scheduler_Props Generation_Props
begin

section \<open>From the scheduler to the reply\<close>

text \<open>
  The worker of \<open>minicpm-scheduler\<close> and the generation loop of \<open>minicpm-server/src/chat.rs\<close>
  together: what the worker put into a job's channel is what \<open>run_generation\<close> receives.
\<close>

text \<open>The content tokens of a job's log.\<close>

fun tokens_of :: "gen_event list \<Rightarrow> i32 list" where
  "tokens_of (Ge_Token t # evs) = t # tokens_of evs"
| "tokens_of _ = []"

lemma tokens_of_log [simp]:
  "tokens_of (map Ge_Token toks @ [Ge_Done r u]) = toks" "tokens_of (map Ge_Token toks @ [Ge_Failed e]) = toks"
  by (induction toks) simp_all

text \<open>What the reply to a conversation must be, given how its job ended.\<close>

fun reply_matches ::
  "(json \<Rightarrow> string) \<Rightarrow> call_doc \<Rightarrow> string \<Rightarrow> u32 \<Rightarrow> gen_event \<Rightarrow> gen_result \<Rightarrow> emission list \<Rightarrow> bool" where
  "reply_matches ser d tail n (Ge_Done fr u) r log \<longleftrightarrow>
     gr_error r = None \<and> gr_finish_reason r = fr \<and> gr_tool_calls r = doc_calls ser 0 d \<and>
     em_text log = doc_text d @ tail \<and> us_completion_tokens (gr_usage r) = us_completion_tokens u \<and>
     unat (us_completion_tokens u) \<le> max 1 (unat n) \<and>
     (fr = Fr_Length \<longrightarrow> unat (us_completion_tokens u) = max 1 (unat n))"
| "reply_matches ser d tail n (Ge_Failed e) r log \<longleftrightarrow>
     gr_error r = Some e \<and> gr_finish_reason r = Fr_Error \<and> last log = Em_Error e"
| "reply_matches ser d tail n (Ge_Token _) r log \<longleftrightarrow> False"

text \<open>C1: Scheduler and server together: whatever the engine, the clock and the other jobs do, when a job has ended whose client stayed, and its tokens decode to a conversation, the generation loop fed with that job's events returns, without a panic, a reply that matches how the job ended: the conversation's text and tool calls with the worker's finish reason and the worker's token count (within \<open>max_new_tokens\<close>, and equal to it when the reason is \<open>length\<close>), or the worker's error as the last thing the client sees.\<close>

theorem served_conversation:
  assumes "event_channel (en_port env) sent closed tag" "prefix_stable_decoder dec"
    and "\<forall>(rx, c) \<in> set ins. \<forall>j. rx = Rx_Job j \<longrightarrow>
      sent (job_port j) = [] \<and> gc_max_new_tokens (gj_config (job_inner j)) = tag (job_port j)"
    and "worker_run env ins (worker_init e m) = (True, w)" "p \<in> set (wk_done w)" "\<not> closed p"
    and "dec (map ucast (tokens_of (sent p))) = Inr (render_doc d @ tail)" "good_doc d" "CHR ''<'' \<notin> set tail"
  shows "\<exists>r log. run_generation quote ser dec (log_out (\<lambda>_. True)) [] n (sent p) [] = Some (r, log) \<and>
    reply_matches ser d tail (tag p) (last (sent p)) r log"
proof -
  obtain toks where t: "token_log (tag p) toks" and
    ends: "(\<exists>fr u. sent p = map Ge_Token toks @ [Ge_Done fr u] \<and> unat (us_completion_tokens u) = length toks \<and>
        (fr = Fr_Length \<longrightarrow> length toks = max 1 (unat (tag p)))) \<or>
      (\<exists>e. sent p = map Ge_Token toks @ [Ge_Failed e])"
    using job_log [OF assms(1,3,4,5)] assms(6) by (auto simp: ended_log_def)
  have plain: "set toks \<inter> set eos_ids = {}" using t by (simp add: token_log_def)
  from ends show ?thesis
  proof (elim disjE exE conjE)
    fix fr u assume s: "sent p = map Ge_Token toks @ [Ge_Done fr u]" "unat (us_completion_tokens u) = length toks"
      "fr = Fr_Length \<longrightarrow> length toks = max 1 (unat (tag p))"
    have "dec (map ucast toks) = Inr (render_doc d @ tail)" using assms(7) s(1) by simp
    note run = conversation_run [OF assms(2) this assms(8,9) plain, of quote ser n fr u "[]"]
    have "of_nat (length toks) = us_completion_tokens u" by (simp flip: s(2))
    with run s t show ?thesis by (fastforce simp: token_log_def)
  next
    fix e assume s: "sent p = map Ge_Token toks @ [Ge_Failed e]"
    with failed_run [OF assms(2) plain, of quote ser n e] show ?thesis by fastforce
  qed
qed

theorem served_conversation_witness:
  "\<exists>r log. run_generation rfc_quote (rfc_ser (\<lambda>_. [])) scripted_decode_ids (log_out (\<lambda>_. True)) [] 2
      [Ge_Token 172, Ge_Token 205, Ge_Done Fr_Length \<lparr>us_prompt_tokens = 2, us_completion_tokens = 2\<rparr>] [] = Some (r, log) \<and>
    gr_finish_reason r = Fr_Length \<and> us_completion_tokens (gr_usage r) = 2 \<and> em_text log = ''Hi''"
proof -
  let ?ins = "[(Rx_Job (demo_job 8 2 []), False), (Rx_Empty, False)]"
  let ?evs = "[Ge_Token 172, Ge_Token 205, Ge_Done Fr_Length \<lparr>us_prompt_tokens = 2, us_completion_tokens = 2\<rparr>]"
  let ?r = "worker_run (demo_env 1) ?ins (demo_init [172, 205])"
  have r: "?r = (True, snd ?r)"
    by (simp add: worker_run_defs step_run_defs demo_defs Let_def word_le_nat_alt)
  have "\<exists>p. wk_done (snd ?r) = [p] \<and> fp_sent p = ?evs \<and> fp_tag p = 2 \<and> \<not> fp_closed p"
    by (simp add: worker_run_defs step_run_defs demo_defs Let_def word_le_nat_alt)
  then obtain p where p: "wk_done (snd ?r) = [p]" "fp_sent p = ?evs" "fp_tag p = 2" "\<not> fp_closed p" by blast
  have e: "event_channel (en_port (demo_env 1)) fp_sent fp_closed fp_tag"
    using fifo.event_channel_axioms by (simp add: demo_env_def)
  have d: "scripted_decode_ids (map ucast (tokens_of (fp_sent p))) = Inr (render_doc [] @ ''Hi'')"
    by (simp add: p(2) scripted_decode_ids_def id_to_char_def utf8_encode_def char_of_eq_iff)
  have "\<exists>r log. run_generation rfc_quote (rfc_ser (\<lambda>_. [])) scripted_decode_ids (log_out (\<lambda>_. True)) [] 2 (fp_sent p) [] =
      Some (r, log) \<and> reply_matches (rfc_ser (\<lambda>_. [])) [] ''Hi'' (fp_tag p) (last (fp_sent p)) r log"
    by (rule served_conversation [OF e scripted.prefix_stable_decoder_axioms _ r [unfolded demo_init_def] _ p(4) d])
       (use p(1) in \<open>auto simp: demo_job_def fifo_new_def demo_init_def good_doc_def\<close>)
  then show ?thesis using p(2) by auto
qed

end
