(* ===== verification/Native_Open.thy ===== *)
theory Native_Open
  imports Native Tokenizer
begin

section \<open>Opening the native library\<close>

text \<open>
  \<open>NativeRuntime::open\<close> and \<open>NativeEngine::load\<close> of \<open>minicpm-runtime/src/native.rs\<close>. The dynamic
  loader (\<open>libloading\<close>) is the parameter \<open>loader\<close>: opening a path yields a library or an error,
  looking a name up yields an address or an error, and a table of addresses gives typed
  functions, as the transmutes of the source do.
\<close>

record ('l, 'w) loader =
  ld_open :: "path \<Rightarrow> 'w \<Rightarrow> (string + 'l) \<times> 'w"
  ld_get :: "'l \<Rightarrow> string \<Rightarrow> string + ptr"
  ld_bind :: "(string \<Rightarrow> ptr option) \<Rightarrow> 'w native_api"

text \<open>The names in the order in which the fields of \<open>NativeApi\<close> are filled.\<close>

definition native_symbols :: "string list" where
  "native_symbols =
     [''mc_model_load'', ''mc_model_destroy'', ''mc_session_create'', ''mc_session_reset'',
      ''mc_session_destroy'', ''mc_prefill'', ''mc_decode_one'', ''mc_get_stats'', ''mc_last_error'',
      ''mc_batch_group_create'', ''mc_batch_group_add'', ''mc_batch_group_remove'', ''mc_batch_step'',
      ''mc_batch_group_destroy'']"

text \<open>\<open>*lib.get(name)?\<close> one after the other.\<close>

fun resolve_symbols :: "(string \<Rightarrow> string + ptr) \<Rightarrow> string list \<Rightarrow> string + (string \<times> ptr) list" where
  "resolve_symbols get [] = Inr []"
| "resolve_symbols get (n # ns) =
     (case get n of
        Inl e \<Rightarrow> Inl e
      | Inr a \<Rightarrow> (case resolve_symbols get ns of Inl e \<Rightarrow> Inl e | Inr tbl \<Rightarrow> Inr ((n, a) # tbl)))"

definition runtime_open :: "('l, 'w) loader \<Rightarrow> path \<Rightarrow> 'w \<Rightarrow> (string + 'w native_api) \<times> 'w" where
  "runtime_open ld p w =
     (let (r, w1) = ld_open ld p w in
      case r of
        Inl e \<Rightarrow> (Inl (''failed to dlopen `'' @ path_show p @ ''`: '' @ e), w1)
      | Inr lib \<Rightarrow>
          (case resolve_symbols (ld_get ld lib) native_symbols of
             Inl e \<Rightarrow> (Inl e, w1)
           | Inr tbl \<Rightarrow> (Inr (ld_bind ld (map_of tbl)), w1)))"

definition engine_load ::
  "('l, 'w) loader \<Rightarrow> path \<Rightarrow> string \<Rightarrow> mc_model_options \<Rightarrow> 'w \<Rightarrow> (string + 'w native_api \<times> native_model) \<times> 'w" where
  "engine_load ld lib_path dir opts w =
     (let (r, w1) = runtime_open ld lib_path w in
      case r of
        Inl e \<Rightarrow> (Inl e, w1)
      | Inr api \<Rightarrow>
          (let (q, w2) = load_model api dir opts w1 in
           case q of Inl e \<Rightarrow> (Inl e, w2) | Inr m \<Rightarrow> (Inr (api, m), w2)))"

lemma resolve_Inr:
  "resolve_symbols get ns = Inr tbl \<Longrightarrow> map fst tbl = ns \<and> (\<forall>(n, a) \<in> set tbl. get n = Inr a)"
  by (induction ns arbitrary: tbl) (auto split: sum.splits)

text \<open>The error is that of the first name that is missing.\<close>

lemma resolve_Inl:
  "resolve_symbols get ns = Inl e \<Longrightarrow>
   \<exists>pre n post. ns = pre @ n # post \<and> (\<forall>m \<in> set pre. \<exists>a. get m = Inr a) \<and> get n = Inl e"
proof (induction ns)
  case (Cons n ns)
  show ?case
  proof (cases "get n")
    case (Inl e')
    with Cons.prems show ?thesis by (intro exI [of _ "[]"] exI [of _ n] exI [of _ ns]) simp
  next
    case (Inr a)
    with Cons.prems have "resolve_symbols get ns = Inl e" by (auto split: sum.splits)
    with Cons.IH obtain pre k post where
      "ns = pre @ k # post \<and> (\<forall>m \<in> set pre. \<exists>a. get m = Inr a) \<and> get k = Inl e" by blast
    with Inr show ?thesis by (intro exI [of _ "n # pre"] exI [of _ k] exI [of _ post]) simp
  qed
qed simp

text \<open>An open library has every entry point the batch path needs, at the address it exports.\<close>

lemma runtime_open_complete:
  assumes "runtime_open ld p w = (Inr api, w1)"
  obtains lib tbl where "ld_open ld p w = (Inr lib, w1)" "api = ld_bind ld tbl"
    "\<forall>n \<in> set native_symbols. \<exists>a. ld_get ld lib n = Inr a \<and> tbl n = Some a"
proof -
  from assms obtain lib tbl where o: "ld_open ld p w = (Inr lib, w1)"
    "resolve_symbols (ld_get ld lib) native_symbols = Inr tbl" "api = ld_bind ld (map_of tbl)"
    by (auto simp: runtime_open_def split: prod.splits sum.splits)
  note t = resolve_Inr [OF o(2)]
  have "\<exists>a. ld_get ld lib n = Inr a \<and> map_of tbl n = Some a" if "n \<in> set native_symbols" for n
  proof -
    from that t have "n \<in> fst ` set tbl" by (metis set_map)
    then obtain a where a: "map_of tbl n = Some a" by (meson map_of_eq_None_iff not_Some_eq)
    with t show ?thesis by (fastforce dest: map_of_SomeD)
  qed
  with o that show thesis by blast
qed

lemma engine_load_Inr:
  assumes "engine_load ld lib_path dir opts w = (Inr (api, m), w2)"
  shows "\<exists>w1. runtime_open ld lib_path w = (Inr api, w1) \<and> load_model api dir opts w1 = (Inr m, w2)"
  using assms by (auto simp: engine_load_def split: prod.splits sum.splits)

lemma load_model_tier:
  "load_model api dir opts w = (Inr m, w1) \<Longrightarrow>
   nm_handle m \<noteq> 0 \<and> nm_max_context_tokens m = mo_max_context_tokens opts \<and> CHR 0x00 \<notin> set dir"
  by (auto simp: load_model_def Let_def split: prod.splits sum.splits if_splits)

end
