(* ===== verification/Native_Own.thy ===== *)
theory Native_Own
  imports Native "HOL-Library.Multiset"
begin

section \<open>Ownership of the native library's handles\<close>

text \<open>
  The other half of \<open>minicpm-runtime/src/native.rs\<close>: who keeps the shared library, the model,
  the sessions and the batch groups alive, and when the destructors run. A \<open>NativeApi\<close> and a
  \<open>ModelInner\<close> are behind an \<open>Arc\<close>, modelled by its strong count; a \<open>Session\<close> and a
  \<open>NativeBatchGroup\<close> hold one reference to each; a \<open>ModelInner\<close> holds one to the \<open>NativeApi\<close>.
  A drop runs the \<open>Drop\<close> body and then releases the fields in declaration order. The client is
  any sequence of operations on the values that it owns, which is what Rust's type system lets
  safe code do; the library is the parameter \<open>native_api\<close>. Every call of the library that
  matters to a lifetime is recorded.
\<close>

datatype child = Ch_Session | Ch_Group

text \<open>An owned value: a \<open>NativeRuntime\<close>, a \<open>Model\<close> (or a \<open>NativeEngine\<close>, which wraps one), a
  \<open>Session\<close> or \<open>NativeBatchGroup\<close> of the model \<open>k\<close>. A model is named by its \<open>Arc\<close> allocation.\<close>

datatype native_value = Nv_Runtime | Nv_Model nat | Nv_Child child nat ptr

datatype lib_call =
    Lc_Load "nat option"
  | Lc_Model_Destroy nat
  | Lc_Create child nat "ptr option"
  | Lc_Use child nat ptr
  | Lc_Destroy child nat ptr
  | Lc_Close

record model_inner =
  mi_model :: native_model
  mi_refs :: nat

record 'w owned =
  ow_world :: 'w
  ow_api_refs :: nat
  ow_inners :: "model_inner list"
  ow_values :: "native_value multiset"
  ow_calls :: "lib_call list"

subsection \<open>Reference counts and drops\<close>

definition lib_log :: "lib_call \<Rightarrow> 'w owned \<Rightarrow> 'w owned" where
  "lib_log c s = s\<lparr>ow_calls := ow_calls s @ [c]\<rparr>"

definition api_clone :: "'w owned \<Rightarrow> 'w owned" where
  "api_clone s = s\<lparr>ow_api_refs := ow_api_refs s + 1\<rparr>"

text \<open>The last \<open>Arc<NativeApi>\<close> drops the \<open>Library\<close>, which is unloaded.\<close>

definition api_release :: "'w owned \<Rightarrow> 'w owned" where
  "api_release s =
     (let s1 = s\<lparr>ow_api_refs := ow_api_refs s - 1\<rparr>
      in if ow_api_refs s1 = 0 then lib_log Lc_Close s1 else s1)"

definition set_refs :: "nat \<Rightarrow> nat \<Rightarrow> 'w owned \<Rightarrow> 'w owned" where
  "set_refs k n s = s\<lparr>ow_inners := (ow_inners s)[k := (ow_inners s ! k)\<lparr>mi_refs := n\<rparr>]\<rparr>"

definition model_clone :: "nat \<Rightarrow> 'w owned \<Rightarrow> 'w owned" where
  "model_clone k s = set_refs k (mi_refs (ow_inners s ! k) + 1) s"

text \<open>The last \<open>Arc<ModelInner>\<close>: \<open>Drop for ModelInner\<close>, then its \<open>api\<close> field.\<close>

definition model_release :: "'w native_api \<Rightarrow> nat \<Rightarrow> 'w owned \<Rightarrow> 'w owned" where
  "model_release api k s =
     (let s1 = set_refs k (mi_refs (ow_inners s ! k) - 1) s
      in if mi_refs (ow_inners s1 ! k) = 0
         then api_release (lib_log (Lc_Model_Destroy k)
                (s1\<lparr>ow_world := na_model_destroy api (nm_handle (mi_model (ow_inners s1 ! k))) (ow_world s1)\<rparr>))
         else s1)"

fun child_destroy :: "'w native_api \<Rightarrow> child \<Rightarrow> ptr \<Rightarrow> 'w \<Rightarrow> 'w" where
  "child_destroy api Ch_Session h w = na_session_destroy api h w"
| "child_destroy api Ch_Group h w = na_batch_group_destroy api h w"

fun drop_value :: "'w native_api \<Rightarrow> native_value \<Rightarrow> 'w owned \<Rightarrow> 'w owned" where
  "drop_value api Nv_Runtime s = api_release s"
| "drop_value api (Nv_Model k) s = model_release api k s"
| "drop_value api (Nv_Child c k h) s =
     model_release api k (api_release
       (lib_log (Lc_Destroy c k h) (s\<lparr>ow_world := child_destroy api c h (ow_world s)\<rparr>)))"

subsection \<open>Operations on owned values\<close>

definition give :: "native_value \<Rightarrow> 'w owned \<Rightarrow> 'w owned" where
  "give v s = s\<lparr>ow_values := add_mset v (ow_values s)\<rparr>"

definition inner_model :: "'w owned \<Rightarrow> nat \<Rightarrow> native_model" where
  "inner_model s k = mi_model (ow_inners s ! k)"

definition own_load :: "'w native_api \<Rightarrow> string \<Rightarrow> mc_model_options \<Rightarrow> 'w owned \<Rightarrow> 'w owned" where
  "own_load api dir opts s =
     (let (r, w) = load_model api dir opts (ow_world s); s1 = s\<lparr>ow_world := w\<rparr>; k = length (ow_inners s)
      in case r of
           Inl _ \<Rightarrow> lib_log (Lc_Load None) s1
         | Inr m \<Rightarrow>
             give (Nv_Model k)
               ((api_clone (lib_log (Lc_Load (Some k)) s1))
                  \<lparr>ow_inners := ow_inners s @ [\<lparr>mi_model = m, mi_refs = 1\<rparr>]\<rparr>))"

definition own_child :: "child \<Rightarrow> nat \<Rightarrow> (string + ptr) \<times> 'w \<Rightarrow> 'w owned \<Rightarrow> 'w owned" where
  "own_child c k r s =
     (let s1 = s\<lparr>ow_world := snd r\<rparr>
      in case fst r of
           Inl _ \<Rightarrow> lib_log (Lc_Create c k None) s1
         | Inr h \<Rightarrow>
             give (Nv_Child c k h) (model_clone k (api_clone (lib_log (Lc_Create c k (Some h)) s1))))"

datatype session_call = Sc_Prefill "i32 list" | Sc_Decode gen_config | Sc_Reset | Sc_Stats

fun run_session_call :: "'w native_api \<Rightarrow> ptr \<Rightarrow> session_call \<Rightarrow> 'w \<Rightarrow> 'w" where
  "run_session_call api h (Sc_Prefill ids) w = snd (native_prefill api h ids w)"
| "run_session_call api h (Sc_Decode c) w = snd (native_decode_one api h c w)"
| "run_session_call api h Sc_Reset w = snd (native_reset api h w)"
| "run_session_call api h Sc_Stats w = snd (native_stats api h w)"

datatype owner_act =
    Oa_Load string mc_model_options
  | Oa_Clone nat
  | Oa_Create_Session nat
  | Oa_Create_Group nat batch_group_options
  | Oa_Session nat ptr session_call
  | Oa_Add nat ptr nat ptr
  | Oa_Remove nat ptr u32
  | Oa_Step nat ptr "u32 list" "gen_config list"
  | Oa_Drop native_value

text \<open>The values an operation borrows or consumes: the caller must own them.\<close>

fun needs :: "owner_act \<Rightarrow> native_value list" where
  "needs (Oa_Load _ _) = [Nv_Runtime]"
| "needs (Oa_Clone k) = [Nv_Model k]"
| "needs (Oa_Create_Session k) = [Nv_Model k]"
| "needs (Oa_Create_Group k _) = [Nv_Model k]"
| "needs (Oa_Session k h _) = [Nv_Child Ch_Session k h]"
| "needs (Oa_Add k g j h) = [Nv_Child Ch_Group k g, Nv_Child Ch_Session j h]"
| "needs (Oa_Remove k g _) = [Nv_Child Ch_Group k g]"
| "needs (Oa_Step k g _ _) = [Nv_Child Ch_Group k g]"
| "needs (Oa_Drop v) = [v]"

fun own_act :: "'w native_api \<Rightarrow> owner_act \<Rightarrow> 'w owned \<Rightarrow> 'w owned" where
  "own_act api (Oa_Load dir opts) s = own_load api dir opts s"
| "own_act api (Oa_Clone k) s = give (Nv_Model k) (model_clone k s)"
| "own_act api (Oa_Create_Session k) s =
     own_child Ch_Session k (native_create_session api (inner_model s k) (ow_world s)) s"
| "own_act api (Oa_Create_Group k opts) s =
     own_child Ch_Group k (native_create_batch_group api (inner_model s k) opts (ow_world s)) s"
| "own_act api (Oa_Session k h c) s =
     lib_log (Lc_Use Ch_Session k h) (s\<lparr>ow_world := run_session_call api h c (ow_world s)\<rparr>)"
| "own_act api (Oa_Add k g j h) s =
     lib_log (Lc_Use Ch_Session j h) (lib_log (Lc_Use Ch_Group k g)
       (s\<lparr>ow_world := snd (native_group_add api g h (ow_world s))\<rparr>))"
| "own_act api (Oa_Remove k g slot) s =
     lib_log (Lc_Use Ch_Group k g) (s\<lparr>ow_world := snd (native_group_remove api g slot (ow_world s))\<rparr>)"
| "own_act api (Oa_Step k g slots cfgs) s =
     lib_log (Lc_Use Ch_Group k g) (s\<lparr>ow_world := snd (native_group_step api g slots cfgs (ow_world s))\<rparr>)"
| "own_act api (Oa_Drop v) s = drop_value api v (s\<lparr>ow_values := ow_values s - {#v#}\<rparr>)"

definition own_do :: "'w native_api \<Rightarrow> owner_act \<Rightarrow> 'w owned \<Rightarrow> 'w owned" where
  "own_do api a s = (if list_all (\<lambda>v. v \<in># ow_values s) (needs a) then own_act api a s else s)"

text \<open>After \<open>NativeRuntime::open\<close>.\<close>

definition own_open :: "'w \<Rightarrow> 'w owned" where
  "own_open w = \<lparr>ow_world = w, ow_api_refs = 1, ow_inners = [], ow_values = {#Nv_Runtime#}, ow_calls = []\<rparr>"

definition own_run :: "'w native_api \<Rightarrow> owner_act list \<Rightarrow> 'w \<Rightarrow> 'w owned" where
  "own_run api acts w = fold (own_do api) acts (own_open w)"

subsection \<open>What the library requires\<close>

text \<open>The rules of the header: no call once the library is unloaded; a handle is used between its
  creation and its only destruction; a model outlives its sessions and groups.\<close>

record lib_view =
  lv_open :: bool
  lv_models :: "nat set"
  lv_children :: "(child \<times> nat \<times> ptr) multiset"

definition lib_opened :: lib_view where
  "lib_opened = \<lparr>lv_open = True, lv_models = {}, lv_children = {#}\<rparr>"

fun lib_legal :: "lib_view \<Rightarrow> lib_call \<Rightarrow> bool" where
  "lib_legal v (Lc_Load (Some k)) \<longleftrightarrow> lv_open v \<and> k \<notin> lv_models v"
| "lib_legal v (Lc_Load None) \<longleftrightarrow> lv_open v"
| "lib_legal v (Lc_Model_Destroy k) \<longleftrightarrow>
     lv_open v \<and> k \<in> lv_models v \<and> k \<notin> (fst \<circ> snd) ` set_mset (lv_children v)"
| "lib_legal v (Lc_Create c k _) \<longleftrightarrow> lv_open v \<and> k \<in> lv_models v"
| "lib_legal v (Lc_Use c k h) \<longleftrightarrow> lv_open v \<and> (c, k, h) \<in># lv_children v"
| "lib_legal v (Lc_Destroy c k h) \<longleftrightarrow> lv_open v \<and> (c, k, h) \<in># lv_children v"
| "lib_legal v Lc_Close \<longleftrightarrow> lv_open v \<and> lv_models v = {} \<and> lv_children v = {#}"

fun lib_effect :: "lib_call \<Rightarrow> lib_view \<Rightarrow> lib_view" where
  "lib_effect (Lc_Load (Some k)) v = v\<lparr>lv_models := insert k (lv_models v)\<rparr>"
| "lib_effect (Lc_Model_Destroy k) v = v\<lparr>lv_models := lv_models v - {k}\<rparr>"
| "lib_effect (Lc_Create c k (Some h)) v = v\<lparr>lv_children := add_mset (c, k, h) (lv_children v)\<rparr>"
| "lib_effect (Lc_Destroy c k h) v = v\<lparr>lv_children := lv_children v - {#(c, k, h)#}\<rparr>"
| "lib_effect Lc_Close v = v\<lparr>lv_open := False\<rparr>"
| "lib_effect _ v = v"

fun lib_run :: "lib_view \<Rightarrow> lib_call list \<Rightarrow> lib_view option" where
  "lib_run v [] = Some v"
| "lib_run v (c # cs) = (if lib_legal v c then lib_run (lib_effect c v) cs else None)"

lemma lib_run_snoc:
  "lib_run v (cs @ [c]) =
     (case lib_run v cs of None \<Rightarrow> None | Some u \<Rightarrow> if lib_legal u c then Some (lib_effect c u) else None)"
  by (induction cs arbitrary: v) auto

subsection \<open>The invariant\<close>

fun owner :: "native_value \<Rightarrow> nat option" where
  "owner Nv_Runtime = None" | "owner (Nv_Model k) = Some k" | "owner (Nv_Child _ k _) = Some k"

fun holds_api :: "native_value \<Rightarrow> bool" where
  "holds_api Nv_Runtime = True" | "holds_api (Nv_Model _) = False" | "holds_api (Nv_Child _ _ _) = True"

fun child_of :: "native_value \<Rightarrow> (child \<times> nat \<times> ptr) multiset" where
  "child_of (Nv_Child c k h) = {#(c, k, h)#}" | "child_of _ = {#}"

definition children :: "native_value multiset \<Rightarrow> (child \<times> nat \<times> ptr) multiset" where
  "children M = \<Sum>\<^sub># (image_mset child_of M)"

definition owners :: "native_value multiset \<Rightarrow> nat \<Rightarrow> nat" where
  "owners M k = size {#v \<in># M. owner v = Some k#}"

definition owned_models :: "native_value multiset \<Rightarrow> nat set" where
  "owned_models M = {k. \<exists>v \<in># M. owner v = Some k}"

definition live_inners :: "model_inner list \<Rightarrow> nat" where
  "live_inners is = length (filter (\<lambda>i. 0 < mi_refs i) is)"

definition model_refs :: "'w owned \<Rightarrow> nat \<Rightarrow> nat" where
  "model_refs s k = (if k < length (ow_inners s) then mi_refs (ow_inners s ! k) else 0)"

text \<open>The counts are those of the values \<open>M\<close>, with one more reference to the model \<open>e\<close>; the
  library's view is that of \<open>M\<close>.\<close>

definition settled :: "native_value multiset \<Rightarrow> nat option \<Rightarrow> 'w owned \<Rightarrow> bool" where
  "settled M e s \<longleftrightarrow>
     (\<forall>k. model_refs s k = owners M k + of_bool (e = Some k)) \<and>
     ow_api_refs s = size (filter_mset holds_api M) + live_inners (ow_inners s) \<and>
     lib_run lib_opened (ow_calls s) =
       Some \<lparr>lv_open = 0 < ow_api_refs s, lv_models = {k. 0 < model_refs s k}, lv_children = children M\<rparr>"

lemma children_simps [simp]:
  "children {#} = {#}" "children (add_mset v M) = child_of v + children M"
  by (simp_all add: children_def)

lemma owners_simps [simp]:
  "owners {#} k = 0" "owners (add_mset v M) k = owners M k + of_bool (owner v = Some k)"
  by (simp_all add: owners_def)

lemma in_children: "(c, k, h) \<in># children M \<longleftrightarrow> Nv_Child c k h \<in># M"
proof (induction M)
  case (add v M)
  then show ?case by (cases v) auto
qed simp

lemma filter_mset_empty_conv: "filter_mset P M = {#} \<longleftrightarrow> (\<forall>x \<in># M. \<not> P x)"
  by (induction M) auto

lemma owners_pos: "0 < owners M k \<longleftrightarrow> (\<exists>v \<in># M. owner v = Some k)"
  by (auto simp: owners_def filter_mset_empty_conv nonempty_has_size [symmetric])

lemma child_owned: "x \<in># children M \<Longrightarrow> 0 < owners M (fst (snd x))"
  by (cases x) (auto simp: in_children owners_pos intro: bexI [of _ "Nv_Child _ _ _"])

lemma live_update:
  "k < length is \<Longrightarrow>
   live_inners (is[k := i]) + of_bool (0 < mi_refs (is ! k)) = live_inners is + of_bool (0 < mi_refs i)"
proof (induction "is" arbitrary: k)
  case (Cons j js)
  then show ?case by (cases k) (auto simp: live_inners_def)
qed simp

lemma live_pos: "k < length is \<Longrightarrow> 0 < mi_refs (is ! k) \<Longrightarrow> 0 < live_inners is"
  by (auto simp: live_inners_def filter_empty_conv intro: nth_mem)

lemma model_refs_set [simp]:
  "model_refs (set_refs k n s) j = (if j = k \<and> k < length (ow_inners s) then n else model_refs s j)"
  by (auto simp: model_refs_def set_refs_def nth_list_update)

lemma set_refs_simps [simp]:
  "ow_api_refs (set_refs k n s) = ow_api_refs s" "ow_calls (set_refs k n s) = ow_calls s"
  "ow_values (set_refs k n s) = ow_values s" "length (ow_inners (set_refs k n s)) = length (ow_inners s)"
  by (simp_all add: set_refs_def)

lemma model_refs_fields [simp]:
  "model_refs (lib_log c s) k = model_refs s k" "model_refs (api_clone s) k = model_refs s k"
  "model_refs (give v s) k = model_refs s k" "model_refs (s\<lparr>ow_world := w\<rparr>) k = model_refs s k"
  "model_refs (s\<lparr>ow_values := M\<rparr>) k = model_refs s k" "model_refs (api_release s) k = model_refs s k"
  by (simp_all add: model_refs_def lib_log_def api_clone_def give_def api_release_def Let_def)

lemma owned_fields [simp]:
  "ow_api_refs (lib_log c s) = ow_api_refs s" "ow_inners (lib_log c s) = ow_inners s"
  "ow_values (lib_log c s) = ow_values s" "ow_calls (lib_log c s) = ow_calls s @ [c]"
  "ow_api_refs (api_clone s) = ow_api_refs s + 1" "ow_inners (api_clone s) = ow_inners s"
  "ow_values (api_clone s) = ow_values s" "ow_calls (api_clone s) = ow_calls s"
  "ow_api_refs (give v s) = ow_api_refs s" "ow_inners (give v s) = ow_inners s"
  "ow_values (give v s) = add_mset v (ow_values s)" "ow_calls (give v s) = ow_calls s"
  "ow_api_refs (api_release s) = ow_api_refs s - 1" "ow_inners (api_release s) = ow_inners s"
  "ow_values (api_release s) = ow_values s"
  by (simp_all add: lib_log_def api_clone_def give_def api_release_def Let_def)

lemma settled_values [simp]: "settled M e (s\<lparr>ow_values := N\<rparr>) = settled M e s"
  by (simp add: settled_def)

lemma settled_world [simp]: "settled M e (s\<lparr>ow_world := w\<rparr>) = settled M e s"
  by (simp add: settled_def)

lemma settled_give [simp]: "settled M e (give v s) = settled M e s"
  by (simp add: settled_def)

text \<open>While a value is owned, the library is loaded.\<close>

lemma settled_open:
  assumes "settled M e s" and "M \<noteq> {#} \<or> e \<noteq> None"
  shows "0 < ow_api_refs s"
proof -
  have k: "0 < live_inners (ow_inners s)" if "0 < model_refs s k" for k
    using that live_pos by (auto simp: model_refs_def split: if_splits)
  from assms(2) consider v where "v \<in># M" | j where "e = Some j" by (auto simp: multiset_nonemptyE)
  then show ?thesis
  proof cases
    case (1 v)
    show ?thesis
    proof (cases "holds_api v")
      case True
      then have "0 < size (filter_mset holds_api M)"
        using 1 by (auto simp: filter_mset_empty_conv nonempty_has_size [symmetric])
      with assms(1) show ?thesis unfolding settled_def by linarith
    next
      case False
      then obtain j where "v = Nv_Model j" by (cases v) auto
      with 1 have "0 < owners M j" unfolding owners_pos by (intro bexI [of _ "Nv_Model j"]) simp_all
      with assms(1) k [of j] show ?thesis by (auto simp: settled_def)
    qed
  next
    case (2 j)
    with assms(1) k [of j] show ?thesis by (auto simp: settled_def)
  qed
qed

lemma settled_refs: "settled M e s \<Longrightarrow> model_refs s k = owners M k + of_bool (e = Some k)"
  by (simp add: settled_def)

lemma settled_view:
  "settled M e s \<Longrightarrow> lib_run lib_opened (ow_calls s) =
     Some \<lparr>lv_open = 0 < ow_api_refs s, lv_models = {k. 0 < model_refs s k}, lv_children = children M\<rparr>"
  by (simp add: settled_def)

lemma settled_refs_len: "settled M e s \<Longrightarrow> 0 < owners M k + of_bool (e = Some k) \<Longrightarrow> k < length (ow_inners s)"
  using settled_refs [of M e s k] by (auto simp: model_refs_def split: if_splits)

text \<open>A call that changes nothing but the library's world.\<close>

lemma settled_log:
  assumes "settled M e s" and "M \<noteq> {#} \<or> e \<noteq> None"
    and "\<And>u. lib_effect c u = u"
    and "lib_legal \<lparr>lv_open = True, lv_models = {k. 0 < model_refs s k}, lv_children = children M\<rparr> c"
  shows "settled M e (lib_log c s)"
  using assms settled_open [OF assms(1,2)] by (auto simp: settled_def lib_run_snoc)

subsection \<open>Every operation keeps the invariant\<close>

lemma settled_api_release:
  assumes "settled (add_mset Nv_Runtime M) e s"
  shows "settled M e (api_release s)"
proof -
  have r: "ow_api_refs s = size (filter_mset holds_api M) + 1 + live_inners (ow_inners s)"
    using assms by (simp add: settled_def)
  have o: "0 < ow_api_refs s" using r by simp
  show ?thesis
  proof (cases "ow_api_refs s = 1")
    case False
    then have "ow_calls (api_release s) = ow_calls s" using o by (auto simp: api_release_def Let_def)
    moreover have "0 < size (filter_mset holds_api M) + live_inners (ow_inners s)" using False o r by linarith
    moreover have "ow_api_refs s - 1 = size (filter_mset holds_api M) + live_inners (ow_inners s)" using r by simp
    ultimately show ?thesis
      using settled_view [OF assms] settled_refs [OF assms] o unfolding settled_def by simp
  next
    case True
    with r have z: "size (filter_mset holds_api M) = 0" "live_inners (ow_inners s) = 0" by auto
    then have no: "model_refs s k = 0" for k
      using live_pos [of k "ow_inners s"] by (auto simp: model_refs_def)
    have "children M = {#}"
    proof -
      have "v \<notin># children M" for v
        using child_owned [of v M] no [of "fst (snd v)"] settled_refs [OF assms, of "fst (snd v)"] by auto
      then show ?thesis by (meson multiset_nonemptyE)
    qed
    moreover have "ow_calls (api_release s) = ow_calls s @ [Lc_Close]"
      using True by (simp add: api_release_def)
    ultimately show ?thesis using assms z no by (simp add: settled_def lib_run_snoc True)
  qed
qed

lemma settled_model_release:
  assumes "settled M (Some k) s"
  shows "settled M None (model_release api k s)"
proof -
  let ?n = "mi_refs (ow_inners s ! k)" and ?s1 = "set_refs k (mi_refs (ow_inners s ! k) - 1) s"
  have k: "k < length (ow_inners s)" using settled_refs_len [OF assms, of k] by simp
  have n: "?n = owners M k + 1" using settled_refs [OF assms, of k] k by (simp add: model_refs_def)
  have refs: "model_refs ?s1 j = owners M j" for j
    using settled_refs [OF assms, of j] k n by auto
  have live: "live_inners (ow_inners ?s1) + 1 = live_inners (ow_inners s) + of_bool (0 < owners M k)"
    using live_update [OF k, of "(ow_inners s ! k)\<lparr>mi_refs := ?n - 1\<rparr>"] n by (simp add: set_refs_def)
  have k1: "mi_refs (ow_inners ?s1 ! k) = owners M k" using refs [of k] k by (simp add: model_refs_def)
  note api = assms [unfolded settled_def, THEN conjunct2, THEN conjunct1]
  note view = settled_view [OF assms]
  have models: "{j. 0 < model_refs s j} = insert k {j. 0 < owners M j}"
    using settled_refs [OF assms] by auto
  show ?thesis
  proof (cases "owners M k = 0")
    case False
    then have "model_release api k s = ?s1" using k1 by (simp add: model_release_def Let_def)
    moreover have "{j. 0 < model_refs s j} = {j. 0 < owners M j}" using models False by auto
    ultimately show ?thesis using refs live False api view by (simp add: settled_def)
  next
    case True
    let ?s2 = "lib_log (Lc_Model_Destroy k) (?s1\<lparr>ow_world :=
      na_model_destroy api (nm_handle (mi_model (ow_inners ?s1 ! k))) (ow_world ?s1)\<rparr>)"
    have "model_release api k s = api_release ?s2" using k1 True by (simp add: model_release_def Let_def)
    moreover have "settled (add_mset Nv_Runtime M) None ?s2"
    proof -
      have "k \<notin> (fst \<circ> snd) ` set_mset (children M)" using child_owned [of _ M] True by fastforce
      moreover have "{j. 0 < owners M j} = insert k {j. 0 < owners M j} - {k}" using True by auto
      moreover have "ow_api_refs s = size (filter_mset holds_api M) + 1 + live_inners (ow_inners ?s1)"
        using api live True by simp
      ultimately show ?thesis using view models refs by (simp add: settled_def lib_run_snoc)
    qed
    ultimately show ?thesis by (simp add: settled_api_release)
  qed
qed

lemma settled_drop:
  assumes "settled (add_mset v M) None s"
  shows "settled M None (drop_value api v s)"
proof (cases v)
  case Nv_Runtime
  with assms show ?thesis by (simp add: settled_api_release)
next
  case (Nv_Model k)
  with assms have "settled M (Some k) s" by (simp add: settled_def eq_commute)
  with Nv_Model show ?thesis by (simp add: settled_model_release)
next
  case (Nv_Child c k h)
  let ?s1 = "lib_log (Lc_Destroy c k h) (s\<lparr>ow_world := child_destroy api c h (ow_world s)\<rparr>)"
  have "0 < ow_api_refs s" using settled_open [OF assms] by simp
  then have "settled (add_mset Nv_Runtime M) (Some k) ?s1"
    using assms Nv_Child by (simp add: settled_def lib_run_snoc eq_commute)
  then have "settled M None (model_release api k (api_release ?s1))"
    by (intro settled_model_release settled_api_release)
  with Nv_Child show ?thesis by simp
qed

definition own_inv :: "'w owned \<Rightarrow> bool" where
  "own_inv s \<longleftrightarrow> settled (ow_values s) None s"

lemma own_inv_load:
  assumes i: "own_inv s" and "Nv_Runtime \<in># ow_values s"
  shows "own_inv (own_load api dir opts s)"
proof -
  have o: "0 < ow_api_refs s" using i assms(2) settled_open by (fastforce simp: own_inv_def)
  obtain r w where r: "load_model api dir opts (ow_world s) = (r, w)" by fastforce
  show ?thesis
  proof (cases r)
    case (Inl e)
    with i r o show ?thesis by (simp add: own_inv_def own_load_def settled_def lib_run_snoc)
  next
    case (Inr m)
    let ?k = "length (ow_inners s)" and ?t = "own_load api dir opts s"
    note refs = settled_refs [OF i [unfolded own_inv_def]]
    have t: "ow_inners ?t = ow_inners s @ [\<lparr>mi_model = m, mi_refs = 1\<rparr>]"
      "ow_values ?t = add_mset (Nv_Model ?k) (ow_values s)" "ow_api_refs ?t = ow_api_refs s + 1"
      "ow_calls ?t = ow_calls s @ [Lc_Load (Some ?k)]"
      using r Inr by (simp_all add: own_load_def give_def Let_def)
    have new: "model_refs s ?k = 0" by (simp add: model_refs_def)
    have rt: "model_refs ?t j = model_refs s j + of_bool (?k = j)" for j
      using t(1) new by (auto simp: model_refs_def nth_append)
    have "{j. 0 < model_refs ?t j} = insert ?k {j. 0 < model_refs s j}" using rt by auto
    with i refs rt t o new show ?thesis
      by (simp add: own_inv_def settled_def lib_run_snoc live_inners_def)
  qed
qed

lemma own_inv_clone:
  assumes i: "own_inv s" and "Nv_Model k \<in># ow_values s"
  shows "own_inv (give (Nv_Model k) (model_clone k s))"
proof -
  have p: "0 < owners (ow_values s) k" using assms(2) unfolding owners_pos by (intro bexI [of _ "Nv_Model k"]) simp_all
  then have k: "k < length (ow_inners s)" using settled_refs_len i by (fastforce simp: own_inv_def)
  have n: "0 < mi_refs (ow_inners s ! k)" "model_refs s k = mi_refs (ow_inners s ! k)"
    using settled_refs [OF i [unfolded own_inv_def], of k] p k by (simp_all add: model_refs_def)
  have "live_inners (ow_inners (model_clone k s)) = live_inners (ow_inners s)"
    using live_update [OF k, of "(ow_inners s ! k)\<lparr>mi_refs := mi_refs (ow_inners s ! k) + 1\<rparr>"] n
    by (simp add: model_clone_def set_refs_def)
  moreover have rt: "model_refs (model_clone k s) j = model_refs s j + of_bool (k = j)" for j
    using k n by (auto simp: model_clone_def)
  moreover have "{j. 0 < model_refs (model_clone k s) j} = {j. 0 < model_refs s j}" using rt n by auto
  ultimately show ?thesis using i by (simp add: own_inv_def settled_def model_clone_def)
qed

lemma own_inv_child:
  assumes i: "own_inv s" and m: "Nv_Model k \<in># ow_values s"
  shows "own_inv (own_child c k r s)"
proof -
  have p: "0 < owners (ow_values s) k" using m unfolding owners_pos by (intro bexI [of _ "Nv_Model k"]) simp_all
  then have k: "k < length (ow_inners s)" using settled_refs_len i by (fastforce simp: own_inv_def)
  have o: "0 < ow_api_refs s" using i m settled_open by (fastforce simp: own_inv_def)
  have n: "0 < mi_refs (ow_inners s ! k)" "model_refs s k = mi_refs (ow_inners s ! k)" "0 < model_refs s k"
    using settled_refs [OF i [unfolded own_inv_def], of k] p k by (simp_all add: model_refs_def)
  show ?thesis
  proof (cases "fst r")
    case (Inl e)
    with i o n show ?thesis by (simp add: own_inv_def own_child_def settled_def lib_run_snoc)
  next
    case (Inr h)
    let ?t = "own_child c k r s"
    have t: "ow_inners ?t = (ow_inners s)[k := (ow_inners s ! k)\<lparr>mi_refs := mi_refs (ow_inners s ! k) + 1\<rparr>]"
      "ow_values ?t = add_mset (Nv_Child c k h) (ow_values s)" "ow_api_refs ?t = ow_api_refs s + 1"
      "ow_calls ?t = ow_calls s @ [Lc_Create c k (Some h)]"
      using Inr by (simp_all add: own_child_def model_clone_def set_refs_def lib_log_def api_clone_def give_def)
    have "live_inners (ow_inners ?t) = live_inners (ow_inners s)"
      using live_update [OF k, of "(ow_inners s ! k)\<lparr>mi_refs := mi_refs (ow_inners s ! k) + 1\<rparr>"] n t(1) by simp
    moreover have rt: "model_refs ?t j = model_refs s j + of_bool (k = j)" for j
      using k t(1) by (auto simp: model_refs_def nth_list_update)
    moreover have "{j. 0 < model_refs ?t j} = {j. 0 < model_refs s j}" using rt n by auto
    ultimately show ?thesis using i t o n by (simp add: own_inv_def settled_def lib_run_snoc)
  qed
qed

lemma drop_value_values [simp]: "ow_values (drop_value api v s) = ow_values s"
  by (cases v) (simp_all add: model_release_def Let_def)

lemma own_inv_do:
  assumes "own_inv s"
  shows "own_inv (own_do api a s)"
proof (cases "list_all (\<lambda>v. v \<in># ow_values s) (needs a)")
  case False
  with assms show ?thesis by (simp add: own_do_def)
next
  case True
  have use: "own_inv (lib_log (Lc_Use c k h) t)" if "own_inv t" "Nv_Child c k h \<in># ow_values t" for c k h t
    using that by (auto simp: own_inv_def in_children intro!: settled_log)
  have world: "own_inv (s\<lparr>ow_world := w\<rparr>)" for w using assms by (simp add: own_inv_def)
  have "own_inv (own_act api a s)"
  proof (cases a)
    case (Oa_Drop v)
    with True have "ow_values s = add_mset v (ow_values s - {#v#})" by simp
    then have "settled (add_mset v (ow_values s - {#v#})) None (s\<lparr>ow_values := ow_values s - {#v#}\<rparr>)"
      using assms by (simp add: own_inv_def)
    from settled_drop [OF this, of api] Oa_Drop show ?thesis by (simp add: own_inv_def)
  qed (use True assms world in \<open>auto intro!: use own_inv_load own_inv_clone own_inv_child\<close>)
  with True show ?thesis by (simp add: own_do_def)
qed

lemma own_inv_open: "own_inv (own_open w)"
  by (simp add: own_inv_def own_open_def settled_def model_refs_def live_inners_def lib_opened_def)

lemma own_inv_run: "own_inv (own_run api acts w)"
proof -
  have "own_inv s \<Longrightarrow> own_inv (fold (own_do api) acts s)" for s
    by (induction acts arbitrary: s) (simp_all add: own_inv_do)
  then show ?thesis by (simp add: own_run_def own_inv_open)
qed

subsection \<open>Properties\<close>


end
