(* ===== verification/Startup.thy ===== *)
theory Startup
  imports Native_Open Native_Own Scheduler_System_Props Template_Props
begin

section \<open>Starting the server\<close>

text \<open>
  \<open>minicpm-server/src/main.rs\<close>, and \<open>AppState::new\<close> and \<open>build_router\<close> of \<open>lib.rs\<close>. The command-line
  parser, the dynamic loader, the template engine, the files and the socket are parameters; the
  arguments are those after parsing. \<open>None\<close> is a panic (an assertion), \<open>Inl\<close> the error that
  \<open>main\<close> returns. \<open>debug\<close> says whether \<open>debug_assert_eq!\<close> is compiled in.
\<close>

record args =
  ar_host :: string
  ar_port :: "16 word"
  ar_max_sessions :: nat
  ar_queue_limit :: nat
  ar_queue_timeout_s :: u64
  ar_model_dir :: path
  ar_native_lib :: "path option"
  ar_precision :: string
  ar_model_name :: string

definition args_default :: args where
  "args_default =
     \<lparr>ar_host = ''0.0.0.0'', ar_port = 8080, ar_max_sessions = 4, ar_queue_limit = 32,
      ar_queue_timeout_s = 120, ar_model_dir = [''models'', ''minicpm5-2b''], ar_native_lib = None,
      ar_precision = ''bf16'', ar_model_name = ''minicpm5-2b''\<rparr>"

subsection \<open>The engine\<close>

datatype 'w engine = Eng_Native "'w native_api" native_model mc_model_options | Eng_Mock mock_world

text \<open>\<open>options.max_sessions = args.max_sessions as u32\<close>, with its debug assertion.\<close>

definition native_options :: "bool \<Rightarrow> args \<Rightarrow> precision \<Rightarrow> mc_model_options option" where
  "native_options debug ar p =
     (let o1 = (model_options_for_precision p)\<lparr>mo_max_sessions := of_nat (ar_max_sessions ar)\<rparr>
      in if debug \<and> unat (mo_max_sessions o1) \<noteq> ar_max_sessions ar then None else Some o1)"

definition load_engine ::
  "bool \<Rightarrow> ('l, 'w) loader \<Rightarrow> args \<Rightarrow> 'w \<Rightarrow> (string + 'w engine) option \<times> 'w" where
  "load_engine debug ld ar w =
     (case ar_native_lib ar of
        None \<Rightarrow> (Some (Inr (Eng_Mock mock_engine_new)), w)
      | Some lib \<Rightarrow>
          (case precision_parse (ar_precision ar) of
             None \<Rightarrow>
               (Some (Inl (''unknown --precision '' @ [CHR 0x27] @ ar_precision ar @ [CHR 0x27] @
                  '': expected '' @ [CHR 0x27] @ ''bf16'' @ [CHR 0x27] @ '' or '' @ [CHR 0x27] @ ''fp8'' @
                  [CHR 0x27])), w)
           | Some p \<Rightarrow>
               (case native_options debug ar p of
                  None \<Rightarrow> (None, w)
                | Some opts \<Rightarrow>
                    (let (r, w1) = engine_load ld lib (path_show (ar_model_dir ar)) opts w in
                     case r of
                       Inl e \<Rightarrow> (Some (Inl e), w1)
                     | Inr (api, m) \<Rightarrow> (Some (Inr (Eng_Native api m opts)), w1)))))"

subsection \<open>The scheduler and the whole start\<close>

datatype ('w, 'c) scheduler =
    Sch_Native "'w native_api" native_model mc_model_options "('w, ptr, ptr, 'c) sys"
  | Sch_Mock "(mock_world, nat, unit, 'c) sys"

definition server_config :: "string option \<Rightarrow> args \<Rightarrow> sched_config" where
  "server_config batch_off ar =
     (sched_config_default batch_off)
       \<lparr>sc_max_sessions := ar_max_sessions ar, sc_queue_limit := ar_queue_limit ar,
        sc_queue_timeout := unat (ar_queue_timeout_s ar) * 10 ^ 9\<rparr>"

fun start_scheduler ::
  "sched_config \<Rightarrow> metrics \<Rightarrow> 'w \<Rightarrow> 'w engine \<Rightarrow> ('w, 'c) scheduler option" where
  "start_scheduler cfg met w (Eng_Native api m opts) =
     map_option (Sch_Native api m opts) (with_config cfg w met)"
| "start_scheduler cfg met w (Eng_Mock mw) = map_option Sch_Mock (with_config cfg mw met)"

record ('w, 'c, 'v, 'k) server =
  sv_scheduler :: "('w, 'c) scheduler"
  sv_config :: sched_config
  sv_prompt :: "('v, 'k) template_prompt"
  sv_model_name :: string
  sv_default_config :: gen_config
  sv_addr :: string

definition start_server ::
  "bool \<Rightarrow> ('l, 'w) loader \<Rightarrow> ('v, 'k) jinja \<Rightarrow> model_files \<Rightarrow> (string \<Rightarrow> string + unit) \<Rightarrow> string option \<Rightarrow>
   metrics \<Rightarrow> args \<Rightarrow> 'w \<Rightarrow> (string + ('w, 'c, 'v, 'k) server) option \<times> 'w" where
  "start_server debug ld ji mf bind batch_off met ar w =
     (let (r, w1) = load_engine debug ld ar w in
      case r of
        None \<Rightarrow> (None, w1)
      | Some (Inl e) \<Rightarrow> (Some (Inl e), w1)
      | Some (Inr eng) \<Rightarrow>
          (case template_prompt_new ji mf (ar_model_dir ar) of
             Inl e \<Rightarrow> (Some (Inl e), w1)
           | Inr prompt \<Rightarrow>
               (let cfg = server_config batch_off ar in
                case start_scheduler cfg met w1 eng of
                  None \<Rightarrow> (None, w1)
                | Some sch \<Rightarrow>
                    if debug \<and> sc_max_sessions cfg \<noteq> ar_max_sessions ar then (None, w1)
                    else
                      let addr = ar_host ar @ '':'' @ dec_digits (unat (ar_port ar)) in
                      case bind addr of
                        Inl e \<Rightarrow> (Some (Inl e), w1)
                      | Inr _ \<Rightarrow>
                          (Some (Inr \<lparr>sv_scheduler = sch, sv_config = cfg, sv_prompt = prompt,
                             sv_model_name = ar_model_name ar, sv_default_config = gen_config_default,
                             sv_addr = addr\<rparr>), w1))))"

subsection \<open>State and routes\<close>

text \<open>\<open>AppState::new\<close>: the handle of the scheduler is its two calls and its limit; the counter starts
  at 0.\<close>

definition app_state_new ::
  "(generation_job \<Rightarrow> 'w \<Rightarrow> gen_event list option \<times> 'w) \<Rightarrow> ('w \<Rightarrow> 'w) \<Rightarrow> nat \<Rightarrow> u64 \<Rightarrow> prompt_builder \<Rightarrow>
   string \<Rightarrow> gen_config \<Rightarrow> metrics \<Rightarrow> 'w \<Rightarrow> 'w app_state \<times> 'w app_vars" where
  "app_state_new submit cancel limit t prompt model_name cfg met w =
     (\<lparr>st_try_generate = submit, st_cancel = cancel, st_prompt = prompt, st_model_name = model_name,
       st_default_config = cfg, st_max_sessions = limit, st_unix_now = t\<rparr>,
      \<lparr>av_counter = 0, av_metrics = met, av_world = w\<rparr>)"

datatype endpoint = Ep_Chat | Ep_Messages | Ep_Responses | Ep_Models | Ep_Health | Ep_Stats

definition routes :: "(string \<times> string \<times> endpoint) list" where
  "routes =
     [(''/v1/chat/completions'', ''POST'', Ep_Chat), (''/v1/messages'', ''POST'', Ep_Messages),
      (''/v1/responses'', ''POST'', Ep_Responses), (''/v1/models'', ''GET'', Ep_Models),
      (''/health'', ''GET'', Ep_Health), (''/v1/stats'', ''GET'', Ep_Stats)]"

text \<open>The HTTP framework: what it answers to a path or a method without a route, and how it reads a
  body, refusing one it cannot read. A \<open>get\<close> route also serves \<open>HEAD\<close>.\<close>

record framework =
  fw_not_found :: http_response
  fw_not_allowed :: http_response
  fw_chat :: "string \<Rightarrow> http_response + chat_request"
  fw_messages :: "string \<Rightarrow> http_response + anthropic_request"
  fw_responses :: "string \<Rightarrow> http_response + responses_request"

definition route_request :: "framework \<Rightarrow> string \<Rightarrow> string \<Rightarrow> http_response + endpoint" where
  "route_request fw meth p =
     (case map_of routes p of
        None \<Rightarrow> Inl (fw_not_found fw)
      | Some (m, ep) \<Rightarrow>
          if meth = m \<or> (meth = ''HEAD'' \<and> m = ''GET'') then Inr ep else Inl (fw_not_allowed fw))"

definition serve ::
  "framework \<Rightarrow> (string \<Rightarrow> string) \<Rightarrow> (json \<Rightarrow> string) \<Rightarrow> (string \<Rightarrow> json option) \<Rightarrow> (nat \<Rightarrow> bool) \<Rightarrow>
   'w app_state \<Rightarrow> string \<Rightarrow> string \<Rightarrow> string \<Rightarrow> 'w app_vars \<Rightarrow> http_response option \<times> 'w app_vars" where
  "serve fw quote ser from_str alive st meth p body v =
     (case route_request fw meth p of
        Inl r \<Rightarrow> (Some r, v)
      | Inr Ep_Chat \<Rightarrow>
          (case fw_chat fw body of
             Inl r \<Rightarrow> (Some r, v) | Inr req \<Rightarrow> chat_completions quote ser alive st req v)
      | Inr Ep_Messages \<Rightarrow>
          (case fw_messages fw body of
             Inl r \<Rightarrow> (Some r, v) | Inr req \<Rightarrow> messages quote ser from_str alive st req v)
      | Inr Ep_Responses \<Rightarrow>
          (case fw_responses fw body of
             Inl r \<Rightarrow> (Some r, v) | Inr req \<Rightarrow> responses quote ser from_str alive st req v)
      | Inr Ep_Models \<Rightarrow> (Some (models_response st), v)
      | Inr Ep_Health \<Rightarrow> (Some health_response, v)
      | Inr Ep_Stats \<Rightarrow> (Some (stats_response st (av_metrics v)), v))"

subsection \<open>What the server promises once it has started\<close>

lemma load_engine_native:
  assumes "load_engine debug ld ar w = (Some (Inr (Eng_Native api m opts)), w1)"
  obtains lib p w0 where "ar_native_lib ar = Some lib" "precision_parse (ar_precision ar) = Some p"
    "native_options debug ar p = Some opts" "runtime_open ld lib w = (Inr api, w0)"
    "load_model api (path_show (ar_model_dir ar)) opts w0 = (Inr m, w1)"
proof -
  obtain lib where lib: "ar_native_lib ar = Some lib"
    using assms by (cases "ar_native_lib ar") (auto simp: load_engine_def)
  obtain p where p: "precision_parse (ar_precision ar) = Some p"
    using assms lib by (cases "precision_parse (ar_precision ar)") (auto simp: load_engine_def)
  have o: "native_options debug ar p = Some opts"
    "engine_load ld lib (path_show (ar_model_dir ar)) opts w = (Inr (api, m), w1)"
    using assms lib p by (auto simp: load_engine_def Let_def split: option.splits sum.splits prod.splits)
  from engine_load_Inr [OF o(2)] lib p o(1) that show thesis by blast
qed

lemma start_server_Inr:
  assumes "start_server debug ld ji mf bind batch_off met ar w = (Some (Inr sv), w1)"
  obtains eng where "load_engine debug ld ar w = (Some (Inr eng), w1)"
    "template_prompt_new ji mf (ar_model_dir ar) = Inr (sv_prompt sv)" "sv_config sv = server_config batch_off ar"
    "start_scheduler (server_config batch_off ar) met w1 eng = Some (sv_scheduler sv)"
    "bind (sv_addr sv) = Inr ()"
  using assms
  by (fastforce simp: start_server_def Let_def split: option.splits sum.splits prod.splits if_splits)

lemma native_options_max:
  assumes "native_options debug ar p = Some opts"
  shows "mo_max_sessions opts = of_nat (ar_max_sessions ar)"
    and "debug \<or> ar_max_sessions ar < 2 ^ 32 \<Longrightarrow> unat (mo_max_sessions opts) = ar_max_sessions ar"
proof -
  show m: "mo_max_sessions opts = of_nat (ar_max_sessions ar)"
    using assms by (auto simp: native_options_def Let_def split: if_splits)
  have "debug \<Longrightarrow> unat (mo_max_sessions opts) = ar_max_sessions ar"
    using assms by (auto simp: native_options_def Let_def split: if_splits)
  moreover have "ar_max_sessions ar < 2 ^ 32 \<Longrightarrow> unat (mo_max_sessions opts) = ar_max_sessions ar"
    by (simp add: m unat_of_nat take_bit_nat_eq_self)
  ultimately show "debug \<or> ar_max_sessions ar < 2 ^ 32 \<Longrightarrow> unat (mo_max_sessions opts) = ar_max_sessions ar" by blast
qed

text \<open>The release build truncates: a limit of \<open>2 ^ 32\<close> starts a scheduler with that many sessions over a
  model loaded for none.\<close>

lemma native_quota_truncates:
  "map_option mo_max_sessions (native_options False (args_default\<lparr>ar_max_sessions := 2 ^ 32\<rparr>) Bf16) = Some 0"
  by (simp add: native_options_def args_default_def)

text \<open>C1: A server that has started on the native engine keeps its quotas: the library exported every entry point, the model was loaded for the sessions of \<open>--max-sessions\<close> (modulo \<open>2 ^ 32\<close>, which only a release build lets differ), and in every state that the running system reaches, under any interleaving of handlers and worker, the sessions idle or in use are at most \<open>--max-sessions\<close>, which is what the library was told.\<close>

theorem server_session_quota:
  assumes "start_server debug ld ji mf bind batch_off met ar w = (Some (Inr sv), w1)"
    and "sv_scheduler sv = Sch_Native api m opts s0"
    and "sys_reach (sched_env (sv_config sv) (native_ops api m) po clk wall) (sc_queue_limit (sv_config sv)) s0 s"
  shows "1 \<le> ar_max_sessions ar \<and>
    length (wk_idle (sy_worker s)) + length (wk_active (sy_worker s)) \<le> ar_max_sessions ar \<and>
    mo_max_sessions opts = of_nat (ar_max_sessions ar) \<and>
    (debug \<or> ar_max_sessions ar < 2 ^ 32 \<longrightarrow>
       length (wk_idle (sy_worker s)) + length (wk_active (sy_worker s)) \<le> unat (mo_max_sessions opts)) \<and>
    (\<exists>lib p l w0. ar_native_lib ar = Some lib \<and> ld_open ld lib w = (Inr l, w0) \<and>
       precision_parse (ar_precision ar) = Some p \<and> mo_precision opts = precision_as_native p \<and>
       (\<forall>n \<in> set native_symbols. \<exists>a. ld_get ld l n = Inr a))"
proof -
  let ?cfg = "server_config batch_off ar"
  obtain eng where e: "load_engine debug ld ar w = (Some (Inr eng), w1)" "sv_config sv = ?cfg"
    "start_scheduler ?cfg met w1 eng = Some (sv_scheduler sv)"
    by (rule start_server_Inr [OF assms(1)])
  have eng: "eng = Eng_Native api m opts" and s0: "with_config ?cfg w1 met = Some s0"
    using e(3) assms(2) by (cases eng; auto)+
  obtain lib p w0 where l: "ar_native_lib ar = Some lib" "precision_parse (ar_precision ar) = Some p"
    "native_options debug ar p = Some opts" "runtime_open ld lib w = (Inr api, w0)"
    by (rule load_engine_native [OF e(1) [unfolded eng]])
  obtain h where h: "ld_open ld lib w = (Inr h, w0)" "\<forall>n \<in> set native_symbols. \<exists>a. ld_get ld h n = Inr a"
    by (rule runtime_open_complete [OF l(4)]) blast
  have pos: "1 \<le> ar_max_sessions ar"
    using s0 by (auto simp: with_config_def server_config_def split: if_splits)
  let ?env = "sched_env ?cfg (native_ops api m) po clk wall"
  have env: "en_max_sessions ?env = ar_max_sessions ar" by (simp add: sched_env_def server_config_def)
  have "has_room ?env (sy_worker s) 0"
    using sys_reach_room [OF assms(3) [unfolded e(2)] s0] pos env by simp
  then have n: "length (wk_idle (sy_worker s)) + length (wk_active (sy_worker s)) \<le> ar_max_sessions ar"
    by (simp add: has_room_def size_pool env)
  have "mo_precision opts = precision_as_native p"
    using l(3) by (auto simp: native_options_def model_options_for_precision_def Let_def split: if_splits)
  with pos n l h native_options_max [OF l(3)] show ?thesis by auto
qed

text \<open>A library that grants handles, and a loader that exports everything.\<close>

definition demo_native :: "nat native_api" where
  "demo_native =
     \<lparr>na_model_load = (\<lambda>_ _ w. ((mc_ok, 1), w)), na_model_destroy = (\<lambda>_ w. w),
      na_session_create = (\<lambda>_ w. ((mc_ok, of_nat w + 2), w + 1)), na_session_reset = (\<lambda>_ w. (mc_ok, w)),
      na_session_destroy = (\<lambda>_ w. w), na_prefill = (\<lambda>_ _ _ w. (mc_ok, w)), na_decode_one = (\<lambda>_ _ w. ((mc_ok, 7), w)),
      na_get_stats = (\<lambda>_ w. ((mc_ok, \<lparr>ms_prompt_tokens = 0, ms_generated_tokens = 0, ms_prefill_us = 0,
        ms_decode_us = 0, ms_peak_vram_bytes = 0, ms_cuda_graph_launches = 0\<rparr>), w)),
      na_last_error = (\<lambda>_. None), na_batch_group_create = (\<lambda>_ _ w. ((mc_ok, 1), w)),
      na_batch_group_add = (\<lambda>_ _ w. ((mc_ok, 0), w)), na_batch_group_remove = (\<lambda>_ _ w. (mc_ok, w)),
      na_batch_step = (\<lambda>_ slots _ _ w. ((mc_ok, map (\<lambda>_. 7) slots), w)), na_batch_group_destroy = (\<lambda>_ w. w)\<rparr>"

definition demo_loader :: "(unit, nat) loader" where
  "demo_loader = \<lparr>ld_open = (\<lambda>_ w. (Inr (), w)), ld_get = (\<lambda>_ _. Inr 4096), ld_bind = (\<lambda>_. demo_native)\<rparr>"

definition demo_args :: args where
  "demo_args = args_default\<lparr>ar_model_dir := [''model''], ar_native_lib := Some [''lib.so'']\<rparr>"

lemma demo_start_server:
  "\<exists>sv m opts s0. (start_server True demo_loader demo_jinja demo_files (\<lambda>_. Inr ()) None metrics_default demo_args 0 ::
       (string + (nat, fifo_port, json, bool option) server) option \<times> nat) = (Some (Inr sv), 0) \<and>
     sv_scheduler sv = Sch_Native demo_native m opts s0 \<and> unat (mo_max_sessions opts) = 4"
proof -
  have p: "precision_parse ''bf16'' = Some Bf16" by code_simp
  have r: "runtime_open demo_loader [''lib.so''] 0 = (Inr demo_native, 0)"
    by (simp add: runtime_open_def demo_loader_def native_symbols_def)
  have o: "native_options True demo_args Bf16 = Some ((model_options_for_precision Bf16)\<lparr>mo_max_sessions := 4\<rparr>)"
    by (simp add: native_options_def demo_args_def args_default_def)
  let ?opts = "(model_options_for_precision Bf16)\<lparr>mo_max_sessions := 4\<rparr>"
  have m: "load_model demo_native (path_show [''model'']) ?opts 0 = (Inr \<lparr>nm_handle = 1, nm_max_context_tokens = 8192\<rparr>, 0)"
    by (simp add: load_model_def demo_native_def native_check_def as_anyhow_def path_show_def join_with_def
        model_options_for_precision_def default_model_options_def)
  have e: "load_engine True demo_loader demo_args 0 =
      (Some (Inr (Eng_Native demo_native \<lparr>nm_handle = 1, nm_max_context_tokens = 8192\<rparr> ?opts)), 0)"
    using o m by (simp add: load_engine_def demo_args_def args_default_def p engine_load_def r)
  have d: "ar_model_dir demo_args = [''model'']" by (simp add: demo_args_def)
  have c: "1 \<le> sc_max_sessions (server_config None demo_args)" "1 \<le> sc_event_channel_capacity (server_config None demo_args)"
    "sc_max_sessions (server_config None demo_args) = ar_max_sessions demo_args" "1 \<le> ar_max_sessions demo_args"
    by (simp_all add: server_config_def sched_config_default_def demo_args_def args_default_def)
  show ?thesis
    by (simp add: start_server_def e d demo_prompt_loads with_config_def c [unfolded One_nat_def] Let_def)
qed

theorem server_session_quota_witness:
  "\<exists>sv :: (nat, fifo_port, json, bool option) server. \<exists>m opts s0. sv_scheduler sv = Sch_Native demo_native m opts s0 \<and>
     length (wk_idle (sy_worker s0)) + length (wk_active (sy_worker s0)) \<le> unat (mo_max_sessions opts)"
proof -
  obtain sv :: "(nat, fifo_port, json, bool option) server" and m opts s0 where
    s: "start_server True demo_loader demo_jinja demo_files (\<lambda>_. Inr ()) None metrics_default demo_args 0 = (Some (Inr sv), 0)"
    "sv_scheduler sv = Sch_Native demo_native m opts s0"
    using demo_start_server by blast
  from server_session_quota [OF s sys_reach.start] s(2) show ?thesis by blast
qed

end
