(* ===== verification/Spec2Isabelle.thy ===== *)
theory Spec2Isabelle
  imports Usage Stop Stream_Decode Prompt Tool_Call Metrics Mock Native Scheduler_System_Props Worker_Drain System_Reference Bench_Props
    Generation_Props Tool_Args Chat_Props Anthropic_Props Responses_Props
    Ascii_Escape Template_Props Served Startup
begin

text \<open>
  \<^bold>\<open>A verification library for the MiniCPM5 inference server\<close>

  The program is the Rust workspace under \<open>src/rust\<close>: an HTTP server that speaks three protocols
  (OpenAI chat completions, Anthropic messages, OpenAI responses) over one scheduler, which runs
  generations on a GPU library behind a C ABI, or on a deterministic mock. A request is parsed,
  its conversation rendered by the chat template and tokenized (\<open>minicpm-template\<close>,
  \<open>minicpm-tokenizer\<close>, \<open>prompt.rs\<close>), submitted to the scheduler, and run by its one worker thread,
  which owns all sessions (\<open>minicpm-scheduler\<close>, \<open>minicpm-runtime\<close>). The job's events come back over a
  bounded channel to the request's generation loop (\<open>chat.rs\<close>), which detokenizes incrementally,
  looks for stop strings and parses tool calls (\<open>minicpm-generation\<close>), and hands abstract emissions
  to the encoder of the protocol.

  \<^bold>\<open>Conventions.\<close> A Rust string is its list of UTF-8 bytes, so a slice that does not fall on a
  character boundary panics as in Rust; a panic is \<open>None\<close>, an error the left of a sum. Machine
  integers are words of their width, \<open>usize\<close> is \<open>nat\<close> where no conversion or wrap-around is
  involved, a \<open>f32\<close> is its bit pattern. Third-party code is a parameter: the tokenizer, the
  template engine, JSON printing and parsing, the C library, the dynamic loader, the HTTP
  framework, channels, clocks. What the proofs need of it is a locale or a named hypothesis.

  \<^bold>\<open>Foundations.\<close>
  \<^item> \<open>Rust_Base\<close>: character boundaries, slices, searching, decimal printing, UTF-8, and the lemmas
    about them that all components share.
  \<^item> \<open>Json\<close>: \<open>serde_json::Value\<close>, objects with their insertion order, and the quoting of strings. Locale
    \<open>json_quoting\<close>, interpreted on RFC 8259 escaping (\<open>rfc\<close>); \<open>json_escaping\<close> and \<open>json_printing\<close>
    (\<open>Tool_Args\<close>) extend it, interpreted as \<open>rfc_print\<close>.

  \<^bold>\<open>Generation\<close> (\<open>minicpm-generation/src\<close>).
  \<^item> \<open>Usage\<close>: \<open>usage.rs\<close>.
  \<^item> \<open>Stop\<close>: \<open>stop.rs\<close>. The windowed search agrees with a search of the whole text, the safe length is
    never retracted, and the exact condition of a panic in \<open>push_text\<close> is given.
  \<^item> \<open>Stream_Decode\<close>: \<open>stream_decode.rs\<close>, over locale \<open>prefix_stable_decoder\<close>, interpreted on the scripted
    decoder in \<open>Prompt\<close>: the deltas join to the decoded text.
  \<^item> \<open>Tool_Call\<close>: \<open>tool_call.rs\<close>. A rendered conversation parses back to its calls, fragmentation does not
    matter (where it does, a counterexample is given), and events are well nested.

  \<^bold>\<open>Prompts.\<close>
  \<^item> \<open>Tokenizer\<close>: \<open>minicpm-tokenizer/src/lib.rs\<close>. \<open>Template\<close>, \<open>Ascii_Escape\<close>: \<open>minicpm-template/src/lib.rs\<close>,
    messages, context, \<open>tojson\<close>, Python string methods. \<open>Prompt\<close>, \<open>Template_Prompt\<close>: \<open>prompt.rs\<close>, the
    scripted and the production builder. \<open>Template_Props\<close>: which messages the surfaces build the
    production builder accepts.

  \<^bold>\<open>Runtime.\<close>
  \<^item> \<open>Abi\<close>: the structs of \<open>minicpm-runtime-sys/src/lib.rs\<close> and their \<open>repr(C)\<close> layout. \<open>Runtime\<close>: the traits
    of \<open>minicpm-runtime/src/lib.rs\<close> as records of operations over a world, and locale
    \<open>exclusive_sessions\<close>, interpreted on the mock. \<open>Mock\<close>: \<open>mock.rs\<close>.
  \<^item> \<open>Native\<close>, \<open>Native_Open\<close>: the wrapper calls of \<open>native.rs\<close> and the opening of the library.
    \<open>Native_Own\<close>: reference counts and drops as a transition system over owned values; the record
    \<open>lib_view\<close> is the abstract state of the library, \<open>lib_legal\<close> its protocol, and the invariant \<open>settled\<close>
    relates the counts to it.

  \<^bold>\<open>Scheduler\<close> (\<open>minicpm-scheduler/src/lib.rs\<close>, \<open>minicpm-metrics/src/lib.rs\<close>).
  \<^item> \<open>Metrics\<close>: the registry. \<open>Scheduler\<close>: \<open>active_gen\<close> (\<open>ActiveGen\<close>), the record \<open>worker\<close> (what \<open>worker_loop\<close>
    keeps between iterations), steps, admission, retirement. \<open>Worker\<close>: the quantum, batching and its
    fallback, one iteration of the loop (\<open>worker_iter\<close>), shutdown.
  \<^item> \<open>Worker_Frame\<close>: which fields each operation changes; locale \<open>quantum_frame\<close> carries a per-stream
    invariant through a quantum. \<open>Worker_Events\<close>: locale \<open>event_channel\<close>, the laws of a job's channel, and
    the log of every job. \<open>Worker_Pool\<close>: locale \<open>conserved\<close>, a quantity that a quantum keeps, interpreted
    four times (\<open>pool\<close>, \<open>streams\<close>, \<open>jobs\<close>, \<open>waits\<close>) and, by a sublocale of \<open>tagged_port\<close>, for the identity of
    the jobs. \<open>Worker_Drain\<close>: locale \<open>roomy_channel\<close>, and the end of
    every job. \<open>Scheduler_Props\<close>: a bounded channel whose receiver reads, leaves and cancels at any
    time, the interpretations \<open>fifo\<close>, \<open>fifo_quantum\<close> (and \<open>fifo_roomy\<close> in \<open>Worker_Drain\<close>), and the
    properties of the worker.
  \<^item> \<open>Engine_Record\<close>: every engine call with its result (\<open>traced\<close> wraps an arbitrary engine), and the
    contract of \<open>native.rs\<close> as a judge over that record. \<open>Worker_Protocol\<close>: locale \<open>stream_contract\<close>, a
    contract between a stream and the sequence its session holds, carried with the protocol through every
    operation of the worker. \<open>Worker_Reference\<close>: the reference generation of a job, locale
    \<open>job_channel\<close>, and the whole worker against it; interpreted on the bounded channel (\<open>fifo_jobs\<close>) and
    the mock engine (\<open>mock_streams\<close>).
  \<^item> \<open>System_Reference\<close>: the contract of \<open>Worker_Protocol\<close> and the reference of \<open>Worker_Reference\<close> in every reachable
    state of \<open>Scheduler_System\<close>.
  \<^item> \<open>Scheduler_System\<close>, \<open>Scheduler_System_Props\<close>: \<open>Scheduler\<close>, \<open>SchedulerHandle\<close> and \<open>SchedulerInner\<close>: submitting
    threads with program counters between any two accesses to shared atomics, the queue, the worker
    thread, the drop; \<open>sys_reach\<close> are the reachable states under all interleavings.

  \<^item> \<open>Worker_Counters\<close>: by how much a run moves the batch counters. \<open>Bench\<close>, \<open>Bench_Props\<close>:
    \<open>examples/concurrency_bench.rs\<close>, its rounds, arms, verdicts and report, over the record \<open>bench_io\<close> of the
    outside world and the record \<open>f64_ops\<close> of floating-point operations.

  \<^bold>\<open>Server\<close> (\<open>minicpm-server/src\<close>).
  \<^item> \<open>Generation_Loop\<close>, \<open>Generation_Props\<close>, \<open>Tool_Args\<close>: \<open>run_generation\<close> of \<open>chat.rs\<close> with a consumer closure of
    any state. \<open>Consumer\<close>: locale \<open>consumer_simulation\<close>, which relates two consumers, interpreted as
    \<open>recorder\<close> so that a protocol encoder can be studied on the recorded emissions.
  \<^item> \<open>Server\<close>: state, ids, shared responses, event-stream frames. \<open>Blocks\<close>: locale \<open>block_protocol\<close>, the
    contract of an encoder towards a client that reads its frames, interpreted for the three protocols
    (\<open>chat\<close>, \<open>anthropic\<close>, \<open>responses\<close>): the client gets back exactly the emitted text and calls.
    \<open>Chat\<close>, \<open>Anthropic\<close>, \<open>Responses\<close> with their \<open>_Props\<close>: \<open>chat.rs\<close>, \<open>anthropic.rs\<close>, \<open>responses.rs\<close>, each with
    request translation, encoder, JSON response and handler. \<open>Handlers\<close>: the front part that the three
    handlers share.
  \<^item> \<open>Startup\<close>: \<open>main.rs\<close>, \<open>AppState::new\<close>, \<open>build_router\<close>.

  \<^bold>\<open>Composition.\<close> \<open>Served\<close>: the events that the worker put into a job's channel, fed to the generation
  loop. \<open>Template_Props\<close>: request translation with the prompt builder. \<open>Startup\<close>: the native library, the
  options and the scheduler's reachable states.

  \<^bold>\<open>Properties.\<close> Each property carries an id \<open>C<n>\<close> in the text before it. They are of these groups:
  every job ends once, in time, with the right count, and its reply says so (\<open>Scheduler_Props\<close>,
  \<open>Worker_Drain\<close>, \<open>Generation_Props\<close>, \<open>Served\<close>); counters, gauges and pools are exact or their error is exhibited
  (\<open>Scheduler_System_Props\<close>, \<open>Scheduler_Props\<close>); the streams of the three protocols can be read back
  (\<open>Chat_Props\<close>, \<open>Anthropic_Props\<close>, \<open>Responses_Props\<close>); stop strings, detokenization and tool calls meet
  reference definitions; handles of the C library are used legally and freed once (\<open>Native_Own\<close>), batch groups by their protocol
  (\<open>Worker_Protocol\<close>), and every client gets the generation of its own prompt (\<open>Worker_Reference\<close>, \<open>System_Reference\<close>); errors
  and the places where the code and its comments differ are stated as theorems too.

  \<^bold>\<open>Loops and bounds.\<close> The loops of the parsers and of the stop search are functions with a measure.
  The worker's loop has no fuel: \<open>worker_run\<close> takes the list of what the channel delivered, and
  the termination property of \<open>Scheduler_System_Props\<close> and the liveness property of
  \<open>Worker_Drain\<close> give the number of iterations after which it has stopped or
  drained. The waiting counter is bounded only while \<open>queue_limit\<close> and the number of submitting threads
  stay below \<open>2 ^ 63\<close>; the id of a tool call and the indices of blocks are \<open>nat\<close>, and the encoders'
  contract asks for fewer than \<open>2 ^ 64\<close> emissions.

  \<^bold>\<open>Not modelled.\<close> The C++ and CUDA runtime under \<open>native\<close> (the parameter \<open>native_api\<close>); the parsing of
  HTTP requests and of command-line arguments, tracing output, and thread creation, which are calls of
  libraries; the link-mode declarations of \<open>minicpm-runtime-sys\<close>, which contain no code; \<open>Send\<close>/\<open>Sync\<close>
  assertions, which the Rust compiler checks; the terminal output and the constant note texts of the
  benchmark; tests, Python tools, scripts and documentation. Memory ordering is sequentially consistent: all
  shared atomics that decide anything are accessed by single read-modify-write operations or through
  the compare-and-swap loop that is modelled step by step.
\<close>

end
